(* ===== verification/CPrelude.thy ===== *)
theory CPrelude
  imports Main "HOL-Library.Word" "HOL-Library.Monad_Syntax"
begin

unbundle bit_operations_syntax

text \<open>
  The C vocabulary shared by every component.

  \<^item> \<open>byte\<close> is an \<open>unsigned char\<close>; a C array object is the list of its bytes (\<open>mem\<close>).  A pointer
    into an object is an offset, and \<open>rd\<close>, \<open>wr\<close>, \<open>emit\<close> and \<open>slice\<close> are the only accesses: each is
    \<open>None\<close> when it leaves the object.  \<open>None\<close> therefore stands for undefined behaviour (an access
    outside the object, a read of an uninitialised variable) and, for loops declared with
    \<^theory_text>\<open>partial_function\<close>, for not returning.  A theorem that says a function is \<open>Some\<close> is thus a
    memory-safety and a termination theorem.
  \<^item> A C string is the list of its characters without the terminating NUL; a \<open>char *\<close> that may be
    NULL is an option.
  \<^item> A C \<open>int\<close> is an \<open>int\<close>; \<open>cdiv\<close> and \<open>cmod\<close> truncate towards zero as C does.  Casts to narrower
    types are written out (\<open>word_of_int\<close>, \<open>mod 2 ^ 16\<close>).
\<close>

named_theorems cursor_simps \<comment> \<open>writers as appends of bytes at a cursor\<close>
named_theorems byte_arith \<comment> \<open>bit operations of the code as arithmetic on \<open>uint\<close>\<close>

section \<open>Bytes, objects and cursors\<close>

type_synonym byte = "8 word"
type_synonym mem = "byte list"
type_synonym cursor = "mem \<times> nat"

definition rd :: "mem \<Rightarrow> nat \<Rightarrow> byte option" where
  "rd b i = (if i < length b then Some (b ! i) else None)"

definition wr :: "mem \<Rightarrow> nat \<Rightarrow> byte \<Rightarrow> mem option" where
  "wr b i x = (if i < length b then Some (b[i := x]) else None)"

definition slice :: "mem \<Rightarrow> nat \<Rightarrow> nat \<Rightarrow> byte list option" where
  "slice b i n = (if i + n \<le> length b then Some (take n (drop i b)) else None)"

definition put :: "nat \<Rightarrow> byte list \<Rightarrow> mem \<Rightarrow> mem" where
  "put i xs b = take i b @ xs @ drop (i + length xs) b"

definition emit :: "byte list \<Rightarrow> cursor \<Rightarrow> cursor option" where
  "emit xs c = (let (b, p) = c in
     if p + length xs \<le> length b then Some (put p xs b, p + length xs) else None)"

definition cs :: "string \<Rightarrow> byte list" where
  "cs s = map of_char s"

text \<open>\<open>strncmp (a, b, n) == 0\<close> on two objects: comparison stops at a difference or at a NUL.\<close>

fun strncmp0 :: "nat \<Rightarrow> byte list \<Rightarrow> byte list \<Rightarrow> bool option" where
  "strncmp0 0 a b = Some True"
| "strncmp0 (Suc n) (x # a) (y # b) =
     (if x \<noteq> y then Some False else if x = 0 then Some True else strncmp0 n a b)"
| "strncmp0 (Suc n) _ _ = None"

section \<open>Integers\<close>

definition cdiv :: "int \<Rightarrow> int \<Rightarrow> int" where
  "cdiv a b = sgn a * sgn b * (\<bar>a\<bar> div \<bar>b\<bar>)"

definition cmod :: "int \<Rightarrow> int \<Rightarrow> int" where
  "cmod a b = a - cdiv a b * b"

definition u16 :: "int \<Rightarrow> int" where
  "u16 x = x mod 65536"

definition i32 :: "int \<Rightarrow> int" where
  "i32 x = (x + 2147483648) mod 4294967296 - 2147483648"

lemma i32_id [simp]: "-2147483648 \<le> x \<Longrightarrow> x < 2147483648 \<Longrightarrow> i32 x = x"
  by (simp add: i32_def)

lemma cdiv_nonneg [simp]: "0 \<le> a \<Longrightarrow> 0 < b \<Longrightarrow> cdiv a b = a div b"
  by (cases "a = 0") (auto simp: cdiv_def)

lemma cmod_nonneg [simp]: "0 \<le> a \<Longrightarrow> 0 < b \<Longrightarrow> cmod a b = a mod b"
  by (simp add: cmod_def minus_div_mult_eq_mod)

lemma digit_div_mod: "0 \<le> r \<Longrightarrow> r < k \<Longrightarrow> (r + k * x) div k = (x :: int) \<and> (r + k * x) mod k = r"
  by simp

lemma u16_id [simp]: "0 \<le> x \<Longrightarrow> x < 65536 \<Longrightarrow> u16 x = x"
  by (simp add: u16_def)

lemma u16_bounds [simp]: "0 \<le> u16 x" "u16 x < 65536"
  by (simp_all add: u16_def)

section \<open>Facts on objects and cursors\<close>

lemma length_put [simp]: "p + length xs \<le> length b \<Longrightarrow> length (put p xs b) = length b"
  by (simp add: put_def)

lemma put_Nil [simp]: "put p [] b = b"
  by (simp add: put_def)

lemma put_append:
  "p + length xs + length ys \<le> length b \<Longrightarrow> put (p + length xs) ys (put p xs b) = put p (xs @ ys) b"
  by (simp add: put_def ac_simps)

lemma put_singleton: "p < length b \<Longrightarrow> put p [x] b = b[p := x]"
  by (simp add: put_def upd_conv_take_nth_drop)

lemma take_put [simp]: "p + length xs \<le> length b \<Longrightarrow> take p (put p xs b) = take p b"
  by (simp add: put_def)

lemma drop_put [simp]: "p + length xs \<le> length b \<Longrightarrow> drop (p + length xs) (put p xs b) = drop (p + length xs) b"
  by (simp add: put_def)

lemma put_0: "put 0 xs b = xs @ drop (length xs) b"
  by (simp add: put_def)

lemma nth_put: "p + length xs \<le> length b \<Longrightarrow> i < length b \<Longrightarrow>
    put p xs b ! i = (if p \<le> i \<and> i < p + length xs then xs ! (i - p) else b ! i)"
  by (auto simp: put_def nth_append min_def)

lemma emit_Nil [simp]: "snd c \<le> length (fst c) \<Longrightarrow> emit [] c = Some c"
  by (auto simp: emit_def split: prod.splits)

lemma emit_eq: "emit xs (b, p) = (if p + length xs \<le> length b then Some (put p xs b, p + length xs) else None)"
  by (simp add: emit_def)

lemma emit_SomeD: "emit xs (b, p) = Some (b', p') \<Longrightarrow>
    p + length xs \<le> length b \<and> b' = put p xs b \<and> p' = p + length xs \<and> length b' = length b"
  by (auto simp: emit_eq split: if_splits)

lemma emit_append [cursor_simps]: "emit xs c \<bind> emit ys = emit (xs @ ys) c"
  by (cases c) (auto simp: emit_eq put_append add.assoc split: bind_splits)

lemma emit_append_cont [cursor_simps]:
  "emit xs c \<bind> (\<lambda>c'. emit ys c' \<bind> f) = emit (xs @ ys) c \<bind> f"
  by (simp flip: emit_append)

lemma map_option_bind_cont: "map_option f (m \<bind> g) = m \<bind> (\<lambda>x. map_option f (g x))"
  by (cases m) simp_all

lemma bind_Some_map: "m \<bind> (\<lambda>x. Some (f x)) = map_option f m"
  by (cases m) simp_all

lemma emit_append_map [cursor_simps]:
  "emit xs c \<bind> (\<lambda>c'. map_option f (emit ys c')) = map_option f (emit (xs @ ys) c)"
  by (simp flip: map_option_bind_cont emit_append)

lemma wr_emit: "wr b p x = map_option fst (emit [x] (b, p))"
  by (simp add: wr_def emit_eq put_singleton)

lemma rd_Some [simp]: "i < length b \<Longrightarrow> rd b i = Some (b ! i)"
  by (simp add: rd_def)

lemma slice_Some [simp]: "i + n \<le> length b \<Longrightarrow> slice b i n = Some (take n (drop i b))"
  by (simp add: slice_def)

lemma drop_prefix_nth:
  assumes "drop p b = xs @ ys" and "i < length xs"
  shows "p + i < length b \<and> b ! (p + i) = xs ! i"
proof -
  have "length b - p = length xs + length ys"
    using arg_cong [OF assms(1), of length] by simp
  with assms(2) have "p + i < length b" by simp
  moreover from this have "b ! (p + i) = drop p b ! i" by simp
  ultimately show ?thesis using assms by (simp add: nth_append)
qed

lemma drop_prefix_drop: "drop p b = xs @ ys \<Longrightarrow> drop (p + length xs) b = ys"
  by (metis add.commute append_eq_conv_conj drop_drop)

lemma slice_middle: "slice (xs @ ys @ zs) (length xs) (length ys) = Some ys"
  by (simp add: slice_def)

lemma slice_length: "slice b i n = Some xs \<Longrightarrow> length xs = n"
  by (auto simp: slice_def split: if_splits)

section \<open>Bit operations as arithmetic\<close>

lemma uint_byte_bounds [simp]: "0 \<le> uint (b :: byte)" "uint (b :: byte) < 256"
  using uint_lt2p [of b] by simp_all

lemma uint_and_127 [byte_arith]: "uint ((b :: byte) AND 127) = uint b mod 128"
proof -
  have "b AND 127 = take_bit 7 b"
    by (simp add: take_bit_eq_mask mask_eq_exp_minus_1)
  then have "uint (b AND 127) = take_bit 7 (uint b)"
    by (simp only: unsigned_take_bit_eq)
  then show ?thesis by (simp add: take_bit_eq_mod)
qed

lemma and_128_iff [byte_arith]: "(b :: byte) AND 128 = 0 \<longleftrightarrow> uint b < 128"
proof -
  have "b AND 2 ^ 7 = 0 \<longleftrightarrow> \<not> bit b 7"
    by (rule and_exp_eq_0_iff_not_bit)
  also have "bit b 7 \<longleftrightarrow> bit (uint b) 7"
    by (simp add: bit_uint_iff)
  also have "\<dots> \<longleftrightarrow> odd (uint b div 128)"
    by (simp add: bit_iff_odd)
  also have "\<dots> \<longleftrightarrow> 128 \<le> uint b"
    using uint_byte_bounds [of b] by presburger
  finally show ?thesis by (simp add: not_le)
qed

lemma uint_word_of_int_byte [byte_arith]: "uint (word_of_int x :: byte) = x mod 256"
  by (simp add: uint_word_of_int)

lemma byte_of_uint [simp]: "word_of_int (uint (b :: byte)) = b"
  by simp

end
