(* ===== verification/CString.thy ===== *)
theory CString
  imports CPrelude
begin

text \<open>
  The functions of \<^verbatim>\<open>string.h\<close>, \<^verbatim>\<open>stdio.h\<close> and \<^verbatim>\<open>stdlib.h\<close> that the program uses on
  NUL-terminated strings in objects: \<open>strlen\<close>, \<open>strcat\<close>, \<open>strchr\<close>, \<open>strrchr\<close>, \<open>snprintf\<close> with
  \<open>%u\<close> and \<open>%d\<close>, and \<open>strtoul\<close> in base 10.
\<close>

section \<open>Strings in objects\<close>

text \<open>The string that starts at an offset; \<open>None\<close> when the object ends before a NUL.\<close>

definition cstr_at :: "mem \<Rightarrow> nat \<Rightarrow> byte list option" where
  "cstr_at b i = (if 0 \<in> set (drop i b) then Some (takeWhile (\<lambda>x. x \<noteq> 0) (drop i b)) else None)"

definition c_strcat :: "mem \<Rightarrow> byte list \<Rightarrow> mem option" where
  "c_strcat b s = do { x \<leftarrow> cstr_at b 0; map_option fst (emit (s @ [0]) (b, length x)) }"

text \<open>
  \<open>strchr\<close> stops at the character or at the NUL, whichever comes first; \<open>strrchr\<close> gives the last occurrence in a
  string.  Offsets count from the start.
\<close>

fun find_index :: "byte \<Rightarrow> byte list \<Rightarrow> nat option" where
  "find_index c [] = None"
| "find_index c (x # xs) = (if x = c then Some 0 else map_option Suc (find_index c xs))"

fun scan_chr :: "byte \<Rightarrow> byte list \<Rightarrow> nat option option" where
  "scan_chr c [] = None"
| "scan_chr c (x # xs) =
     (if x = c then Some (Some 0) else if x = 0 then Some None else map_option (map_option Suc) (scan_chr c xs))"

definition c_strchr :: "mem \<Rightarrow> nat \<Rightarrow> byte \<Rightarrow> nat option option" where
  "c_strchr b i c = map_option (map_option (\<lambda>k. i + k)) (scan_chr c (drop i b))"

definition rfind_index :: "byte \<Rightarrow> byte list \<Rightarrow> nat option" where
  "rfind_index c xs = map_option (\<lambda>k. length xs - 1 - k) (find_index c (rev xs))"

section \<open>Decimal numbers\<close>

fun dec :: "nat \<Rightarrow> byte list" where
  "dec n = (if n < 10 then [] else dec (n div 10)) @ [48 + of_nat (n mod 10)]"

declare dec.simps [simp del]

definition dec_int :: "int \<Rightarrow> byte list" where
  "dec_int n = (if n < 0 then 45 # dec (nat (- n)) else dec (nat n))"

text \<open>\<open>snprintf (b + i, n, ...)\<close> of the text \<open>s\<close>: at most \<open>n - 1\<close> characters and a NUL.\<close>

definition c_snprintf :: "mem \<Rightarrow> nat \<Rightarrow> nat \<Rightarrow> byte list \<Rightarrow> mem option" where
  "c_snprintf b i n s = (if n = 0 then Some b else map_option fst (emit (take (n - 1) s @ [0]) (b, i)))"

definition is_digit :: "byte \<Rightarrow> bool" where
  "is_digit x \<longleftrightarrow> 48 \<le> x \<and> x \<le> 57"

definition is_space :: "byte \<Rightarrow> bool" where
  "is_space x \<longleftrightarrow> x = 32 \<or> (9 \<le> x \<and> x \<le> 13)"

definition digits_value :: "byte list \<Rightarrow> nat" where
  "digits_value xs = foldl (\<lambda>v x. 10 * v + unat (x - 48)) 0 xs"

text \<open>
  \<open>strtoul (s, &end, 10)\<close>: the value and the rest of the string at \<open>end\<close>.  Space and one sign may
  precede the digits; without digits nothing is consumed; a value that does not fit is \<open>ULONG_MAX\<close>.
\<close>

definition c_strtoul :: "byte list \<Rightarrow> int \<times> byte list" where
  "c_strtoul s =
     (let t = dropWhile is_space s;
          neg = (t \<noteq> [] \<and> hd t = 45);
          u = (if t \<noteq> [] \<and> (hd t = 43 \<or> hd t = 45) then tl t else t);
          ds = takeWhile is_digit u;
          v = int (digits_value ds)
      in if ds = [] then (0, s)
         else (if v \<ge> 4294967296 then 4294967295 else if neg then (- v) mod 4294967296 else v, dropWhile is_digit u))"

section \<open>Facts\<close>

lemma slice_at: "drop i b = x @ rest \<Longrightarrow> 0 < length x \<Longrightarrow> slice b i (length x) = Some x"
proof -
  assume d: "drop i b = x @ rest" and x: "0 < length x"
  have "length b - i = length x + length rest" using arg_cong [OF d, of length] by simp
  with x have "i + length x \<le> length b" by linarith
  with d show ?thesis by (simp add: slice_def)
qed

lemma takeWhile_NUL: "(0 :: byte) \<notin> set x \<Longrightarrow> takeWhile (\<lambda>x. x \<noteq> 0) (x @ 0 # r) = x"
  by (induction x) auto

lemma cstr_at_0 [simp]: "0 \<notin> set x \<Longrightarrow> cstr_at (x @ 0 # r) 0 = Some x"
  by (simp add: cstr_at_def takeWhile_NUL)

lemma cstr_at_drop: "drop i b = x @ 0 # r \<Longrightarrow> 0 \<notin> set x \<Longrightarrow> cstr_at b i = Some x"
  by (simp add: cstr_at_def takeWhile_NUL)

text \<open>\<open>strcat\<close> on a buffer that holds the string \<open>x\<close> and has \<open>r\<close> behind the NUL.\<close>

lemma c_strcat_app [simp]:
  "0 \<notin> set x \<Longrightarrow> c_strcat (x @ 0 # r) s =
     (if length s \<le> length r then Some ((x @ s) @ 0 # drop (length s) r) else None)"
  by (simp add: c_strcat_def emit_eq put_def)

lemma find_index_app [simp]: "c \<notin> set x \<Longrightarrow> find_index c (x @ c # r) = Some (length x)"
  by (induction x) auto

lemma scan_chr_app [simp]: "c \<notin> set x \<Longrightarrow> 0 \<notin> set x \<Longrightarrow> scan_chr c (x @ c # r) = Some (Some (length x))"
  by (induction x) auto

lemma find_index_None [simp]: "find_index c x = None \<longleftrightarrow> c \<notin> set x"
  by (induction x) auto

lemma rfind_index_app [simp]: "c \<notin> set r \<Longrightarrow> rfind_index c (x @ c # r) = Some (length x)"
  using find_index_app [of c "rev r" "rev x"] by (simp add: rfind_index_def)

lemma digit_byte:
  assumes "d < 10"
  shows "is_digit (48 + of_nat d :: byte)" "unat ((48 + of_nat d :: byte) - 48) = d"
proof -
  have d: "uint (of_nat d :: byte) = int d" using assms by (simp add: uint_nat unat_of_nat)
  have "uint (48 + of_nat d :: byte) = 48 + int d" using assms d by (simp add: uint_word_ariths)
  then show "is_digit (48 + of_nat d :: byte)" using assms by (simp add: is_digit_def word_le_def)
  show "unat ((48 + of_nat d :: byte) - 48) = d" using assms by (simp add: unat_of_nat)
qed

lemma dec_digits: "\<forall>x\<in>set (dec n). is_digit x"
proof (induction n rule: dec.induct)
  case (1 n)
  then show ?case by (subst dec.simps) (auto simp: digit_byte)
qed

lemma dec_value: "digits_value (dec n) = n"
proof (induction n rule: dec.induct)
  case (1 n)
  have u: "unat (word_of_nat d :: byte) = d" if "d < 10" for d using digit_byte(2) [OF that] by simp
  have "10 * (n div 10) + n mod 10 = n" by simp
  with 1 u [of "n mod 10"] u [of n] show ?case by (subst dec.simps) (auto simp: digits_value_def)
qed

lemma dec_nonempty [simp]: "dec n \<noteq> []"
  by (subst dec.simps) simp

lemma dec_hd: "0 < n \<Longrightarrow> hd (dec n) \<noteq> 48"
proof (induction n rule: dec.induct)
  case (1 n)
  show ?case
  proof (cases "n < 10")
    case True
    have "unat ((48 + of_nat n :: byte) - 48) \<noteq> unat ((48 :: byte) - 48)"
      using True 1 digit_byte [of n] by simp
    then have "48 + of_nat n \<noteq> (48 :: byte)" by metis
    with True show ?thesis by (subst dec.simps) simp
  next
    case False
    with 1 show ?thesis by (subst dec.simps) simp
  qed
qed

lemma dec_0 [simp]: "dec 0 = [48]"
  by (subst dec.simps) simp

lemma length_dec_le: "n < 10 ^ k \<Longrightarrow> 0 < k \<Longrightarrow> length (dec n) \<le> k"
proof (induction k arbitrary: n)
  case (Suc k)
  show ?case
  proof (cases "n < 10")
    case True
    then show ?thesis by (subst dec.simps) simp
  next
    case False
    then have "0 < k" using Suc.prems by (cases k) auto
    moreover have "n div 10 < 10 ^ k" using Suc.prems by (simp add: div_less_iff_less_mult mult.commute)
    ultimately show ?thesis using False Suc.IH [of "n div 10"] by (subst dec.simps) simp
  qed
qed simp

lemma digit_not_special: "is_digit x \<Longrightarrow> x \<noteq> 0 \<and> x \<noteq> 47 \<and> x \<noteq> 43 \<and> x \<noteq> 45 \<and> x \<noteq> 35 \<and> \<not> is_space x"
  by (auto simp: is_digit_def is_space_def word_le_def)

lemma dec_not_special: "x \<in> set (dec n) \<Longrightarrow> x \<noteq> 0 \<and> x \<noteq> 47 \<and> x \<noteq> 43 \<and> x \<noteq> 45 \<and> x \<noteq> 35 \<and> \<not> is_space x"
  using dec_digits digit_not_special by blast

lemma strtoul_dec:
  assumes "n < 4294967296"
  shows "c_strtoul (dec n) = (int n, [])"
proof -
  obtain x xs where x: "dec n = x # xs" by (cases "dec n") auto
  then have "x \<in> set (dec n)" by simp
  then have sp: "\<not> is_space x" "x \<noteq> 43" "x \<noteq> 45" using dec_not_special by blast+
  have "takeWhile is_digit (dec n) = dec n" "dropWhile is_digit (dec n) = []"
    using dec_digits by (auto simp: takeWhile_eq_all_conv)
  with sp x show ?thesis
    using assms dec_value [of n] by (simp add: c_strtoul_def Let_def)
qed

end
