(* ===== verification/Timer.thy ===== *)
theory Timer
  imports CPrelude
begin

text \<open>
  \<^verbatim>\<open>main/src/Platform/esp32/Timer.c\<close>: countdown timers over \<open>struct timeval\<close>, with the \<open>timeradd\<close> and
  \<open>timersub\<close> macros of \<^verbatim>\<open>sys/time.h\<close>.  The value of \<open>gettimeofday\<close> is the parameter \<open>now\<close>.
\<close>

record timeval =
  tv_sec :: int
  tv_usec :: int

record Timer =
  end_time :: timeval

definition timeradd :: "timeval \<Rightarrow> timeval \<Rightarrow> timeval" where
  "timeradd a b =
     (let sec = tv_sec a + tv_sec b; usec = tv_usec a + tv_usec b in
      if usec \<ge> 1000000 then \<lparr>tv_sec = sec + 1, tv_usec = usec - 1000000\<rparr> else \<lparr>tv_sec = sec, tv_usec = usec\<rparr>)"

definition timersub :: "timeval \<Rightarrow> timeval \<Rightarrow> timeval" where
  "timersub a b =
     (let sec = tv_sec a - tv_sec b; usec = tv_usec a - tv_usec b in
      if usec < 0 then \<lparr>tv_sec = sec - 1, tv_usec = usec + 1000000\<rparr> else \<lparr>tv_sec = sec, tv_usec = usec\<rparr>)"

definition TimerInit :: Timer where
  "TimerInit = \<lparr>end_time = \<lparr>tv_sec = 0, tv_usec = 0\<rparr>\<rparr>"

definition TimerIsExpired :: "timeval \<Rightarrow> Timer \<Rightarrow> bool" where
  "TimerIsExpired now timer =
     (let res = timersub (end_time timer) now in tv_sec res < 0 \<or> (tv_sec res = 0 \<and> tv_usec res \<le> 0))"

definition TimerCountdownMS :: "timeval \<Rightarrow> int \<Rightarrow> Timer" where
  "TimerCountdownMS now timeout =
     (let interval = \<lparr>tv_sec = timeout div 1000, tv_usec = (timeout mod 1000) * 1000\<rparr>
      in \<lparr>end_time = timeradd now interval\<rparr>)"

definition TimerCountdown :: "timeval \<Rightarrow> int \<Rightarrow> Timer" where
  "TimerCountdown now timeout = \<lparr>end_time = timeradd now \<lparr>tv_sec = timeout, tv_usec = 0\<rparr>\<rparr>"

definition TimerLeftMS :: "timeval \<Rightarrow> Timer \<Rightarrow> int" where
  "TimerLeftMS now timer =
     (let res = timersub (end_time timer) now in
      if tv_sec res < 0 then 0 else i32 (tv_sec res * 1000 + cdiv (tv_usec res) 1000))"

section \<open>Time in microseconds\<close>

definition usecs :: "timeval \<Rightarrow> int" where
  "usecs t = 1000000 * tv_sec t + tv_usec t"

definition normal :: "timeval \<Rightarrow> bool" where
  "normal t \<longleftrightarrow> 0 \<le> tv_usec t \<and> tv_usec t < 1000000"

lemma timeradd_normal [simp]: "normal a \<Longrightarrow> normal b \<Longrightarrow> normal (timeradd a b)"
  by (auto simp: normal_def timeradd_def Let_def)

lemma timersub_normal [simp]: "normal a \<Longrightarrow> normal b \<Longrightarrow> normal (timersub a b)"
  by (auto simp: normal_def timersub_def Let_def)

lemma usecs_timeradd [simp]: "usecs (timeradd a b) = usecs a + usecs b"
  by (simp add: usecs_def timeradd_def Let_def)

lemma usecs_timersub [simp]: "usecs (timersub a b) = usecs a - usecs b"
  by (simp add: usecs_def timersub_def Let_def)

lemma normal_countdown [simp]:
  assumes "normal now"
  shows "normal (end_time (TimerCountdownMS now timeout))" "normal (end_time (TimerCountdown now timeout))"
proof -
  have "timeout mod 1000 * 1000 < 1000000" using pos_mod_bound [of 1000 timeout] by simp
  then have "normal \<lparr>tv_sec = timeout div 1000, tv_usec = timeout mod 1000 * 1000\<rparr>" by (simp add: normal_def)
  moreover have "normal \<lparr>tv_sec = timeout, tv_usec = 0\<rparr>" by (simp add: normal_def)
  ultimately show "normal (end_time (TimerCountdownMS now timeout))" "normal (end_time (TimerCountdown now timeout))"
    using assms by (simp_all add: TimerCountdownMS_def TimerCountdown_def)
qed

lemma usecs_countdownMS: "usecs (end_time (TimerCountdownMS now timeout)) = usecs now + 1000 * timeout"
proof -
  have "1000 * (timeout div 1000) + timeout mod 1000 = timeout" by simp
  then have "usecs \<lparr>tv_sec = timeout div 1000, tv_usec = timeout mod 1000 * 1000\<rparr> = 1000 * timeout"
    unfolding usecs_def timeval.simps by linarith
  then show ?thesis by (simp add: TimerCountdownMS_def)
qed

lemma usecs_countdown: "usecs (end_time (TimerCountdown now timeout)) = usecs now + 1000000 * timeout"
  by (simp add: TimerCountdown_def usecs_def [of "\<lparr>tv_sec = _, tv_usec = _\<rparr>"])

lemma expired_iff:
  assumes "normal now" and "normal (end_time t)"
  shows "TimerIsExpired now t \<longleftrightarrow> usecs (end_time t) \<le> usecs now"
proof -
  let ?r = "timersub (end_time t) now"
  have n: "0 \<le> tv_usec ?r" "tv_usec ?r < 1000000"
    using timersub_normal [OF assms(2,1)] by (simp_all add: normal_def)
  have u: "1000000 * tv_sec ?r + tv_usec ?r = usecs (end_time t) - usecs now"
    using usecs_timersub [of "end_time t" now] by (simp only: usecs_def [of ?r])
  have "TimerIsExpired now t \<longleftrightarrow> 1000000 * tv_sec ?r + tv_usec ?r \<le> 0"
    using n unfolding TimerIsExpired_def Let_def by linarith
  with u show ?thesis by simp
qed

lemma left_ms_eq:
  assumes "normal now" and "normal (end_time t)"
    and "usecs (end_time t) - usecs now < 2147483648000"
  shows "TimerLeftMS now t = max 0 ((usecs (end_time t) - usecs now) div 1000)"
proof -
  let ?r = "timersub (end_time t) now"
  have r: "normal ?r" "usecs (end_time t) - usecs now = usecs ?r" using assms by simp_all
  have d: "usecs ?r div 1000 = tv_sec ?r * 1000 + tv_usec ?r div 1000"
    by (simp add: usecs_def)
  show ?thesis
  proof (cases "tv_sec ?r < 0")
    case True
    have "tv_usec ?r div 1000 < 1000" using r(1) unfolding normal_def by linarith
    with True have "usecs ?r div 1000 < 0" unfolding d by linarith
    with True r(2) show ?thesis by (simp add: TimerLeftMS_def Let_def)
  next
    case False
    have "tv_sec ?r * 1000 + tv_usec ?r div 1000 < 2147483648" using assms(3) unfolding r(2) d [symmetric] by simp
    moreover have n: "0 \<le> tv_usec ?r div 1000" using r(1) by (simp add: normal_def pos_imp_zdiv_nonneg_iff)
    moreover have "0 \<le> tv_sec ?r * 1000 + tv_usec ?r div 1000" using False n by linarith
    ultimately have "i32 (usecs ?r div 1000) = usecs ?r div 1000 \<and> 0 \<le> usecs ?r div 1000"
      unfolding d [symmetric] by simp
    with False r d show ?thesis by (simp add: TimerLeftMS_def Let_def normal_def)
  qed
qed

section \<open>Properties\<close>

text \<open>C34: a countdown behaves as its documentation says.  A timer set with \<open>TimerCountdownMS\<close> to \<open>timeout\<close>
  milliseconds is expired exactly from that many milliseconds on; until then \<open>TimerLeftMS\<close> is the number
  of whole milliseconds left, afterwards 0, and it never leaves the range from 0 to \<open>timeout\<close> once time has
  not run backwards (timeouts below $2^{31}$ ms: above, the C multiplication overflows).\<close>

theorem TimerCountdownMS_correct:
  assumes "normal t0" and "normal now" and "0 \<le> timeout" and "timeout < 2147483648" and "usecs t0 \<le> usecs now"
  shows "(TimerIsExpired now (TimerCountdownMS t0 timeout) \<longleftrightarrow> 1000 * timeout \<le> usecs now - usecs t0) \<and>
     TimerLeftMS now (TimerCountdownMS t0 timeout) = max 0 ((1000 * timeout - (usecs now - usecs t0)) div 1000) \<and>
     0 \<le> TimerLeftMS now (TimerCountdownMS t0 timeout) \<and>
     TimerLeftMS now (TimerCountdownMS t0 timeout) \<le> timeout"
proof -
  let ?t = "TimerCountdownMS t0 timeout"
  have e: "usecs (end_time ?t) - usecs now = 1000 * timeout - (usecs now - usecs t0)"
    by (simp add: usecs_countdownMS)
  have "TimerLeftMS now ?t = max 0 ((1000 * timeout - (usecs now - usecs t0)) div 1000)"
    using left_ms_eq [of now ?t] assms e by simp
  moreover have "(1000 * timeout - (usecs now - usecs t0)) div 1000 \<le> timeout" using assms by linarith
  moreover have "TimerIsExpired now ?t \<longleftrightarrow> 1000 * timeout \<le> usecs now - usecs t0"
    using expired_iff [of now ?t] assms by (auto simp: usecs_countdownMS)
  ultimately show ?thesis using assms(3) by simp
qed

theorem TimerCountdownMS_correct_witness:
  "\<not> TimerIsExpired \<lparr>tv_sec = 11, tv_usec = 250000\<rparr> (TimerCountdownMS \<lparr>tv_sec = 10, tv_usec = 900000\<rparr> 500) \<and>
     TimerLeftMS \<lparr>tv_sec = 11, tv_usec = 250000\<rparr> (TimerCountdownMS \<lparr>tv_sec = 10, tv_usec = 900000\<rparr> 500) = 150"
  using TimerCountdownMS_correct [of "\<lparr>tv_sec = 10, tv_usec = 900000\<rparr>" "\<lparr>tv_sec = 11, tv_usec = 250000\<rparr>" 500]
  by (simp add: normal_def usecs_def)

end
