(* ===== verification/MQTTPacket.thy ===== *)
theory MQTTPacket
  imports CPrelude
begin

unbundle bit_operations_syntax

text \<open>
  \<^verbatim>\<open>main/src/MQTTCommon/MQTTPacket.c\<close> and the types of \<^verbatim>\<open>MQTTPacket.h\<close>: the header byte, the
  variable-length remaining-length field, the primitive readers and writers, \<open>MQTTString\<close>, the
  blocking packet reader \<open>MQTTPacket_read\<close> and the resumable one, \<open>MQTTPacket_readnb\<close>.

  Every writer takes a cursor (the object and the offset \<open>*pptr\<close>) and returns the advanced
  cursor.  The second half shows that each writer is an \<open>emit\<close> of the bytes the MQTT format asks
  for, that the length field round-trips, and how the two readers treat their input.
\<close>

section \<open>Constants and the header byte\<close>

abbreviation MQTTPACKET_BUFFER_TOO_SHORT :: int where "MQTTPACKET_BUFFER_TOO_SHORT \<equiv> -2"
abbreviation MQTTPACKET_READ_ERROR :: int where "MQTTPACKET_READ_ERROR \<equiv> -1"

datatype msgTypes = CONNECT_MSG | CONNACK_MSG | PUBLISH_MSG | PUBACK_MSG | PUBREC_MSG | PUBREL_MSG
  | PUBCOMP_MSG | SUBSCRIBE_MSG | SUBACK_MSG | UNSUBSCRIBE_MSG | UNSUBACK_MSG
  | PINGREQ_MSG | PINGRESP_MSG | DISCONNECT_MSG

primrec msgType :: "msgTypes \<Rightarrow> int" where
  "msgType CONNECT_MSG = 1"
| "msgType CONNACK_MSG = 2"
| "msgType PUBLISH_MSG = 3"
| "msgType PUBACK_MSG = 4"
| "msgType PUBREC_MSG = 5"
| "msgType PUBREL_MSG = 6"
| "msgType PUBCOMP_MSG = 7"
| "msgType SUBSCRIBE_MSG = 8"
| "msgType SUBACK_MSG = 9"
| "msgType UNSUBSCRIBE_MSG = 10"
| "msgType UNSUBACK_MSG = 11"
| "msgType PINGREQ_MSG = 12"
| "msgType PINGRESP_MSG = 13"
| "msgType DISCONNECT_MSG = 14"

text \<open>
  The union \<open>MQTTHeader\<close>, low bit first: \<open>retain:1\<close>, \<open>qos:2\<close>, \<open>dup:1\<close>, \<open>type:4\<close>.  Storing into a
  bit-field keeps the low bits of the value.
\<close>

record MQTTHeader =
  bits_retain :: int
  bits_qos :: int
  bits_dup :: int
  bits_type :: int

definition header_byte :: "MQTTHeader \<Rightarrow> byte" where
  "header_byte h = word_of_int (bits_retain h mod 2 + 2 * (bits_qos h mod 4) + 8 * (bits_dup h mod 2) + 16 * (bits_type h mod 16))"

definition header_bits :: "byte \<Rightarrow> MQTTHeader" where
  "header_bits b = \<lparr>bits_retain = uint b mod 2, bits_qos = uint b div 2 mod 4, bits_dup = uint b div 8 mod 2,
     bits_type = uint b div 16\<rparr>"

section \<open>The remaining-length field\<close>

text \<open>\<open>MQTTPacket_encode (buf + off, length)\<close>: the object after the call and the bytes written.\<close>

function MQTTPacket_encode_loop :: "mem \<Rightarrow> nat \<Rightarrow> int \<Rightarrow> nat \<Rightarrow> (mem \<times> nat) option" where
  "MQTTPacket_encode_loop buf off len rc =
     (let d = (word_of_int (cmod len 128) :: byte);
          len' = cdiv len 128;
          d' = (if len' > 0 then d OR 0x80 else d)
      in case wr buf (off + rc) d' of
           None \<Rightarrow> None
         | Some buf' \<Rightarrow> if len' > 0 then MQTTPacket_encode_loop buf' off len' (rc + 1) else Some (buf', rc + 1))"
  by pat_completeness auto
termination
proof (relation "measure (\<lambda>(buf, off, len, rc). nat len)", goal_cases)
  case (2 buf off len rc d len' d' buf')
  then have "0 < cdiv len 128" by simp
  then have "0 < len"
    by (cases "0 < len") (auto simp: cdiv_def sgn_if zero_less_mult_iff split: if_splits)
  with 2 show ?case by simp
qed simp

definition MQTTPacket_encode :: "mem \<Rightarrow> nat \<Rightarrow> int \<Rightarrow> (mem \<times> nat) option" where
  "MQTTPacket_encode buf off len = MQTTPacket_encode_loop buf off len 0"

text \<open>\<open>ptr += MQTTPacket_encode (ptr, length)\<close>, as the serializers use it.\<close>

definition encodeAt :: "cursor \<Rightarrow> int \<Rightarrow> cursor option" where
  "encodeAt c n = do { (b, k) \<leftarrow> MQTTPacket_encode (fst c) (snd c) n; Some (b, snd c + k) }"

text \<open>
  \<open>MQTTPacket_decode\<close> reads single bytes through a callback.  A callback over a source of type
  \<open>'s\<close> takes the number of bytes wanted and the source, and yields its return value, the bytes it
  stored and the source after the call; \<open>None\<close> is undefined behaviour of the callback.  \<open>c\<close> keeps
  its previous value when the callback stores nothing, which the loop never reads.
\<close>

type_synonym 's getfn = "int \<Rightarrow> 's \<Rightarrow> (int \<times> byte list \<times> 's) option"

definition MAX_NO_OF_REMAINING_LENGTH_BYTES :: int where
  "MAX_NO_OF_REMAINING_LENGTH_BYTES = 4"

function MQTTPacket_decode_loop :: "'s getfn \<Rightarrow> 's \<Rightarrow> int \<Rightarrow> int \<Rightarrow> int \<Rightarrow> (int \<times> int \<times> 's) option" where
  "MQTTPacket_decode_loop getcharfn s len multiplier val =
     (let len' = len + 1 in
      if len' > MAX_NO_OF_REMAINING_LENGTH_BYTES then Some (len', val, s)
      else case getcharfn 1 s of
        None \<Rightarrow> None
      | Some (rc, bs, s') \<Rightarrow>
          if rc \<noteq> 1 then Some (len', val, s')
          else case bs of
            [] \<Rightarrow> None
          | c # _ \<Rightarrow>
              let val' = val + uint (c AND 127) * multiplier; multiplier' = multiplier * 128
              in if c AND 128 \<noteq> 0 then MQTTPacket_decode_loop getcharfn s' len' multiplier' val'
                 else Some (len', val', s'))"
  by pat_completeness auto
termination
  by (relation "measure (\<lambda>(g, s, len, m, v). nat (5 - len))")
     (auto simp: MAX_NO_OF_REMAINING_LENGTH_BYTES_def)

definition MQTTPacket_decode :: "'s getfn \<Rightarrow> 's \<Rightarrow> (int \<times> int \<times> 's) option" where
  "MQTTPacket_decode getcharfn s = MQTTPacket_decode_loop getcharfn s 0 1 0"

definition MQTTPacket_len :: "int \<Rightarrow> int" where
  "MQTTPacket_len rem_len =
     (let rem_len = rem_len + 1 in
      if rem_len < 128 then rem_len + 1
      else if rem_len < 16384 then rem_len + 2
      else if rem_len < 2097151 then rem_len + 3
      else rem_len + 4)"

text \<open>\<open>bufchar\<close>: the static \<open>bufptr\<close> is the cursor; a count above one keeps only the last byte.\<close>

fun bufchar_loop :: "nat \<Rightarrow> byte list \<Rightarrow> cursor \<Rightarrow> (byte list \<times> cursor) option" where
  "bufchar_loop 0 c s = Some (c, s)"
| "bufchar_loop (Suc n) c (b, p) = (case rd b p of None \<Rightarrow> None | Some x \<Rightarrow> bufchar_loop n [x] (b, p + 1))"

definition bufchar :: "cursor getfn" where
  "bufchar count s = do { (c, s') \<leftarrow> bufchar_loop (nat count) [] s; Some (count, c, s') }"

definition MQTTPacket_decodeBuf :: "mem \<Rightarrow> nat \<Rightarrow> (int \<times> int) option" where
  "MQTTPacket_decodeBuf buf off =
     do { (rc, val, _) \<leftarrow> MQTTPacket_decode bufchar (buf, off); Some (rc, val) }"

section \<open>Primitive readers and writers\<close>

definition readInt :: "cursor \<Rightarrow> (int \<times> cursor) option" where
  "readInt = (\<lambda>(b, p). do { hi \<leftarrow> rd b p; lo \<leftarrow> rd b (p + 1); Some (256 * uint hi + uint lo, (b, p + 2)) })"

definition readChar :: "cursor \<Rightarrow> (byte \<times> cursor) option" where
  "readChar = (\<lambda>(b, p). do { c \<leftarrow> rd b p; Some (c, (b, p + 1)) })"

definition writeChar :: "cursor \<Rightarrow> byte \<Rightarrow> cursor option" where
  "writeChar = (\<lambda>(b, p) c. do { b' \<leftarrow> wr b p c; Some (b', p + 1) })"

definition writeInt :: "cursor \<Rightarrow> int \<Rightarrow> cursor option" where
  "writeInt cur anInt =
     do { cur \<leftarrow> writeChar cur (word_of_int (cdiv anInt 256)); writeChar cur (word_of_int (cmod anInt 256)) }"

definition writeCString :: "cursor \<Rightarrow> byte list \<Rightarrow> cursor option" where
  "writeCString cur string = do { cur \<leftarrow> writeInt cur (int (length string)); emit string cur }"

definition getLenStringLen :: "mem \<Rightarrow> nat \<Rightarrow> int option" where
  "getLenStringLen b p = do { hi \<leftarrow> rd b p; lo \<leftarrow> rd b (p + 1); Some (256 * uint hi + uint lo) }"

text \<open>
  \<open>MQTTString\<close>: \<open>lenstring_data\<close> is the part of its object that starts where the pointer points.
\<close>

record MQTTString =
  cstring :: "byte list option"
  lenstring_len :: int
  lenstring_data :: "byte list option"

definition MQTTString_initializer :: MQTTString where
  "MQTTString_initializer = \<lparr>cstring = None, lenstring_len = 0, lenstring_data = None\<rparr>"

definition writeMQTTString :: "cursor \<Rightarrow> MQTTString \<Rightarrow> cursor option" where
  "writeMQTTString cur s =
     (if lenstring_len s > 0 then
        do { cur \<leftarrow> writeInt cur (lenstring_len s);
             data \<leftarrow> lenstring_data s;
             bytes \<leftarrow> slice data 0 (nat (lenstring_len s));
             emit bytes cur }
      else case cstring s of
        Some str \<Rightarrow> writeCString cur str
      | None \<Rightarrow> writeInt cur 0)"

text \<open>
  \<open>readMQTTLenString\<close>: \<open>enddata\<close> is an offset, which may lie past the object.  The result is the
  return code, the string and the advanced cursor.
\<close>

definition readMQTTLenString :: "MQTTString \<Rightarrow> cursor \<Rightarrow> int \<Rightarrow> (int \<times> MQTTString \<times> cursor) option" where
  "readMQTTLenString s cur enddata =
     (if enddata - int (snd cur) > 1 then
        do { (n, cur) \<leftarrow> readInt cur;
             let s = s\<lparr>lenstring_len := n\<rparr>;
             if int (snd cur) + n \<le> enddata
             then Some (1, s\<lparr>lenstring_data := Some (drop (snd cur) (fst cur)), cstring := None\<rparr>,
                        (fst cur, snd cur + nat n))
             else Some (0, s\<lparr>cstring := None\<rparr>, cur) }
      else Some (0, s\<lparr>cstring := None\<rparr>, cur))"

definition MQTTstrlen :: "MQTTString \<Rightarrow> int" where
  "MQTTstrlen s = (case cstring s of Some str \<Rightarrow> int (length str) | None \<Rightarrow> lenstring_len s)"

definition MQTTPacket_equals :: "MQTTString \<Rightarrow> byte list \<Rightarrow> bool option" where
  "MQTTPacket_equals a bptr =
     do { (aptr, alen) \<leftarrow> (case cstring a of
            Some str \<Rightarrow> Some (str @ [0], int (length str))
          | None \<Rightarrow> map_option (\<lambda>d. (d, lenstring_len a)) (lenstring_data a));
          if alen = int (length bptr) then strncmp0 (nat alen) aptr (bptr @ [0]) else Some False }"

section \<open>Reading a packet\<close>

text \<open>
  \<open>MQTTPacket_read\<close>: the object, the return code and the source after the call.  The bytes the
  callback delivers are stored at the pointer it was given.
\<close>

definition store_at :: "mem \<Rightarrow> nat \<Rightarrow> byte list \<Rightarrow> mem option" where
  "store_at b off bs = map_option fst (emit bs (b, off))"

definition MQTTPacket_read :: "mem \<Rightarrow> int \<Rightarrow> 's getfn \<Rightarrow> 's \<Rightarrow> (int \<times> mem \<times> 's) option" where
  "MQTTPacket_read buf buflen getfn s =
     do { (rc, bs, s) \<leftarrow> getfn 1 s;
          buf \<leftarrow> store_at buf 0 bs;
          if rc \<noteq> 1 then Some (-1, buf, s)
          else do { (_, rem_len, s) \<leftarrow> MQTTPacket_decode getfn s;
                    (buf, n) \<leftarrow> MQTTPacket_encode buf 1 rem_len;
                    let len = 1 + int n;
                    if rem_len + len > buflen then Some (-1, buf, s)
                    else do { (rc, bs, s) \<leftarrow> getfn rem_len s;
                              buf \<leftarrow> store_at buf (nat len) bs;
                              if rc \<noteq> rem_len then Some (-1, buf, s)
                              else do { b \<leftarrow> rd buf 0; Some (bits_type (header_bits b), buf, s) } } } }"

text \<open>\<open>MQTTTransport\<close>: the callback and its \<open>sck\<close> are the two parameters \<open>getfn\<close> and \<open>s\<close>.\<close>

record MQTTTransport =
  trp_multiplier :: int
  trp_rem_len :: int
  trp_len :: int
  trp_state :: int

function MQTTPacket_decodenb_loop :: "'s getfn \<Rightarrow> 's \<Rightarrow> MQTTTransport \<Rightarrow> (int \<times> MQTTTransport \<times> 's) option" where
  "MQTTPacket_decodenb_loop getfn s trp =
     (let trp = trp\<lparr>trp_len := trp_len trp + 1\<rparr> in
      if trp_len trp > MAX_NO_OF_REMAINING_LENGTH_BYTES then Some (MQTTPACKET_READ_ERROR, trp, s)
      else case getfn 1 s of
        None \<Rightarrow> None
      | Some (frc, bs, s') \<Rightarrow>
          if frc = -1 then Some (MQTTPACKET_READ_ERROR, trp, s')
          else if frc = 0 then Some (0, trp, s')
          else case bs of
            [] \<Rightarrow> None
          | c # _ \<Rightarrow>
              let trp = trp\<lparr>trp_rem_len := trp_rem_len trp + uint (c AND 127) * trp_multiplier trp,
                            trp_multiplier := trp_multiplier trp * 128\<rparr>
              in if c AND 128 \<noteq> 0 then MQTTPacket_decodenb_loop getfn s' trp
                 else Some (trp_len trp, trp, s'))"
  by pat_completeness auto
termination
  by (relation "measure (\<lambda>(g, s, trp). nat (5 - trp_len trp))")
     (auto simp: MAX_NO_OF_REMAINING_LENGTH_BYTES_def)

definition MQTTPacket_decodenb :: "'s getfn \<Rightarrow> 's \<Rightarrow> MQTTTransport \<Rightarrow> (int \<times> MQTTTransport \<times> 's) option" where
  "MQTTPacket_decodenb getfn s trp =
     MQTTPacket_decodenb_loop getfn s (if trp_len trp = 0 then trp\<lparr>trp_multiplier := 1, trp_rem_len := 0\<rparr> else trp)"

text \<open>The three entry points of the \<open>switch\<close> of \<open>MQTTPacket_readnb\<close>, which fall through.\<close>

type_synonym 's readnb_result = "(int \<times> mem \<times> MQTTTransport \<times> 's) option"

definition readnb_case2 :: "mem \<Rightarrow> 's getfn \<Rightarrow> 's \<Rightarrow> MQTTTransport \<Rightarrow> 's readnb_result" where
  "readnb_case2 buf getfn s trp =
     do { (frc, bs, s) \<leftarrow> getfn (trp_rem_len trp) s;
          buf \<leftarrow> store_at buf (nat (trp_len trp)) bs;
          if frc = -1 then Some (-1, buf, trp\<lparr>trp_state := 0\<rparr>, s)
          else if frc = 0 then Some (0, buf, trp, s)
          else let trp = trp\<lparr>trp_rem_len := trp_rem_len trp - frc, trp_len := trp_len trp + frc\<rparr> in
               if trp_rem_len trp \<noteq> 0 then Some (0, buf, trp, s)
               else do { b \<leftarrow> rd buf 0; Some (bits_type (header_bits b), buf, trp\<lparr>trp_state := 0\<rparr>, s) } }"

definition readnb_case1 :: "mem \<Rightarrow> int \<Rightarrow> 's getfn \<Rightarrow> 's \<Rightarrow> MQTTTransport \<Rightarrow> 's readnb_result" where
  "readnb_case1 buf buflen getfn s trp =
     do { (frc, trp, s) \<leftarrow> MQTTPacket_decodenb getfn s trp;
          if frc = MQTTPACKET_READ_ERROR then Some (-1, buf, trp\<lparr>trp_state := 0\<rparr>, s)
          else if frc = 0 then Some (0, buf, trp, s)
          else do { (buf, n) \<leftarrow> MQTTPacket_encode buf 1 (trp_rem_len trp);
                    let trp = trp\<lparr>trp_len := 1 + int n\<rparr>;
                    if trp_rem_len trp + trp_len trp > buflen then Some (-1, buf, trp\<lparr>trp_state := 0\<rparr>, s)
                    else readnb_case2 buf getfn s (trp\<lparr>trp_state := trp_state trp + 1\<rparr>) } }"

definition readnb_case0 :: "mem \<Rightarrow> int \<Rightarrow> 's getfn \<Rightarrow> 's \<Rightarrow> MQTTTransport \<Rightarrow> 's readnb_result" where
  "readnb_case0 buf buflen getfn s trp =
     do { (frc, bs, s) \<leftarrow> getfn 1 s;
          buf \<leftarrow> store_at buf 0 bs;
          if frc = -1 then Some (-1, buf, trp\<lparr>trp_state := 0\<rparr>, s)
          else if frc = 0 then Some (0, buf, trp, s)
          else readnb_case1 buf buflen getfn s (trp\<lparr>trp_len := 0, trp_state := trp_state trp + 1\<rparr>) }"

definition MQTTPacket_readnb :: "mem \<Rightarrow> int \<Rightarrow> 's getfn \<Rightarrow> 's \<Rightarrow> MQTTTransport \<Rightarrow> 's readnb_result" where
  "MQTTPacket_readnb buf buflen getfn s trp =
     (if trp_state trp = 1 then readnb_case1 buf buflen getfn s trp
      else if trp_state trp = 2 then readnb_case2 buf getfn s trp
      else readnb_case0 buf buflen getfn s (trp\<lparr>trp_state := 0\<rparr>))"

declare MQTTPacket_encode_loop.simps [simp del] MQTTPacket_decode_loop.simps [simp del]
  MQTTPacket_decodenb_loop.simps [simp del]


section \<open>The length field as a list of bytes\<close>

text \<open>The MQTT definition of the field: base 128, least significant digit first, top bit for more.\<close>

fun rl_bytes :: "nat \<Rightarrow> byte list" where
  "rl_bytes n = (if n < 128 then [word_of_int (int n)] else word_of_int (128 + int n mod 128) # rl_bytes (n div 128))"

declare rl_bytes.simps [simp del]

lemma rl_bytes_small: "n < 128 \<Longrightarrow> rl_bytes n = [word_of_int (int n)]"
  by (subst rl_bytes.simps) simp

lemma rl_bytes_big: "128 \<le> n \<Longrightarrow> rl_bytes n = word_of_int (128 + int n mod 128) # rl_bytes (n div 128)"
  by (subst rl_bytes.simps) simp

lemma rl_bytes_nonempty [simp]: "rl_bytes n \<noteq> []"
  by (subst rl_bytes.simps) simp

lemma length_rl_bytes_le: "n < 128 ^ k \<Longrightarrow> 0 < k \<Longrightarrow> length (rl_bytes n) \<le> k"
proof (induction k arbitrary: n)
  case (Suc k)
  show ?case
  proof (cases "n < 128")
    case False
    then have "0 < k" using Suc.prems by (cases k) auto
    moreover have "n div 128 < 128 ^ k" using Suc.prems by (simp add: div_less_iff_less_mult mult.commute)
    ultimately show ?thesis using False Suc.IH by (simp add: rl_bytes_big)
  qed (simp add: rl_bytes_small)
qed simp

lemma or_128: "uint (b :: byte) < 128 \<Longrightarrow> b OR 128 = word_of_int (128 + uint b)"
proof -
  assume "uint b < 128"
  then have 0: "b AND 128 = 0" by (simp add: and_128_iff)
  have "b OR 128 = b + 128"
    using disjunctive_add_eq_or [OF 0] by simp
  then show ?thesis by simp
qed

lemma encode_loop_emit:
  "MQTTPacket_encode_loop buf off (int n) rc =
     map_option (\<lambda>(b, p). (b, p - off)) (emit (rl_bytes n) (buf, off + rc))"
proof (induction n arbitrary: buf rc rule: rl_bytes.induct)
  case (1 n)
  show ?case
  proof (cases "n < 128")
    case True
    then have "cdiv (int n) 128 = 0" "cmod (int n) 128 = int n" by simp_all
    then show ?thesis
      by (subst MQTTPacket_encode_loop.simps)
         (simp add: True rl_bytes_small wr_emit emit_eq put_singleton)
  next
    case False
    then have pos: "0 < cdiv (int n) 128" and eq: "cdiv (int n) 128 = int (n div 128)" by (auto simp: zdiv_int)
    have d: "(word_of_int (cmod (int n) 128) :: byte) OR 128 = word_of_int (128 + int n mod 128)"
      by (subst or_128) (simp_all add: uint_word_of_int_byte)
    have "MQTTPacket_encode_loop buf off (int n) rc =
        emit [word_of_int (128 + int n mod 128)] (buf, off + rc) \<bind>
          (\<lambda>(b, p). MQTTPacket_encode_loop b off (int (n div 128)) (p - off))"
      using pos d by (subst MQTTPacket_encode_loop.simps)
         (simp add: wr_emit emit_eq Let_def eq [symmetric] del: cdiv_nonneg)
    also have "\<dots> = emit [word_of_int (128 + int n mod 128)] (buf, off + rc) \<bind>
          (\<lambda>c. map_option (\<lambda>(b, p). (b, p - off)) (emit (rl_bytes (n div 128)) c))"
      using 1 [OF False] by (auto simp: emit_eq)
    also have "\<dots> = map_option (\<lambda>(b, p). (b, p - off)) (emit (rl_bytes n) (buf, off + rc))"
      using False by (simp only: emit_append_map rl_bytes_big not_less append_Cons append_Nil)
    finally show ?thesis .
  qed
qed

lemma encode_emit:
  "MQTTPacket_encode buf off (int n) =
     map_option (\<lambda>(b, p). (b, length (rl_bytes n))) (emit (rl_bytes n) (buf, off))"
  by (simp add: MQTTPacket_encode_def encode_loop_emit emit_eq)


lemma encodeAt_emit [cursor_simps]: "encodeAt c (int n) = emit (rl_bytes n) c"
  by (cases c) (simp add: encodeAt_def encode_emit emit_eq)

lemma MQTTPacket_len_enough:
  "n < 268435456 \<Longrightarrow> 1 + int (length (rl_bytes n)) + int n \<le> MQTTPacket_len (int n)"
proof -
  assume n: "n < 268435456"
  have "length (rl_bytes n) \<le> 1" if "n < 128" using length_rl_bytes_le [of n 1] that by simp
  moreover have "length (rl_bytes n) \<le> 2" if "n < 16384" using length_rl_bytes_le [of n 2] that by simp
  moreover have "length (rl_bytes n) \<le> 3" if "n < 2097152" using length_rl_bytes_le [of n 3] that by simp
  moreover have "length (rl_bytes n) \<le> 4" using length_rl_bytes_le [of n 4] n by simp
  ultimately show ?thesis by (auto simp: MQTTPacket_len_def Let_def)
qed

lemma MQTTPacket_len_gt: "0 \<le> n \<Longrightarrow> n + 2 \<le> MQTTPacket_len n"
  by (auto simp: MQTTPacket_len_def Let_def)

section \<open>Writers as appends\<close>

definition int_bytes :: "int \<Rightarrow> byte list" where
  "int_bytes n = [word_of_int (cdiv n 256), word_of_int (cmod n 256)]"

definition mqttstring_bytes :: "MQTTString \<Rightarrow> byte list" where
  "mqttstring_bytes s =
     (if lenstring_len s > 0 then int_bytes (lenstring_len s) @ take (nat (lenstring_len s)) (the (lenstring_data s))
      else case cstring s of Some str \<Rightarrow> int_bytes (int (length str)) @ str | None \<Rightarrow> int_bytes 0)"

text \<open>
  A string is well formed when it carries exactly one of its two views, the length-delimited one
  inside its object, and when \<open>MQTTstrlen\<close> fits the two-byte length prefix.
\<close>

definition wf_string :: "MQTTString \<Rightarrow> bool" where
  "wf_string s \<longleftrightarrow> 0 \<le> lenstring_len s \<and> MQTTstrlen s < 65536 \<and>
     (cstring s \<noteq> None \<longrightarrow> lenstring_len s = 0) \<and>
     (0 < lenstring_len s \<longrightarrow> (\<exists>d. lenstring_data s = Some d \<and> nat (lenstring_len s) \<le> length d))"

definition string_content :: "MQTTString \<Rightarrow> byte list" where
  "string_content s = (case cstring s of Some str \<Rightarrow> str
     | None \<Rightarrow> take (nat (lenstring_len s)) (case lenstring_data s of None \<Rightarrow> [] | Some d \<Rightarrow> d))"

lemma length_int_bytes [simp]: "length (int_bytes n) = 2"
  by (simp add: int_bytes_def)

lemma writeChar_emit [cursor_simps]: "writeChar c x = emit [x] c"
  by (cases c) (simp add: writeChar_def wr_def emit_eq put_singleton)

lemma writeInt_emit [cursor_simps]: "writeInt c n = emit (int_bytes n) c"
  by (simp add: writeInt_def writeChar_emit emit_append int_bytes_def)

lemma writeCString_emit [cursor_simps]: "writeCString c s = emit (int_bytes (int (length s)) @ s) c"
  by (simp add: writeCString_def cursor_simps)

lemma writeMQTTString_emit [cursor_simps]:
  "wf_string s \<Longrightarrow> writeMQTTString c s = emit (mqttstring_bytes s) c"
  by (auto simp: writeMQTTString_def mqttstring_bytes_def wf_string_def cursor_simps slice_def
      split: option.splits)

lemma wf_string_length: "wf_string s \<Longrightarrow> int (length (string_content s)) = MQTTstrlen s"
  by (auto simp: wf_string_def string_content_def MQTTstrlen_def split: option.splits)

lemma mqttstring_bytes_content:
  "wf_string s \<Longrightarrow> mqttstring_bytes s = int_bytes (MQTTstrlen s) @ string_content s"
  by (auto simp: wf_string_def string_content_def MQTTstrlen_def mqttstring_bytes_def split: option.splits)

lemma length_mqttstring_bytes:
  "wf_string s \<Longrightarrow> int (length (mqttstring_bytes s)) = 2 + MQTTstrlen s"
  by (simp add: mqttstring_bytes_content flip: wf_string_length)

lemma MQTTstrlen_nonneg: "wf_string s \<Longrightarrow> 0 \<le> MQTTstrlen s"
  by (metis wf_string_length of_nat_0_le_iff)

lemma wf_cstring [simp]: "length t < 65536 \<Longrightarrow> wf_string (MQTTString_initializer\<lparr>cstring := Some t\<rparr>)"
  by (simp add: wf_string_def MQTTString_initializer_def MQTTstrlen_def)

lemma content_cstring [simp]: "string_content (MQTTString_initializer\<lparr>cstring := Some t\<rparr>) = t"
  by (simp add: string_content_def)

section \<open>Whole packets\<close>

definition packet :: "byte \<Rightarrow> byte list \<Rightarrow> byte list" where
  "packet h body = h # rl_bytes (length body) @ body"

text \<open>What a serializer returns once its cursor has reached the end of the packet.\<close>

definition written :: "cursor option \<Rightarrow> (int \<times> mem) option" where
  "written c = do { c \<leftarrow> c; Some (int (snd c), fst c) }"

lemma length_packet: "length (packet h body) = 1 + length (rl_bytes (length body)) + length body"
  by (simp add: packet_def)

lemma packet_fits:
  "length body < 268435456 \<Longrightarrow> MQTTPacket_len (int (length body)) \<le> buflen \<Longrightarrow> int (length (packet h body)) \<le> buflen"
  using MQTTPacket_len_enough [of "length body"] by (simp add: length_packet)

lemma written_emit:
  "length xs \<le> length buf \<Longrightarrow> written (emit xs (buf, 0)) = Some (int (length xs), put 0 xs buf)"
  by (simp add: written_def emit_eq)

text \<open>Every serializer has this frame: the header, the length field, then the body.\<close>

lemma serialize_frame:
  assumes "\<And>cur. tail cur = written (emit body cur)"
  shows "do { cur \<leftarrow> writeChar (buf, 0) h; cur \<leftarrow> encodeAt cur (int (length body)); tail cur } =
     written (emit (packet h body) (buf, 0))"
  by (simp add: assms cursor_simps written_def packet_def)

lemma packet_nth_0 [simp]: "packet h body @ rest = h # rl_bytes (length body) @ body @ rest"
  by (simp add: packet_def)

section \<open>Readers\<close>

lemma header_bits_byte [simp]:
  "header_bits (header_byte h) = \<lparr>bits_retain = bits_retain h mod 2, bits_qos = bits_qos h mod 4,
     bits_dup = bits_dup h mod 2, bits_type = bits_type h mod 16\<rparr>"
proof -
  define r q d t where "r = bits_retain h mod 2" "q = bits_qos h mod 4" "d = bits_dup h mod 2" "t = bits_type h mod 16"
  have b: "0 \<le> r" "r < 2" "0 \<le> q" "q < 4" "0 \<le> d" "d < 2" "0 \<le> t" "t < 16"
    by (simp_all add: r_q_d_t_def)
  have "uint (header_byte h) = r + 2 * q + 8 * d + 16 * t"
    using b by (simp only: header_byte_def uint_word_of_int_byte mod_pos_pos_trivial flip: r_q_d_t_def)
  moreover have "(r + 2 * q + 8 * d + 16 * t) mod 2 = r" "(r + 2 * q + 8 * d + 16 * t) div 2 = q + 4 * (d + 2 * t)"
    using digit_div_mod [of r 2 "q + 4 * (d + 2 * t)"] b by (simp_all add: algebra_simps)
  moreover have "(r + 2 * q + 8 * d + 16 * t) div 8 = d + 2 * t" "(r + 2 * q + 8 * d + 16 * t) div 16 = t"
    using digit_div_mod [of "r + 2 * q" 8 "d + 2 * t"] digit_div_mod [of "r + 2 * q + 8 * d" 16 t] b
    by (simp_all add: algebra_simps)
  moreover have "(q + (4 * d + 8 * t)) mod 4 = q"
    using digit_div_mod [of q 4 "d + 2 * t"] b by (simp add: algebra_simps)
  ultimately show ?thesis
    using b by (simp add: header_bits_def flip: r_q_d_t_def)
qed

lemma bits_type_bounds [simp]: "0 \<le> bits_type (header_bits b)" "bits_type (header_bits b) < 16"
  using uint_byte_bounds [of b] by (simp_all add: header_bits_def pos_imp_zdiv_nonneg_iff del: uint_byte_bounds)

lemma readChar_Some [simp]: "p < length b \<Longrightarrow> readChar (b, p) = Some (b ! p, (b, p + 1))"
  by (simp add: readChar_def)

lemma readInt_Some [simp]:
  "p + 1 < length b \<Longrightarrow> readInt (b, p) = Some (256 * uint (b ! p) + uint (b ! (p + 1)), (b, p + 2))"
  by (simp add: readInt_def)

lemma readInt_at:
  "drop p b = int_bytes n @ rest \<Longrightarrow> 0 \<le> n \<Longrightarrow> n < 65536 \<Longrightarrow> readInt (b, p) = Some (n, (b, p + 2))"
proof -
  assume d: "drop p b = int_bytes n @ rest" and n: "0 \<le> n" "n < 65536"
  have len: "p + 1 < length b" and "b ! (p + 0) = int_bytes n ! 0" "b ! (p + 1) = int_bytes n ! 1"
    using drop_prefix_nth [OF d, of 0] drop_prefix_nth [OF d, of 1] by simp_all
  with n show ?thesis
    by (simp add: int_bytes_def uint_word_of_int_byte)
qed


lemma readMQTTLenString_at:
  assumes "drop p b = int_bytes (int (length xs)) @ xs @ rest" and "length xs < 65536"
    and "int p + 2 + int (length xs) \<le> enddata"
  shows "readMQTTLenString s (b, p) enddata =
     Some (1, s\<lparr>lenstring_len := int (length xs), lenstring_data := Some (xs @ rest), cstring := None\<rparr>,
           (b, p + 2 + length xs))"
proof -
  have "readInt (b, p) = Some (int (length xs), (b, p + 2))"
    by (rule readInt_at [OF assms(1)]) (use assms(2) in auto)
  moreover have "drop (p + 2) b = xs @ rest"
    using drop_prefix_drop [OF assms(1)] by simp
  ultimately show ?thesis
    using assms(3) by (simp add: readMQTTLenString_def)
qed

lemma decode_loop_preserves:
  assumes "\<And>n s rc bs s'. getfn n s = Some (rc, bs, s') \<Longrightarrow> f s' = f s"
  shows "MQTTPacket_decode_loop getfn s len m v = Some (n, r, s') \<Longrightarrow> f s' = f s"
  using assms
proof (induction getfn s len m v rule: MQTTPacket_decode_loop.induct)
  case (1 getfn s len m v)
  show ?case
  proof (cases "len + 1 > MAX_NO_OF_REMAINING_LENGTH_BYTES \<or> getfn 1 s = None")
    case True
    with "1.prems" show ?thesis by (auto simp: MQTTPacket_decode_loop.simps [of getfn s] Let_def split: if_splits)
  next
    case False
    then obtain rc bs s1 where g: "\<not> len + 1 > MAX_NO_OF_REMAINING_LENGTH_BYTES" "getfn 1 s = Some (rc, bs, s1)"
      by auto
    with "1.prems"(2) have s1: "f s1 = f s" by blast
    show ?thesis
      using "1.prems" g s1 "1.IH" [OF refl g refl refl]
      by (auto simp: MQTTPacket_decode_loop.simps [of getfn s] Let_def split: if_splits list.splits)
  qed
qed

section \<open>Sources of bytes\<close>

text \<open>
  What \<open>MQTTPacket_decode\<close> relies on: asked for one byte, the callback delivers the next byte of
  what the source still holds.  \<open>up\<close> says that the source is in working order, and stays so.
\<close>

locale byte_source =
  fixes getfn :: "'s getfn" and view :: "'s \<Rightarrow> byte list" and up :: "'s \<Rightarrow> bool"
  assumes get_one: "up s \<Longrightarrow> view s = x # xs \<Longrightarrow> \<exists>s'. getfn 1 s = Some (1, [x], s') \<and> up s' \<and> view s' = xs"
begin

lemma decode_loop_rl:
  assumes "view s = rl_bytes n @ rest" and "0 \<le> k" and "n < 128 ^ nat (4 - k)" and "k < 4" and "up s"
  shows "\<exists>s'. MQTTPacket_decode_loop getfn s k m v =
           Some (k + int (length (rl_bytes n)), v + int n * m, s') \<and> up s' \<and> view s' = rest"
  using assms
proof (induction n arbitrary: s k m v rule: rl_bytes.induct)
  case (1 n)
  show ?case
  proof (cases "n < 128")
    case True
    with "1.prems" obtain s' where s': "getfn 1 s = Some (1, [word_of_int (int n)], s')" "view s' = rest" "up s'"
      using get_one [of s "word_of_int (int n)" rest] by (auto simp: rl_bytes_small)
    with True "1.prems" show ?thesis
      by (subst MQTTPacket_decode_loop.simps)
         (simp add: Let_def MAX_NO_OF_REMAINING_LENGTH_BYTES_def rl_bytes_small byte_arith
               del: of_int_of_nat_eq)
  next
    case False
    define x :: byte where "x = word_of_int (128 + int n mod 128)"
    have x: "uint (x AND 127) = int n mod 128" "x AND 128 \<noteq> 0"
      by (simp_all only: x_def byte_arith) (simp_all add: mod_pos_pos_trivial)
    obtain s' where s': "getfn 1 s = Some (1, [x], s')" "view s' = rl_bytes (n div 128) @ rest" "up s'"
      using False "1.prems" get_one [of s x "rl_bytes (n div 128) @ rest"] by (auto simp: rl_bytes_big x_def)
    have k: "k + 1 < 4"
      using False "1.prems" by (cases "k = 3") auto
    have e: "nat (4 - k) = Suc (nat (4 - (k + 1)))" using "1.prems" by simp
    have "n div 128 < 128 ^ nat (4 - (k + 1))"
      using "1.prems"(3) unfolding e by (simp add: div_less_iff_less_mult mult.commute)
    then obtain s'' where s'': "MQTTPacket_decode_loop getfn s' (k + 1) (m * 128) (v + uint (x AND 127) * m) =
        Some (k + 1 + int (length (rl_bytes (n div 128))),
              v + uint (x AND 127) * m + int (n div 128) * (m * 128), s'')" "view s'' = rest" "up s''"
      using "1.IH" [OF False s'(2), of "k + 1"] "1.prems" k s'(3) by fastforce
    have "m * (int n mod 128) + m * (128 * (int n div 128)) = m * int n"
      by (simp flip: distrib_left)
    then have "v + uint (x AND 127) * m + int (n div 128) * (m * 128) = v + int n * m"
      by (simp add: x(1) zdiv_int mult.commute mult.left_commute)
    with s' s'' x(2) k False show ?thesis
      by (subst MQTTPacket_decode_loop.simps)
         (simp add: Let_def MAX_NO_OF_REMAINING_LENGTH_BYTES_def rl_bytes_big)
  qed
qed

lemma decode_rl:
  assumes "view s = rl_bytes n @ rest" and "n < 268435456" and "up s"
  shows "\<exists>s'. MQTTPacket_decode getfn s = Some (int (length (rl_bytes n)), int n, s') \<and> up s' \<and> view s' = rest"
  using decode_loop_rl [OF assms(1), of 0 1 0] assms(2,3) by (simp add: MQTTPacket_decode_def)

end

interpretation bufc: byte_source bufchar "\<lambda>(b, p). drop p b" "\<lambda>_. True"
proof (unfold_locales, goal_cases)
  case (1 s x xs)
  obtain b p where s: "s = (b, p)" by (cases s)
  with 1 have d: "drop p b = x # xs" by simp
  with drop_prefix_nth [of p b "[x]" xs 0] have "rd b p = Some x" by simp
  moreover have "drop (Suc p) b = xs" using d by (metis drop_Suc list.sel(3) tl_drop)
  ultimately show ?case by (simp add: s bufchar_def numeral_eq_Suc)
qed

lemma decodeBuf_rl:
  assumes "drop p b = rl_bytes n @ rest" and "n < 268435456"
  shows "MQTTPacket_decodeBuf b p = Some (int (length (rl_bytes n)), int n)"
  using bufc.decode_rl [of "(b, p)" n rest] assms by (auto simp: MQTTPacket_decodeBuf_def)

text \<open>What \<open>MQTTPacket_read\<close> relies on: the callback delivers as many bytes as it is asked for.\<close>

locale packet_source = byte_source +
  assumes get_many: "up s \<Longrightarrow> 0 \<le> n \<Longrightarrow> nat n \<le> length (view s) \<Longrightarrow>
    \<exists>s'. getfn n s = Some (n, take (nat n) (view s), s') \<and> up s' \<and> view s' = drop (nat n) (view s)"
begin

lemma read_packet:
  assumes "view s = h # rl_bytes (length body) @ body @ rest" and "length body < 268435456"
    and "1 + length (rl_bytes (length body)) + length body \<le> nat buflen" and "nat buflen \<le> length buf" and "up s"
  shows "\<exists>s'. MQTTPacket_read buf buflen getfn s =
      Some (bits_type (header_bits h), put 0 (h # rl_bytes (length body) @ body) buf, s') \<and> up s' \<and> view s' = rest"
proof -
  define rl where "rl = rl_bytes (length body)"
  obtain s1 where s1: "getfn 1 s = Some (1, [h], s1)" "view s1 = rl @ body @ rest" "up s1"
    using get_one assms(1,5) rl_def by blast
  obtain s2 where s2: "MQTTPacket_decode getfn s1 = Some (int (length rl), int (length body), s2)" "view s2 = body @ rest" "up s2"
    using decode_rl [of s1 "length body"] s1(2,3) assms(2) rl_def by blast
  obtain s3 where s3: "getfn (int (length body)) s2 = Some (int (length body), body, s3)" "view s3 = rest" "up s3"
    using get_many [of s2 "int (length body)"] s2(2,3) by auto
  have fits: "1 + length rl + length body \<le> length buf" using assms(3,4) rl_def by simp
  then have "store_at buf 0 [h] = Some (put 0 [h] buf)" by (simp add: store_at_def emit_eq)
  moreover have "MQTTPacket_encode (put 0 [h] buf) 1 (int (length body)) = Some (put 0 (h # rl) buf, length rl)"
    using fits put_append [of 0 "[h]" rl buf] by (simp add: encode_emit emit_eq flip: rl_def)
  moreover have "store_at (put 0 (h # rl) buf) (nat (1 + int (length rl))) body = Some (put 0 (h # rl @ body) buf)"
    using fits put_append [of 0 "h # rl" body buf] by (simp add: store_at_def emit_eq nat_add_distrib)
  moreover have "rd (put 0 (h # rl @ body) buf) 0 = Some h"
    by (simp add: rd_def put_0)
  ultimately show ?thesis
    using s1 s2 s3 assms(3) by (simp add: MQTTPacket_read_def Let_def flip: rl_def) linarith
qed

end


section \<open>Comparing strings\<close>

lemma strncmp0_eq:
  "length x = n \<Longrightarrow> 0 \<notin> set y \<Longrightarrow> length y = n \<Longrightarrow> strncmp0 n (x @ x') (y @ y') = Some (x = y)"
proof (induction n arbitrary: x y)
  case (Suc n)
  then obtain a as b bs where "x = a # as" "y = b # bs" by (auto simp: length_Suc_conv)
  with Suc show ?case by auto
qed simp

section \<open>Properties\<close>

text \<open>C29: the remaining-length field round-trips.  For every length MQTT allows, \<open>MQTTPacket_encode\<close> writes one
  to four bytes, all inside the object and nothing else, and \<open>MQTTPacket_decodeBuf\<close> reads the same length
  and the same number of bytes back.\<close>

theorem remaining_length_roundtrip:
  assumes "0 \<le> n" and "n < 268435456" and "off + 4 \<le> length buf"
  shows "\<exists>buf' k. MQTTPacket_encode buf off n = Some (buf', k) \<and> 1 \<le> k \<and> k \<le> 4 \<and> length buf' = length buf \<and>
     take off buf' = take off buf \<and> drop (off + k) buf' = drop (off + k) buf \<and>
     MQTTPacket_decodeBuf buf' off = Some (int k, n)"
proof -
  define m where "m = nat n"
  have n: "n = int m" "m < 268435456" using assms by (auto simp: m_def)
  let ?rl = "rl_bytes m" and ?buf = "put off (rl_bytes m) buf"
  have l: "length ?rl \<le> 4" using length_rl_bytes_le [of m 4] n(2) by simp
  have fit: "off + length ?rl \<le> length buf" using l assms(3) by simp
  have "drop off ?buf = ?rl @ drop (off + length ?rl) buf"
    using fit by (simp add: put_def)
  then have "MQTTPacket_decodeBuf ?buf off = Some (int (length ?rl), n)"
    unfolding n by (rule decodeBuf_rl) (fact n(2))
  moreover have "MQTTPacket_encode buf off n = Some (?buf, length ?rl)"
    using fit by (simp add: n encode_emit emit_eq)
  moreover have "1 \<le> length ?rl" by (simp add: Suc_le_eq)
  ultimately show ?thesis using l fit by (intro exI [of _ ?buf] exI [of _ "length ?rl"]) simp
qed

theorem remaining_length_roundtrip_witness:
  "\<exists>buf' k. MQTTPacket_encode (replicate 8 0) 1 321 = Some (buf', k) \<and> 1 \<le> k \<and> k \<le> 4 \<and>
     MQTTPacket_decodeBuf buf' 1 = Some (int k, 321)"
  using remaining_length_roundtrip [of 321 1 "replicate 8 0"] by auto

text \<open>The space check is sufficient.  \<open>MQTTPacket_len\<close>, which every serializer compares with the size of the
  caller's buffer, is never below the size of the packet: header byte, length field and body.  It exceeds
  it by at most one byte.\<close>

lemma MQTTPacket_len_sufficient:
  assumes "length body < 268435456"
  shows "int (length (packet h body)) \<le> MQTTPacket_len (int (length body)) \<and>
     MQTTPacket_len (int (length body)) \<le> int (length (packet h body)) + 1"
proof -
  let ?n = "length body"
  have "2 \<le> length (rl_bytes ?n)" if "128 \<le> ?n"
    using that by (simp add: rl_bytes_big Suc_le_eq)
  moreover have "3 \<le> length (rl_bytes ?n)" if "16384 \<le> ?n"
  proof -
    have "128 \<le> ?n div 128" using that by linarith
    with that show ?thesis by (simp add: rl_bytes_big Suc_le_eq)
  qed
  moreover have "4 \<le> length (rl_bytes ?n)" if "2097152 \<le> ?n"
  proof -
    have "128 \<le> ?n div 128" "128 \<le> ?n div 128 div 128" using that by linarith+
    with that show ?thesis by (simp add: rl_bytes_big Suc_le_eq)
  qed
  moreover have "1 \<le> length (rl_bytes ?n)" by (simp add: Suc_le_eq)
  ultimately have "MQTTPacket_len (int ?n) \<le> int (1 + length (rl_bytes ?n) + ?n) + 1"
    using assms by (auto simp: MQTTPacket_len_def Let_def)
  then show ?thesis
    using MQTTPacket_len_enough [OF assms] by (simp add: length_packet)
qed

lemma MQTTPacket_len_sufficient_witness:
  "int (length (packet 0x30 (replicate 127 0))) \<le> MQTTPacket_len 127 \<and>
     MQTTPacket_len 127 \<le> int (length (packet 0x30 (replicate 127 0))) + 1"
  using MQTTPacket_len_sufficient [of "replicate 127 0" "0x30"] by simp

text \<open>\<open>MQTTPacket_equals\<close> decides equality of the string's content (of either representation) with a C
  string, and is memory safe.\<close>

lemma MQTTPacket_equals_correct:
  assumes "wf_string a" and present_a: "cstring a \<noteq> None \<or> lenstring_data a \<noteq> None"
    and "0 \<notin> set b" and "length b < 65536"
  shows "MQTTPacket_equals a b = Some (string_content a = b)"
proof (cases "cstring a")
  case (Some str)
  then show ?thesis
    using assms(3) strncmp0_eq [of str "length str" b "[0]" "[0]"]
    by (auto simp: MQTTPacket_equals_def string_content_def)
next
  case None
  with present_a obtain d where d: "lenstring_data a = Some d" by auto
  let ?n = "nat (lenstring_len a)"
  have n: "?n \<le> length d" "0 \<le> lenstring_len a"
    using assms(1) None d by (auto simp: wf_string_def MQTTstrlen_def)
  show ?thesis
  proof (cases "lenstring_len a = int (length b)")
    case True
    then have "strncmp0 ?n (take ?n d @ drop ?n d) (b @ [0]) = Some (take ?n d = b)"
      using n assms(3) by (intro strncmp0_eq) auto
    with True None d show ?thesis by (simp add: MQTTPacket_equals_def string_content_def)
  next
    case False
    with n None d show ?thesis
      by (auto simp: MQTTPacket_equals_def string_content_def)
  qed
qed

lemma MQTTPacket_equals_correct_witness:
  "MQTTPacket_equals \<lparr>cstring = None, lenstring_len = 2, lenstring_data = Some [104, 105, 7]\<rparr> [104, 105] = Some True"
  using MQTTPacket_equals_correct [of "\<lparr>cstring = None, lenstring_len = 2, lenstring_data = Some [104, 105, 7]\<rparr>" "[104, 105]"]
  by (simp add: wf_string_def MQTTstrlen_def string_content_def)

text \<open>\<open>MQTTPacket_readnb\<close> promises 0 for "call again", but each such call in the length field consumes one of
  the four length bytes it allows: when the transport has nothing to deliver, the counter goes up, and the
  fifth call fails although no byte was read.\<close>

lemma MQTTPacket_readnb_call_again_limited:
  assumes "trp_state trp = 1" and "0 < trp_len trp" and "getfn 1 s = Some (0, [], s)"
  shows "MQTTPacket_readnb buf buflen getfn s trp =
     (if trp_len trp < 4 then Some (0, buf, trp\<lparr>trp_len := trp_len trp + 1\<rparr>, s)
      else Some (-1, buf, trp\<lparr>trp_len := trp_len trp + 1, trp_state := 0\<rparr>, s))"
  using assms
  by (simp add: MQTTPacket_readnb_def readnb_case1_def MQTTPacket_decodenb_def
      MQTTPacket_decodenb_loop.simps [of getfn s trp] MAX_NO_OF_REMAINING_LENGTH_BYTES_def Let_def)

lemma MQTTPacket_readnb_call_again_witness:
  "MQTTPacket_readnb [0x30, 0] 2 (\<lambda>n s. Some (0, [], s)) () \<lparr>trp_multiplier = 1, trp_rem_len = 0, trp_len = 4, trp_state = 1\<rparr>
     = Some (-1, [0x30, 0], \<lparr>trp_multiplier = 1, trp_rem_len = 0, trp_len = 5, trp_state = 0\<rparr>, ())"
  using MQTTPacket_readnb_call_again_limited
    [of "\<lparr>trp_multiplier = 1, trp_rem_len = 0, trp_len = 4, trp_state = 1\<rparr>" "\<lambda>n s. Some (0, [], s)" "()" "[0x30, 0]" 2]
  by simp

end
