(* ===== verification/Network.thy ===== *)
theory Network
  imports Timer MQTTPacket
begin

text \<open>
  \<^verbatim>\<open>main/src/Platform/esp32/Network.c\<close>: the socket layer under the MQTT client.  The operating system (LwIP
  and newlib) is the parameter \<open>os\<close> over a world of type \<open>'w\<close>; \<open>errno\<close> is read from the world.  The read
  loop is a \<^theory_text>\<open>partial_function\<close>: \<open>None\<close> is a loop that never ends or a store outside the buffer.
\<close>

section \<open>The operating system and the socket\<close>

abbreviation EPIPE :: int where "EPIPE \<equiv> 32"
abbreviation ECONNRESET :: int where "ECONNRESET \<equiv> 104"
abbreviation ENOTCONN :: int where "ENOTCONN \<equiv> 128"
abbreviation AF_INET :: int where "AF_INET \<equiv> 2"
abbreviation SO_SNDTIMEO :: int where "SO_SNDTIMEO \<equiv> 0x1005"
abbreviation SO_RCVTIMEO :: int where "SO_RCVTIMEO \<equiv> 0x1006"

record addrinfo =
  ai_family :: int
  sin_addr :: int

record sockaddr_in =
  sa_family :: int
  sa_port :: int
  sa_addr :: int

text \<open>
  \<open>os_recv\<close> returns the result of the call and the bytes it stored; the list of \<open>os_getaddrinfo\<close> is the
  chain of \<open>ai_next\<close> pointers.
\<close>

record 'w os =
  os_gettimeofday :: "'w \<Rightarrow> timeval \<times> 'w"
  os_errno :: "'w \<Rightarrow> int"
  os_setsockopt :: "int \<Rightarrow> int \<Rightarrow> timeval \<Rightarrow> 'w \<Rightarrow> 'w"
  os_recv :: "int \<Rightarrow> int \<Rightarrow> 'w \<Rightarrow> int \<times> byte list \<times> 'w"
  os_write :: "int \<Rightarrow> byte list \<Rightarrow> 'w \<Rightarrow> int \<times> 'w"
  os_getaddrinfo :: "byte list \<Rightarrow> 'w \<Rightarrow> int \<times> addrinfo list \<times> 'w"
  os_freeaddrinfo :: "addrinfo list \<Rightarrow> 'w \<Rightarrow> 'w"
  os_socket :: "int \<Rightarrow> 'w \<Rightarrow> int \<times> 'w"
  os_connect :: "int \<Rightarrow> sockaddr_in \<Rightarrow> 'w \<Rightarrow> int \<times> 'w"
  os_close :: "int \<Rightarrow> 'w \<Rightarrow> 'w"

record Network =
  my_socket :: int
  connected :: bool

section \<open>Reading and writing\<close>

definition rw_interval :: "int \<Rightarrow> timeval" where
  "rw_interval timeout_ms =
     (let interval = \<lparr>tv_sec = cdiv timeout_ms 1000, tv_usec = cmod timeout_ms 1000 * 1000\<rparr>
      in if tv_sec interval < 0 \<or> (tv_sec interval = 0 \<and> tv_usec interval \<le> 0)
         then \<lparr>tv_sec = 0, tv_usec = 100\<rparr> else interval)"

partial_function (option) esp32_read_loop ::
    "'w os \<Rightarrow> Network \<Rightarrow> mem \<Rightarrow> nat \<Rightarrow> int \<Rightarrow> int \<Rightarrow> 'w \<Rightarrow> (int \<times> mem \<times> Network \<times> 'w) option" where
  "esp32_read_loop os network buffer off len bytes w =
     (if bytes < len \<and> connected network then
        (case os_recv os (my_socket network) (len - bytes) w of (rc, bs, w) \<Rightarrow>
          do { buffer \<leftarrow> store_at buffer (off + nat bytes) bs;
               let errno = os_errno os w;
               if rc = -1 then
                 (if errno \<noteq> ENOTCONN \<and> errno \<noteq> ECONNRESET then Some (-1, buffer, network, w)
                  else esp32_read_loop os network buffer off len bytes w)
               else if (rc = 0 \<and> len \<noteq> 0) \<or> errno = ENOTCONN \<or> errno = ECONNRESET \<or> errno = EPIPE
               then esp32_read_loop os (network\<lparr>connected := False\<rparr>) buffer off len bytes w
               else esp32_read_loop os network buffer off len (bytes + rc) w })
      else Some (bytes, buffer, network, w))"

definition esp32_read :: "'w os \<Rightarrow> Network \<Rightarrow> mem \<Rightarrow> nat \<Rightarrow> int \<Rightarrow> int \<Rightarrow> 'w \<Rightarrow> (int \<times> mem \<times> Network \<times> 'w) option" where
  "esp32_read os network buffer off len timeout_ms w =
     (let w = os_setsockopt os (my_socket network) SO_RCVTIMEO (rw_interval timeout_ms) w
      in esp32_read_loop os network buffer off len 0 w)"

definition esp32_write :: "'w os \<Rightarrow> Network \<Rightarrow> mem \<Rightarrow> nat \<Rightarrow> int \<Rightarrow> int \<Rightarrow> 'w \<Rightarrow> (int \<times> Network \<times> 'w) option" where
  "esp32_write os network buffer off len timeout_ms w =
     (let w = os_setsockopt os (my_socket network) SO_SNDTIMEO (rw_interval timeout_ms) w in
      do { bs \<leftarrow> slice buffer off (nat len);
           let (rc, w) = os_write os (my_socket network) bs w;
           let errno = os_errno os w;
           if rc = -1 \<and> (errno = ENOTCONN \<or> errno = ECONNRESET \<or> errno = EPIPE)
           then Some (rc, network\<lparr>connected := False\<rparr>, w)
           else Some (rc, network, w) })"

section \<open>Opening and closing\<close>

text \<open>\<open>mqttread\<close> and \<open>mqttwrite\<close> are only ever \<open>esp32_read\<close> and \<open>esp32_write\<close>; the callers name them.\<close>

definition NetworkInit :: Network where
  "NetworkInit = \<lparr>my_socket = 0, connected = False\<rparr>"

definition htons :: "int \<Rightarrow> int" where
  "htons port = (port mod 256) * 256 + port div 256 mod 256"

fun prefer_ip4 :: "addrinfo list \<Rightarrow> addrinfo list \<Rightarrow> addrinfo list" where
  "prefer_ip4 result [] = result"
| "prefer_ip4 result (res # rest) = (if ai_family res = AF_INET then res # rest else prefer_ip4 result rest)"

definition NetworkConnect :: "'w os \<Rightarrow> Network \<Rightarrow> byte list \<Rightarrow> int \<Rightarrow> 'w \<Rightarrow> (int \<times> Network \<times> 'w) option" where
  "NetworkConnect os network addr port w =
     (let (rc, result, w) = os_getaddrinfo os addr w in
      do { (rc, address, w) \<leftarrow>
             (if rc = 0 then
                (case prefer_ip4 result result of
                   [] \<Rightarrow> None
                 | res # rest \<Rightarrow>
                     let w = os_freeaddrinfo os (res # rest) w in
                     if ai_family res = AF_INET
                     then Some (rc, \<lparr>sa_family = AF_INET, sa_port = htons port, sa_addr = sin_addr res\<rparr>, w)
                     else Some (-1, \<lparr>sa_family = 0, sa_port = 0, sa_addr = 0\<rparr>, w))
              else Some (rc, \<lparr>sa_family = 0, sa_port = 0, sa_addr = 0\<rparr>, w));
           if rc = 0 then
             (let (sk, w) = os_socket os AF_INET w; network = network\<lparr>my_socket := sk\<rparr> in
              if sk \<noteq> -1 then
                (let (rc, w) = os_connect os sk address w in
                 Some (rc, if rc = 0 then network\<lparr>connected := True\<rparr> else network, w))
              else Some (rc, network, w))
           else Some (rc, network, w) })"

definition NetworkDisconnect :: "'w os \<Rightarrow> Network \<Rightarrow> 'w \<Rightarrow> Network \<times> 'w" where
  "NetworkDisconnect os network w = (network\<lparr>connected := False\<rparr>, os_close os (my_socket network) w)"

definition NetworkConnected :: "Network \<Rightarrow> bool" where
  "NetworkConnected network = connected network"

section \<open>What the read loop relies on\<close>

text \<open>The POSIX contract of \<open>recv\<close>: it reports at most as many bytes as asked for, and stores what it reports.\<close>

definition recv_posix :: "'w os \<Rightarrow> bool" where
  "recv_posix os \<longleftrightarrow> (\<forall>sk n w rc bs w'. os_recv os sk n w = (rc, bs, w') \<longrightarrow> 0 \<le> n \<longrightarrow>
     -1 \<le> rc \<and> rc \<le> n \<and> int (length bs) = max 0 rc)"

lemma recv_posixD:
  "recv_posix os \<Longrightarrow> os_recv os sk n w = (rc, bs, w') \<Longrightarrow> 0 \<le> n \<Longrightarrow> -1 \<le> rc \<and> rc \<le> n \<and> int (length bs) = max 0 rc"
  unfolding recv_posix_def by blast

lemma store_at_SomeD: "store_at b off bs = Some b' \<Longrightarrow> off + length bs \<le> length b \<and> b' = put off bs b \<and> length b' = length b"
  by (auto simp: store_at_def emit_eq split: if_splits)

definition read_post :: "Network \<Rightarrow> mem \<Rightarrow> nat \<Rightarrow> int \<Rightarrow> int \<times> mem \<times> Network \<times> 'w \<Rightarrow> bool" where
  "read_post network buffer off len = (\<lambda>(rc, buffer', network', w').
     -1 \<le> rc \<and> rc \<le> len \<and> length buffer' = length buffer \<and> take off buffer' = take off buffer \<and>
     drop (off + nat len) buffer' = drop (off + nat len) buffer \<and>
     (rc = len \<or> rc = -1 \<or> \<not> connected network') \<and> my_socket network' = my_socket network \<and>
     (connected network' \<longrightarrow> connected network))"

lemma read_post_store:
  assumes "store_at buffer (off + nat bytes) bs = Some b1" and "0 \<le> bytes" and "bytes + int (length bs) \<le> len"
    and "read_post network b1 off len y"
  shows "read_post network buffer off len y"
proof -
  have f: "off + nat bytes + length bs \<le> length buffer" and b1: "b1 = put (off + nat bytes) bs buffer"
    using store_at_SomeD [OF assms(1)] by auto
  have "take off b1 = take off buffer"
    unfolding b1 using f by (simp add: put_def)
  moreover have "drop (off + nat len) b1 = drop (off + nat len) buffer"
    unfolding b1 using f assms(2,3) by (intro nth_equalityI) (auto simp: nth_put)
  moreover have "length b1 = length buffer" using b1 f by simp
  ultimately show ?thesis using assms(4) by (simp add: read_post_def split: prod.splits)
qed

lemma read_post_disconnect: "read_post (network\<lparr>connected := False\<rparr>) b off len y \<Longrightarrow> read_post network b off len y"
  by (auto simp: read_post_def)

lemma esp32_read_loop_bounds:
  assumes "recv_posix os"
  shows "esp32_read_loop os network buffer off len bytes w = Some y \<Longrightarrow> 0 \<le> bytes \<Longrightarrow> bytes \<le> len \<Longrightarrow>
     read_post network buffer off len y"
proof -
  let ?P = "\<lambda>os network buffer off len bytes w y. recv_posix os \<longrightarrow> 0 \<le> bytes \<longrightarrow> bytes \<le> len \<longrightarrow>
     read_post network buffer off len y"
  assume run: "esp32_read_loop os network buffer off len bytes w = Some y" and "0 \<le> bytes" "bytes \<le> len"
  moreover have "?P os network buffer off len bytes w y"
  proof (rule esp32_read_loop.raw_induct [of ?P, OF _ run], goal_cases)
    case 2: (1 loop os network buffer off len bytes w y)
    show ?case
    proof (intro impI)
      assume h: "recv_posix os" "0 \<le> bytes" "bytes \<le> len"
      have IH: "read_post n b off len y"
        if "loop os n b off len k v = Some y" "0 \<le> k" "k \<le> len" for n b k v
        using 2(1) [OF that(1)] h(1) that(2,3) by blast
      show "read_post network buffer off len y"
      proof (cases "bytes < len \<and> connected network")
        case False
        with 2(2) h show ?thesis by (auto simp: read_post_def)
      next
        case True
        obtain rc bs w1 where r: "os_recv os (my_socket network) (len - bytes) w = (rc, bs, w1)"
          by (metis prod_cases3)
        have rb: "-1 \<le> rc" "rc \<le> len - bytes" "int (length bs) = max 0 rc"
          using recv_posixD [OF h(1) r] True by auto
        obtain b1 where b1: "store_at buffer (off + nat bytes) bs = Some b1"
          using 2(2) True r by (auto split: bind_splits)
        let ?lost = "os_errno os w1 = ENOTCONN \<or> os_errno os w1 = ECONNRESET"
        let ?down = "(rc = 0 \<and> len \<noteq> 0) \<or> os_errno os w1 = ENOTCONN \<or> os_errno os w1 = ECONNRESET \<or> os_errno os w1 = EPIPE"
        have body: "(if rc = -1 then if os_errno os w1 \<noteq> ENOTCONN \<and> os_errno os w1 \<noteq> ECONNRESET then Some (-1, b1, network, w1) else loop os network b1 off len bytes w1
            else if ?down then loop os (network\<lparr>connected := False\<rparr>) b1 off len bytes w1
            else loop os network b1 off len (bytes + rc) w1) = Some y"
          using 2(2) True by (simp only: r b1 prod.case Option.bind.simps Let_def if_True simp_thms)
        have "read_post network b1 off len y"
        proof (cases "rc = -1")
          case err: True
          show ?thesis
          proof (cases ?lost)
            case True
            with err body have "loop os network b1 off len bytes w1 = Some y" by auto
            with IH h show ?thesis by blast
          next
            case False
            with err body h show ?thesis by (auto simp: read_post_def)
          qed
        next
          case ok: False
          show ?thesis
          proof (cases ?down)
            case True
            with ok body have "loop os (network\<lparr>connected := False\<rparr>) b1 off len bytes w1 = Some y"
              by (simp only: if_True if_False simp_thms)
            with IH h read_post_disconnect show ?thesis by blast
          next
            case False
            with ok body have "loop os network b1 off len (bytes + rc) w1 = Some y"
              by (simp only: if_True if_False simp_thms)
            moreover have "0 \<le> bytes + rc" "bytes + rc \<le> len" using ok rb h by auto
            ultimately show ?thesis using IH by blast
          qed
        qed
        moreover have "bytes + int (length bs) \<le> len" using rb True by auto
        ultimately show ?thesis using read_post_store [OF b1 h(2)] by blast
      qed
    qed
  qed
  ultimately show ?thesis using assms by blast
qed

lemma esp32_read_loop_stuck:
  assumes "\<And>v. \<exists>v'. os_recv os (my_socket network) (len - bytes) v = (-1, [], v') \<and> os_errno os v' = ENOTCONN"
  shows "bytes < len \<Longrightarrow> connected network \<Longrightarrow> esp32_read_loop os network buffer off len bytes w = None"
proof (rule ccontr)
  let ?P = "\<lambda>os network buffer off len bytes w y.
     (\<forall>v. \<exists>v'. os_recv os (my_socket network) (len - bytes) v = (-1, [], v') \<and> os_errno os v' = ENOTCONN) \<longrightarrow>
     bytes < len \<longrightarrow> connected network \<longrightarrow> False"
  assume h: "bytes < len" "connected network" and "esp32_read_loop os network buffer off len bytes w \<noteq> None"
  then obtain y where run: "esp32_read_loop os network buffer off len bytes w = Some y" by blast
  have "?P os network buffer off len bytes w y"
  proof (rule esp32_read_loop.raw_induct [of ?P, OF _ run], goal_cases)
    case step: (1 loop os network buffer off len bytes w y)
    show ?case
    proof (intro impI)
      assume always: "\<forall>v. \<exists>v'. os_recv os (my_socket network) (len - bytes) v = (-1, [], v') \<and> os_errno os v' = ENOTCONN"
        and b: "bytes < len" "connected network"
      then obtain w' where w': "os_recv os (my_socket network) (len - bytes) w = (-1, [], w')" "os_errno os w' = ENOTCONN"
        by blast
      then obtain b1 where "loop os network b1 off len bytes w' = Some y"
        using step(2) b by (auto split: bind_splits)
      from step(1) [OF this] always b show False by blast
    qed
  qed
  with assms h show False by blast
qed

section \<open>A delivering socket\<close>

text \<open>
  The documented behaviour of a stream socket on which the peer's bytes are waiting: \<open>recv\<close> delivers a
  non-empty prefix of them, in order, and leaves no connection error in \<open>errno\<close>; setting a timeout and
  reading the clock take nothing from the stream.
\<close>

locale lwip_stream =
  fixes os :: "'w os" and inbox :: "'w \<Rightarrow> byte list"
  assumes setsockopt_inbox: "inbox (os_setsockopt os sk opt iv w) = inbox w"
    and clock_inbox: "inbox (snd (os_gettimeofday os w)) = inbox w"
    and recv_delivers: "0 < n \<Longrightarrow> inbox w \<noteq> [] \<Longrightarrow>
      \<exists>k w'. 0 < k \<and> int k \<le> n \<and> k \<le> length (inbox w) \<and> os_recv os sk n w = (int k, take k (inbox w), w') \<and>
        inbox w' = drop k (inbox w) \<and> os_errno os w' \<notin> {ENOTCONN, ECONNRESET, EPIPE}"
begin

lemma read_loop_complete:
  assumes "connected network" and "0 \<le> bytes" and "bytes \<le> len" and "nat (len - bytes) \<le> length (inbox w)"
    and "off + nat len \<le> length buffer"
  shows "\<exists>w'. esp32_read_loop os network buffer off len bytes w =
      Some (len, put (off + nat bytes) (take (nat (len - bytes)) (inbox w)) buffer, network, w') \<and>
      inbox w' = drop (nat (len - bytes)) (inbox w)"
  using assms(2-)
proof (induction "nat (len - bytes)" arbitrary: bytes w buffer rule: less_induct)
  case less
  show ?case
  proof (cases "bytes = len")
    case True
    then show ?thesis by (subst esp32_read_loop.simps) simp
  next
    case False
    with less.prems have "inbox w \<noteq> []" "0 < len - bytes" by auto
    then obtain k w1 where k: "0 < k" "int k \<le> len - bytes" "k \<le> length (inbox w)"
      and r: "os_recv os (my_socket network) (len - bytes) w = (int k, take k (inbox w), w1)"
      and w1: "inbox w1 = drop k (inbox w)" "os_errno os w1 \<notin> {ENOTCONN, ECONNRESET, EPIPE}"
      using recv_delivers by metis
    let ?b1 = "put (off + nat bytes) (take k (inbox w)) buffer"
    have st: "store_at buffer (off + nat bytes) (take k (inbox w)) = Some ?b1" and l1: "length ?b1 = length buffer"
      using k less.prems by (auto simp: store_at_def emit_eq)
    have m: "nat (len - bytes) = k + nat (len - (bytes + int k))" "nat (bytes + int k) = nat bytes + k"
      using k less.prems by linarith+
    have "\<exists>w'. esp32_read_loop os network ?b1 off len (bytes + int k) w1 =
      Some (len, put (off + nat (bytes + int k)) (take (nat (len - (bytes + int k))) (inbox w1)) ?b1, network, w') \<and>
      inbox w' = drop (nat (len - (bytes + int k))) (inbox w1)"
      using k less.prems l1 w1(1) by (intro less.hyps) auto
    moreover have "put (off + nat (bytes + int k)) (take (nat (len - (bytes + int k))) (inbox w1)) ?b1 =
        put (off + nat bytes) (take (nat (len - bytes)) (inbox w)) buffer"
      using put_append [of "off + nat bytes" "take k (inbox w)" "take (nat (len - (bytes + int k))) (drop k (inbox w))" buffer]
        k less.prems m by (simp add: w1(1) take_add add.assoc)
    moreover have "esp32_read_loop os network buffer off len bytes w = esp32_read_loop os network ?b1 off len (bytes + int k) w1"
      using False less.prems(2) assms(1) r st w1(2) k by (subst esp32_read_loop.simps) (simp add: Let_def)
    ultimately show ?thesis by (simp add: w1(1) m add.commute)
  qed
qed

lemma read_complete:
  assumes "connected network" and "0 \<le> len" and "nat len \<le> length (inbox w)" and "off + nat len \<le> length buffer"
  shows "\<exists>w'. esp32_read os network buffer off len timeout_ms w =
      Some (len, put off (take (nat len) (inbox w)) buffer, network, w') \<and> inbox w' = drop (nat len) (inbox w)"
  using read_loop_complete [of network 0 len "os_setsockopt os (my_socket network) SO_RCVTIMEO (rw_interval timeout_ms) w" off buffer] assms
  by (simp add: esp32_read_def setsockopt_inbox)

end

text \<open>\<open>esp32_read\<close> as the callback of \<open>MQTTPacket_read\<close>: the bytes it stored into a buffer of the size asked for.\<close>

definition esp32_getfn :: "'w os \<Rightarrow> int \<Rightarrow> (Network \<times> 'w) getfn" where
  "esp32_getfn os timeout_ms n = (\<lambda>(network, w).
     do { (rc, buffer, network, w) \<leftarrow> esp32_read os network (replicate (nat n) 0) 0 n timeout_ms w;
          Some (rc, take (nat rc) buffer, (network, w)) })"


context lwip_stream
begin

lemma getfn_complete:
  assumes "connected network" and "fst s = network" and "0 \<le> n" and "nat n \<le> length (inbox (snd s))"
  shows "\<exists>s'. esp32_getfn os timeout_ms n s = Some (n, take (nat n) (inbox (snd s)), s') \<and>
     fst s' = network \<and> inbox (snd s') = drop (nat n) (inbox (snd s))"
proof -
  obtain w where s: "s = (network, w)" using assms(2) by (cases s) simp
  from assms s read_complete [of network n w 0 "replicate (nat n) 0" timeout_ms] obtain w' where
    "esp32_read os network (replicate (nat n) 0) 0 n timeout_ms w = Some (n, take (nat n) (inbox w), network, w')"
    "inbox w' = drop (nat n) (inbox w)"
    by (auto simp: put_0 min_absorb2)
  with s assms(3) show ?thesis by (simp add: esp32_getfn_def)
qed

end

sublocale lwip_stream \<subseteq> pkt: packet_source "esp32_getfn os timeout_ms" "\<lambda>s. inbox (snd s)"
    "\<lambda>s. connected network \<and> fst s = network" for timeout_ms network
proof (unfold_locales, goal_cases)
  case (1 s x xs)
  then show ?case using getfn_complete [of network s 1 timeout_ms] by simp
next
  case (2 s n)
  then show ?case using getfn_complete [of network s n timeout_ms] by simp
qed

context lwip_stream
begin

lemmas net_read_packet = pkt.read_packet

end

section \<open>A loop-back socket\<close>

text \<open>
  A world in which the contracts above hold: a queue of bytes from the peer, the bytes written, and a clock
  that advances by 100 ms at each reading.  \<open>recv\<close> on an empty queue times out with \<open>EAGAIN\<close>.
\<close>

record sim =
  sim_in :: "byte list"
  sim_out :: "byte list"
  sim_now :: timeval
  sim_errno :: int

definition sim_os :: "sim os" where
  "sim_os = \<lparr>
     os_gettimeofday = (\<lambda>w. (sim_now w, w\<lparr>sim_now := timeradd (sim_now w) \<lparr>tv_sec = 0, tv_usec = 100000\<rparr>\<rparr>)),
     os_errno = sim_errno,
     os_setsockopt = (\<lambda>sk opt iv w. w),
     os_recv = (\<lambda>sk n w. if sim_in w = [] \<and> n > 0 then (-1, [], w\<lparr>sim_errno := 11\<rparr>)
        else (int (length (take (nat n) (sim_in w))), take (nat n) (sim_in w),
              w\<lparr>sim_in := drop (nat n) (sim_in w), sim_errno := 0\<rparr>)),
     os_write = (\<lambda>sk bs w. (int (length bs), w\<lparr>sim_out := sim_out w @ bs\<rparr>)),
     os_getaddrinfo = (\<lambda>addr w. (0, [\<lparr>ai_family = AF_INET, sin_addr = 16777343\<rparr>], w)),
     os_freeaddrinfo = (\<lambda>ai w. w),
     os_socket = (\<lambda>fam w. (3, w)),
     os_connect = (\<lambda>sk a w. (0, w)),
     os_close = (\<lambda>sk w. w)\<rparr>"

interpretation sim: lwip_stream sim_os sim_in
proof (unfold_locales, goal_cases)
  case (3 n w sk)
  then show ?case
    by (intro exI [of _ "min (nat n) (length (sim_in w))"]
          exI [of _ "w\<lparr>sim_in := drop (nat n) (sim_in w), sim_errno := 0\<rparr>"])
       (auto simp: sim_os_def min_def)
qed (simp_all add: sim_os_def)

lemma sim_recv_posix: "recv_posix sim_os"
  by (auto simp: recv_posix_def sim_os_def split: if_splits)

definition sim0 :: "byte list \<Rightarrow> sim" where
  "sim0 bs = \<lparr>sim_in = bs, sim_out = [], sim_now = \<lparr>tv_sec = 0, tv_usec = 0\<rparr>, sim_errno = 0\<rparr>"

section \<open>Properties\<close>

text \<open>C33: \<open>esp32_read\<close> over any \<open>recv\<close> that meets its POSIX contract: when it returns, the count is between -1 and
  \<open>len\<close>; it is short of \<open>len\<close> only on an error or a lost connection, and the bytes of the buffer outside the
  \<open>len\<close> bytes asked for are untouched.\<close>

theorem esp32_read_bounds:
  assumes "recv_posix os" and "0 \<le> len"
    and "esp32_read os network buffer off len timeout_ms w = Some (rc, buffer', network', w')"
  shows "-1 \<le> rc \<and> rc \<le> len \<and> (rc = len \<or> rc = -1 \<or> \<not> connected network') \<and>
     length buffer' = length buffer \<and> take off buffer' = take off buffer \<and>
     drop (off + nat len) buffer' = drop (off + nat len) buffer"
  using esp32_read_loop_bounds [OF assms(1), of network buffer off len 0 _ "(rc, buffer', network', w')"] assms(2,3)
  by (auto simp: esp32_read_def read_post_def)

theorem esp32_read_bounds_witness:
  "\<exists>rc b n w. esp32_read sim_os \<lparr>my_socket = 3, connected = True\<rparr> [0, 0, 0, 9] 1 2 500 (sim0 [1, 2, 3]) = Some (rc, b, n, w) \<and>
     -1 \<le> rc \<and> rc \<le> 2 \<and> drop 3 b = [9]"
proof -
  obtain w where r: "esp32_read sim_os \<lparr>my_socket = 3, connected = True\<rparr> [0, 0, 0, 9] 1 2 500 (sim0 [1, 2, 3]) =
      Some (2, [0, 1, 2, 9], \<lparr>my_socket = 3, connected = True\<rparr>, w)"
    using sim.read_complete [of "\<lparr>my_socket = 3, connected = True\<rparr>" 2 "sim0 [1, 2, 3]" 1 "[0, 0, 0, 9]" 500]
    by (auto simp: sim0_def put_def numeral_eq_Suc)
  have "drop 3 [0, 1, 2, 9 :: byte] = [9]" by simp
  with r show ?thesis using esp32_read_bounds [OF sim_recv_posix _ r] by (intro exI [of _ 2] exI [of _ "[0, 1, 2, 9]"] exI) simp
qed

text \<open>On a delivering socket a packet is received whole.  When the next bytes on the connection are an MQTT
  packet that fits the buffer, \<open>MQTTPacket_read\<close> over \<open>esp32_read\<close> terminates, returns the packet type, leaves
  exactly the packet at the start of the buffer, and consumes exactly its bytes from the stream.\<close>

lemma esp32_packet_received:
  assumes "lwip_stream os inbox" and "connected network"
    and "inbox w = packet h body @ rest" and "length body < 268435456"
    and "length (packet h body) \<le> nat buflen" and "nat buflen \<le> length buf"
  shows "\<exists>w'. MQTTPacket_read buf buflen (esp32_getfn os timeout_ms) (network, w) =
      Some (bits_type (header_bits h), put 0 (packet h body) buf, (network, w')) \<and> inbox w' = rest"
  using lwip_stream.net_read_packet [OF assms(1), of "(network, w)" h body rest buflen buf network timeout_ms] assms
  by (fastforce simp: packet_def)

text \<open>C40: \<open>esp32_read\<close> does not return when the connection is lost during the wait: a \<open>recv\<close> that keeps failing with
  \<open>ENOTCONN\<close> neither ends the loop nor clears \<open>connected\<close>.\<close>

theorem esp32_read_lost_connection_hangs:
  assumes "0 < len" and "connected network"
    and "\<And>v. \<exists>v'. os_recv os (my_socket network) len v = (-1, [], v') \<and> os_errno os v' = ENOTCONN"
  shows "esp32_read os network buffer off len timeout_ms w = None"
  using assms esp32_read_loop_stuck [of os network len 0] by (simp add: esp32_read_def)

theorem esp32_read_lost_connection_witness:
  "esp32_read (sim_os\<lparr>os_recv := \<lambda>sk n w. (-1, [], w\<lparr>sim_errno := 128\<rparr>)\<rparr>) \<lparr>my_socket = 3, connected = True\<rparr> [0] 0 1 500 (sim0 []) = None"
  by (rule esp32_read_lost_connection_hangs) (simp_all add: sim_os_def)

text \<open>What \<open>NetworkConnect\<close> reports.  With a resolvable IPv4 name it opens a socket and connects it, and after a
  successful \<open>connect\<close> returns 0 with \<open>connected\<close> set; a refused \<open>connect\<close> is returned as it is, with
  \<open>connected\<close> as before; but when no socket is available it returns 0 as well, without a connection.\<close>

lemma NetworkConnect_result:
  assumes "os_getaddrinfo os addr w = (0, pre @ ip4 # rest, w1)"
    and "\<forall>a\<in>set pre. ai_family a \<noteq> AF_INET" and "ai_family ip4 = AF_INET"
    and "os_socket os AF_INET (os_freeaddrinfo os (ip4 # rest) w1) = (sk, w2)"
    and "os_connect os sk \<lparr>sa_family = AF_INET, sa_port = htons port, sa_addr = sin_addr ip4\<rparr> w2 = (rc, w3)"
  shows "NetworkConnect os network addr port w =
     (if sk = -1 then Some (0, network\<lparr>my_socket := -1\<rparr>, w2)
      else Some (rc, network\<lparr>my_socket := sk, connected := (rc = 0 \<or> connected network)\<rparr>, w3))"
proof -
  have "prefer_ip4 r (pre @ ip4 # rest) = ip4 # rest" for r
    using assms(2,3) by (induction pre) simp_all
  with assms show ?thesis by (simp add: NetworkConnect_def Let_def)
qed

end
