(* ===== verification/MQTTPublish.thy ===== *)
theory MQTTPublish
  imports MQTTPacket
begin

text \<open>
  \<^verbatim>\<open>main/src/MQTTCommon/MQTTSerializePublish.c\<close> and \<^verbatim>\<open>MQTTDeserializePublish.c\<close>: PUBLISH and the
  two-byte acknowledgements.  A serializer returns the \<open>int\<close> of the C function and the buffer
  after the call; a deserializer returns the code and the out-parameters, whose fields are
  options where the C variable may be left uninitialised.
\<close>

section \<open>Serializers\<close>

definition MQTTSerialize_publishLength :: "int \<Rightarrow> MQTTString \<Rightarrow> int \<Rightarrow> int" where
  "MQTTSerialize_publishLength qos topicName payloadlen =
     (let n = 2 + MQTTstrlen topicName + payloadlen in if qos > 0 then n + 2 else n)"

definition MQTTSerialize_publish ::
  "mem \<Rightarrow> int \<Rightarrow> int \<Rightarrow> int \<Rightarrow> int \<Rightarrow> int \<Rightarrow> MQTTString \<Rightarrow> byte list \<Rightarrow> int \<Rightarrow> (int \<times> mem) option" where
  "MQTTSerialize_publish buf buflen dup qos retained packetid topicName payload payloadlen =
     (let rem_len = MQTTSerialize_publishLength qos topicName payloadlen in
      if MQTTPacket_len rem_len > buflen then Some (MQTTPACKET_BUFFER_TOO_SHORT, buf)
      else do {
        cur \<leftarrow> writeChar (buf, 0) (header_byte \<lparr>bits_retain = retained, bits_qos = qos, bits_dup = dup,
                                           bits_type = msgType PUBLISH_MSG\<rparr>);
        cur \<leftarrow> encodeAt cur rem_len;
        cur \<leftarrow> writeMQTTString cur topicName;
        cur \<leftarrow> (if qos > 0 then writeInt cur packetid else Some cur);
        bytes \<leftarrow> slice payload 0 (nat payloadlen);
        cur \<leftarrow> emit bytes cur;
        Some (int (snd cur), fst cur) })"

definition MQTTSerialize_ack :: "mem \<Rightarrow> int \<Rightarrow> int \<Rightarrow> int \<Rightarrow> int \<Rightarrow> (int \<times> mem) option" where
  "MQTTSerialize_ack buf buflen packettype dup packetid =
     (if buflen < 4 then Some (MQTTPACKET_BUFFER_TOO_SHORT, buf)
      else do {
        cur \<leftarrow> writeChar (buf, 0) (header_byte \<lparr>bits_retain = 0,
                  bits_qos = (if packettype = msgType PUBREL_MSG then 1 else 0), bits_dup = dup,
                  bits_type = packettype\<rparr>);
        cur \<leftarrow> encodeAt cur 2;
        cur \<leftarrow> writeInt cur packetid;
        Some (int (snd cur), fst cur) })"

definition MQTTSerialize_puback :: "mem \<Rightarrow> int \<Rightarrow> int \<Rightarrow> (int \<times> mem) option" where
  "MQTTSerialize_puback buf buflen packetid = MQTTSerialize_ack buf buflen (msgType PUBACK_MSG) 0 packetid"

definition MQTTSerialize_pubrel :: "mem \<Rightarrow> int \<Rightarrow> int \<Rightarrow> int \<Rightarrow> (int \<times> mem) option" where
  "MQTTSerialize_pubrel buf buflen dup packetid = MQTTSerialize_ack buf buflen (msgType PUBREL_MSG) dup packetid"

definition MQTTSerialize_pubcomp :: "mem \<Rightarrow> int \<Rightarrow> int \<Rightarrow> (int \<times> mem) option" where
  "MQTTSerialize_pubcomp buf buflen packetid = MQTTSerialize_ack buf buflen (msgType PUBCOMP_MSG) 0 packetid"

section \<open>Deserializers\<close>

record publish_out =
  po_dup :: "int option"
  po_qos :: "int option"
  po_retained :: "int option"
  po_packetid :: "int option"
  po_topicName :: MQTTString
  po_payload :: "nat option" \<comment> \<open>offset into the read buffer\<close>
  po_payloadlen :: "int option"

definition MQTTDeserialize_publish :: "publish_out \<Rightarrow> mem \<Rightarrow> (int \<times> publish_out) option" where
  "MQTTDeserialize_publish out buf = do {
     (c, (_, curdata)) \<leftarrow> readChar (buf, 0);
     let header = header_bits c;
     if bits_type header \<noteq> msgType PUBLISH_MSG then Some (0, out)
     else do {
       let out = out\<lparr>po_dup := Some (bits_dup header), po_qos := Some (bits_qos header),
                     po_retained := Some (bits_retain header)\<rparr>;
       (rc, mylen) \<leftarrow> MQTTPacket_decodeBuf buf curdata;
       let curdata = curdata + nat rc;
       let enddata = int curdata + mylen;
       (ok, topic, (_, curdata)) \<leftarrow> readMQTTLenString (po_topicName out) (buf, curdata) enddata;
       let out = out\<lparr>po_topicName := topic\<rparr>;
       if ok = 0 \<or> enddata - int curdata < 0 then Some (rc, out)
       else do {
         (out, curdata) \<leftarrow> (if bits_qos header > 0
            then do { (i, (_, curdata)) \<leftarrow> readInt (buf, curdata); Some (out\<lparr>po_packetid := Some i\<rparr>, curdata) }
            else Some (out, curdata));
         Some (1, out\<lparr>po_payloadlen := Some (enddata - int curdata), po_payload := Some curdata\<rparr>) } } }"

record ack_out =
  ao_packettype :: "int option"
  ao_dup :: "int option"
  ao_packetid :: "int option"

definition ack_uninit :: ack_out where
  "ack_uninit = \<lparr>ao_packettype = None, ao_dup = None, ao_packetid = None\<rparr>"

definition MQTTDeserialize_ack :: "ack_out \<Rightarrow> mem \<Rightarrow> (int \<times> ack_out) option" where
  "MQTTDeserialize_ack out buf = do {
     (c, (_, curdata)) \<leftarrow> readChar (buf, 0);
     let header = header_bits c;
     let out = out\<lparr>ao_dup := Some (bits_dup header), ao_packettype := Some (bits_type header)\<rparr>;
     (rc, mylen) \<leftarrow> MQTTPacket_decodeBuf buf curdata;
     let curdata = curdata + nat rc;
     let enddata = int curdata + mylen;
     if enddata - int curdata < 2 then Some (rc, out)
     else do { (i, _) \<leftarrow> readInt (buf, curdata); Some (1, out\<lparr>ao_packetid := Some i\<rparr>) } }"

section \<open>The packets as lists of bytes\<close>

definition publish_body :: "int \<Rightarrow> int \<Rightarrow> MQTTString \<Rightarrow> byte list \<Rightarrow> byte list" where
  "publish_body q packetid topicName payload =
     mqttstring_bytes topicName @ (if q > 0 then int_bytes packetid else []) @ payload"

definition publish_header :: "int \<Rightarrow> int \<Rightarrow> int \<Rightarrow> byte" where
  "publish_header d q r = header_byte \<lparr>bits_retain = r, bits_qos = q, bits_dup = d, bits_type = 3\<rparr>"

lemma publishLength_body:
  "wf_string t \<Longrightarrow> MQTTSerialize_publishLength q t (int (length payload)) = int (length (publish_body q i t payload))"
  by (simp add: MQTTSerialize_publishLength_def publish_body_def length_mqttstring_bytes Let_def)

lemma serialize_publish_emit:
  assumes "wf_string t" and "payload = take n src" and "n \<le> length src"
    and "MQTTPacket_len (int (length (publish_body q i t payload))) \<le> buflen"
  shows "MQTTSerialize_publish buf buflen d q r i t src (int n) =
     written (emit (packet (publish_header d q r) (publish_body q i t payload)) (buf, 0))"
proof -
  have n: "int n = int (length payload)" using assms(2,3) by simp
  have l: "MQTTSerialize_publishLength q t (int n) = int (length (publish_body q i t payload))"
    unfolding n by (rule publishLength_body [OF assms(1)])
  have "slice src 0 n = Some payload" using assms(2,3) by simp
  then have tail: "do { cur \<leftarrow> writeMQTTString cur t;
        cur \<leftarrow> (if q > 0 then writeInt cur i else Some cur);
        bytes \<leftarrow> slice src 0 (nat (int n));
        cur \<leftarrow> emit bytes cur;
        Some (int (snd cur), fst cur) } = written (emit (publish_body q i t payload) cur)" for cur
    using assms(1) by (cases "0 < q") (simp_all add: cursor_simps publish_body_def written_def)
  show ?thesis
    using assms(4) serialize_frame [OF tail]
    by (simp add: MQTTSerialize_publish_def l Let_def publish_header_def)
qed

lemma serialize_ack_emit:
  assumes "4 \<le> buflen"
  shows "MQTTSerialize_ack buf buflen t d i =
     written (emit (packet (header_byte \<lparr>bits_retain = 0, bits_qos = (if t = 6 then 1 else 0), bits_dup = d,
                                         bits_type = t\<rparr>) (int_bytes i)) (buf, 0))"
proof -
  have tail: "do { cur \<leftarrow> writeInt cur i; Some (int (snd cur), fst cur) } = written (emit (int_bytes i) cur)" for cur
    by (simp add: cursor_simps written_def)
  show ?thesis
    using assms serialize_frame [OF tail, where buf = buf] by (simp add: MQTTSerialize_ack_def)
qed


lemma readChar_packet [simp]: "readChar (packet h body @ rest, 0) = Some (h, (packet h body @ rest, 1))"
  by simp

lemma decodeBuf_packet:
  "length body < 268435456 \<Longrightarrow>
    MQTTPacket_decodeBuf (packet h body @ rest) 1 = Some (int (length (rl_bytes (length body))), int (length body))"
  by (rule decodeBuf_rl [where rest = "body @ rest"]) simp_all

lemma drop_packet: "drop (1 + length (rl_bytes (length body))) (packet h body @ rest) = body @ rest"
  by simp

lemmas packet_reads = readChar_packet decodeBuf_packet drop_packet

lemma deserialize_publish_packet:
  fixes topic payload rest :: "byte list"
  defines "body q i \<equiv> int_bytes (int (length topic)) @ topic @ (if q > 0 then int_bytes i else []) @ payload"
  assumes "length topic < 65536" and "0 \<le> i" "i < 65536" and "0 \<le> q" "q < 4"
    and "length (body q i) < 268435456"
  shows "MQTTDeserialize_publish out (packet (publish_header d q r) (body q i) @ rest) =
     Some (1, out\<lparr>po_dup := Some (d mod 2), po_qos := Some q, po_retained := Some (r mod 2),
       po_topicName := (po_topicName out)\<lparr>cstring := None, lenstring_len := int (length topic),
          lenstring_data := Some (topic @ (if q > 0 then int_bytes i else []) @ payload @ rest)\<rparr>,
       po_packetid := (if q > 0 then Some i else po_packetid out),
       po_payloadlen := Some (int (length payload)),
       po_payload := Some (length (packet (publish_header d q r) (body q i)) - length payload)\<rparr>)"
proof -
  define rl where "rl = rl_bytes (length (body q i))"
  define buf where "buf = packet (publish_header d q r) (body q i) @ rest"
  define e where "e = int (1 + length rl) + int (length (body q i))"
  have hdr: "header_bits (publish_header d q r) = \<lparr>bits_retain = r mod 2, bits_qos = q, bits_dup = d mod 2, bits_type = 3\<rparr>"
    using assms by (simp add: publish_header_def)
  have "drop (1 + length rl) buf =
      int_bytes (int (length topic)) @ topic @ (if q > 0 then int_bytes i else []) @ payload @ rest"
    unfolding buf_def rl_def drop_packet by (simp add: body_def)
  note d0 = this
  have topic: "readMQTTLenString s (buf, 1 + length rl) e = Some (1, s\<lparr>lenstring_len := int (length topic),
       lenstring_data := Some (topic @ (if q > 0 then int_bytes i else []) @ payload @ rest), cstring := None\<rparr>,
       (buf, 1 + length rl + 2 + length topic))" for s
    by (rule readMQTTLenString_at [OF d0]) (use assms in \<open>auto simp: e_def body_def\<close>)
  have pid: "readInt (buf, 1 + length rl + 2 + length topic) = Some (i, (buf, 1 + length rl + 2 + length topic + 2))" if "q > 0"
  proof (rule readInt_at [where rest = "payload @ rest"])
    show "drop (1 + length rl + 2 + length topic) buf = int_bytes i @ payload @ rest"
      using drop_prefix_drop [of "1 + length rl" buf "int_bytes (int (length topic)) @ topic"] d0 that
      by (simp add: add.assoc)
  qed (use assms in auto)
  have dec: "MQTTPacket_decodeBuf buf 1 = Some (int (length rl), int (length (body q i)))"
    unfolding buf_def rl_def by (rule decodeBuf_packet) fact
  have pl: "length (packet (publish_header d q r) (body q i)) = 1 + length rl + length (body q i)"
    by (simp add: length_packet rl_def)
  have "readChar (buf, 0) = Some (publish_header d q r, (buf, 1))"
    unfolding buf_def by (rule readChar_packet)
  then show ?thesis
    using topic pid dec hdr assms(3-6) unfolding buf_def [symmetric] pl
    by (cases "q > 0") (simp_all add: MQTTDeserialize_publish_def e_def body_def nat_add_distrib)
qed


lemma deserialize_ack_packet:
  assumes "0 \<le> i" and "i < 65536"
  shows "MQTTDeserialize_ack out (packet h (int_bytes i) @ rest) =
     Some (1, out\<lparr>ao_dup := Some (bits_dup (header_bits h)), ao_packettype := Some (bits_type (header_bits h)), ao_packetid := Some i\<rparr>)"
proof -
  let ?pkt = "packet h (int_bytes i)"
  have dec: "MQTTPacket_decodeBuf (?pkt @ rest) 1 = Some (1, 2)"
    using decodeBuf_packet [of "int_bytes i" h rest] by (simp add: rl_bytes_small)
  have "drop 2 (?pkt @ rest) = int_bytes i @ rest"
    using drop_packet [of "int_bytes i" h rest] by (simp add: rl_bytes_small)
  then have rdi: "readInt (?pkt @ rest, 2) = Some (i, (?pkt @ rest, 4))"
    using readInt_at [of 2 _ i rest] assms by (simp del: packet_nth_0)
  show ?thesis
    using dec rdi readChar_packet [of h "int_bytes i" rest]
    by (simp add: MQTTDeserialize_ack_def numeral_2_eq_2 Let_def del: packet_nth_0)
qed

section \<open>Properties\<close>

text \<open>C30: \<open>MQTTSerialize_publish\<close> is memory safe and total on every branch.  When the space check fails
  the buffer is untouched and the code is \<open>MQTTPACKET_BUFFER_TOO_SHORT\<close>; otherwise exactly the bytes of
  the MQTT PUBLISH packet are written at the start of the buffer, nothing behind them changes and the
  packet's length is returned.\<close>

theorem MQTTSerialize_publish_correct:
  assumes "wf_string t" and "n \<le> length src" and "buflen \<le> int (length buf)"
    and "length (publish_body q i t (take n src)) < 268435456"
  shows "MQTTSerialize_publish buf buflen d q r i t src (int n) =
     (let pkt = packet (publish_header d q r) (publish_body q i t (take n src)) in
      if MQTTPacket_len (MQTTSerialize_publishLength q t (int n)) > buflen then Some (-2, buf)
      else Some (int (length pkt), pkt @ drop (length pkt) buf))"
proof -
  let ?body = "publish_body q i t (take n src)"
  have l: "MQTTSerialize_publishLength q t (int n) = int (length ?body)"
    using publishLength_body [OF assms(1), of q "take n src" i] assms(2) by simp
  show ?thesis
  proof (cases "MQTTPacket_len (int (length ?body)) > buflen")
    case True
    then show ?thesis by (simp add: MQTTSerialize_publish_def l Let_def)
  next
    case False
    then have "length (packet (publish_header d q r) ?body) \<le> length buf"
      using packet_fits [OF assms(4), of buflen "publish_header d q r"] assms(3) by simp
    with False assms(1,2) show ?thesis
      by (simp add: serialize_publish_emit written_emit put_0 l Let_def)
  qed
qed

text \<open>A concrete topic and payload used by the witnesses: \<open>a/b\<close> and \<open>hi\<close>.\<close>

definition example_topic :: MQTTString where
  "example_topic = MQTTString_initializer\<lparr>cstring := Some [97, 47, 98]\<rparr>"

lemma wf_example_topic: "wf_string example_topic"
  unfolding example_topic_def by (rule wf_cstring) simp

lemma example_body: "publish_body 1 7 example_topic [104, 105] = [0, 3, 97, 47, 98, 0, 7, 104, 105]"
  by (simp add: publish_body_def mqttstring_bytes_def example_topic_def MQTTString_initializer_def int_bytes_def)

lemma example_length: "MQTTSerialize_publishLength 1 example_topic 2 = 9"
  by (simp add: MQTTSerialize_publishLength_def MQTTstrlen_def example_topic_def)

theorem MQTTSerialize_publish_correct_witness:
  "MQTTSerialize_publish (replicate 16 0) 16 0 1 0 7 example_topic [104, 105] (int 2) =
     Some (11, [0x32, 9, 0, 3, 97, 47, 98, 0, 7, 104, 105] @ replicate 5 0)"
  using MQTTSerialize_publish_correct [OF wf_example_topic, of 2 "[104, 105]" 16 "replicate 16 0" 1 7 0 0]
  by (simp add: example_body example_length packet_def publish_header_def header_byte_def rl_bytes_small MQTTPacket_len_def)

text \<open>C20: PUBLISH round trip.  What \<open>MQTTSerialize_publish\<close> wrote, \<open>MQTTDeserialize_publish\<close> reads back: the
  flags, the packet identifier for QoS above 0, the topic bytes and the payload.\<close>

theorem publish_roundtrip:
  assumes "wf_string t" and "n \<le> length src" and "buflen \<le> int (length buf)"
    and "length (publish_body q i t (take n src)) < 268435456"
    and "0 \<le> i" "i < 65536" "0 \<le> q" "q < 4"
    and "MQTTSerialize_publish buf buflen d q r i t src (int n) = Some (rc, buf')" and "rc > 0"
  shows "\<exists>out'. MQTTDeserialize_publish out buf' = Some (1, out') \<and>
     po_dup out' = Some (d mod 2) \<and> po_qos out' = Some q \<and> po_retained out' = Some (r mod 2) \<and>
     (q > 0 \<longrightarrow> po_packetid out' = Some i) \<and>
     string_content (po_topicName out') = string_content t \<and>
     (\<exists>off. po_payload out' = Some off \<and> po_payloadlen out' = Some (int n) \<and> slice buf' off n = Some (take n src))"
proof -
  let ?h = "publish_header d q r" and ?topic = "string_content t" and ?pl = "take n src"
  let ?body = "int_bytes (int (length ?topic)) @ ?topic @ (if q > 0 then int_bytes i else []) @ ?pl"
  have tl: "int (length ?topic) = MQTTstrlen t" "length ?topic < 65536"
    using assms(1) wf_string_length [OF assms(1)] by (auto simp: wf_string_def)
  have body: "publish_body q i t ?pl = ?body"
    by (simp add: publish_body_def mqttstring_bytes_content [OF assms(1)] tl(1))
  from assms(9,10) have buf': "buf' = packet ?h ?body @ drop (length (packet ?h ?body)) buf"
    unfolding MQTTSerialize_publish_correct [OF assms(1-4)] body by (auto simp: Let_def split: if_splits)
  let ?rest = "drop (length (packet ?h ?body)) buf"
  let ?off = "length (packet ?h ?body) - length ?pl"
  have "length ?pl = n" using assms(2) by simp
  moreover have "slice buf' ?off n = Some ?pl"
  proof -
    define pre where "pre = ?h # rl_bytes (length ?body) @ int_bytes (int (length ?topic)) @ ?topic @
      (if q > 0 then int_bytes i else [])"
    have "buf' = pre @ ?pl @ ?rest" by (simp add: buf' pre_def)
    moreover have "?off = length pre" by (simp add: pre_def packet_def)
    ultimately show ?thesis using slice_middle [of pre ?pl ?rest] \<open>length ?pl = n\<close> by simp
  qed
  ultimately show ?thesis
    using deserialize_publish_packet [of ?topic i q ?pl out d r ?rest] assms(4-8) tl
    unfolding buf' body by (auto simp: string_content_def)
qed

theorem publish_roundtrip_witness:
  "\<exists>rc buf'. MQTTSerialize_publish (replicate 16 0) 16 0 1 0 7 example_topic [104, 105] (int 2) = Some (rc, buf') \<and>
     (\<exists>out'. MQTTDeserialize_publish \<lparr>po_dup = None, po_qos = None, po_retained = None, po_packetid = None,
         po_topicName = MQTTString_initializer, po_payload = None, po_payloadlen = None\<rparr> buf' = Some (1, out') \<and>
       string_content (po_topicName out') = [97, 47, 98] \<and> po_packetid out' = Some 7)"
proof -
  obtain rc buf' where "MQTTSerialize_publish (replicate 16 0) 16 0 1 0 7 example_topic [104, 105] (int 2) = Some (rc, buf')"
      "rc > 0"
    using serialize_publish_emit [OF wf_example_topic, of "[104, 105]" 2 "[104, 105]" 1 7 16 "replicate 16 0" 0 0]
    by (simp add: example_body MQTTPacket_len_def written_emit length_packet rl_bytes_small)
  moreover have "string_content example_topic = [97, 47, 98]"
    by (simp add: example_topic_def)
  ultimately show ?thesis
    using publish_roundtrip [OF wf_example_topic, of 2 "[104, 105]" 16 "replicate 16 0" 1 7 0 0 rc buf']
    by (fastforce simp: example_body)
qed

text \<open>A PUBLISH whose remaining length (below 128) cannot hold a topic length is reported as success: the
  code is the number of length bytes, which is 1, and payload, payload length and topic data are left
  as they were.\<close>

lemma MQTTDeserialize_publish_short_reported_ok:
  assumes "bits_type (header_bits h) = 3" and "uint l < 2"
  shows "\<exists>out'. MQTTDeserialize_publish out (h # l # rest) = Some (1, out') \<and>
     po_payload out' = po_payload out \<and> po_payloadlen out' = po_payloadlen out \<and>
     lenstring_data (po_topicName out') = lenstring_data (po_topicName out)"
proof -
  have u: "nat (uint l) < 128" using assms(2) by linarith
  have "drop 1 (h # l # rest) = rl_bytes (nat (uint l)) @ rest"
    using rl_bytes_small [OF u] by simp
  from decodeBuf_rl [OF this] assms(2) u
  have "MQTTPacket_decodeBuf (h # l # rest) 1 = Some (1, uint l)"
    using rl_bytes_small [OF u] by simp
  with assms show ?thesis
    by (simp add: MQTTDeserialize_publish_def readMQTTLenString_def Let_def)
qed

text \<open>Acknowledgement round trip: packet type, dup flag and packet identifier of every acknowledgement
  that \<open>MQTTSerialize_ack\<close> writes are what \<open>MQTTDeserialize_ack\<close> returns, with code 1.\<close>

lemma ack_roundtrip:
  assumes "4 \<le> buflen" and "buflen \<le> int (length buf)" and "0 \<le> i" "i < 65536" "0 \<le> t" "t < 16"
  shows "\<exists>buf'. MQTTSerialize_ack buf buflen t d i = Some (4, buf') \<and> length buf' = length buf \<and>
     MQTTDeserialize_ack out buf' =
       Some (1, out\<lparr>ao_dup := Some (d mod 2), ao_packettype := Some t, ao_packetid := Some i\<rparr>)"
proof -
  define h where "h = header_byte \<lparr>bits_retain = 0, bits_qos = (if t = 6 then 1 else 0), bits_dup = d, bits_type = t\<rparr>"
  let ?pkt = "packet h (int_bytes i)" and ?rest = "drop 4 buf"
  have len: "length ?pkt = 4" by (simp add: length_packet rl_bytes_small)
  have hdr: "bits_dup (header_bits h) = d mod 2" "bits_type (header_bits h) = t"
    using assms(5,6) by (simp_all add: h_def)
  have ser: "MQTTSerialize_ack buf buflen t d i = Some (4, ?pkt @ ?rest)"
    using assms(1,2) written_emit [of ?pkt buf] len
    by (simp add: serialize_ack_emit put_0 flip: h_def)
  have "MQTTDeserialize_ack out (?pkt @ ?rest) =
      Some (1, out\<lparr>ao_dup := Some (d mod 2), ao_packettype := Some t, ao_packetid := Some i\<rparr>)"
    using deserialize_ack_packet [OF assms(3,4)] hdr by (simp del: packet_nth_0)
  with ser len assms(1,2) show ?thesis by (simp del: packet_nth_0)
qed

lemma ack_roundtrip_witness:
  "\<exists>buf'. MQTTSerialize_ack (replicate 8 0) 8 6 0 513 = Some (4, buf') \<and>
     MQTTDeserialize_ack ack_uninit buf' =
       Some (1, \<lparr>ao_packettype = Some 6, ao_dup = Some 0, ao_packetid = Some 513\<rparr>)"
  using ack_roundtrip [of 8 "replicate 8 0" 513 6 0 ack_uninit] by (auto simp: ack_uninit_def)

end
