(* ===== verification/MQTTConnect.thy ===== *)
theory MQTTConnect
  imports MQTTPublish
begin

text \<open>
  \<^verbatim>\<open>main/src/MQTTCommon/MQTTConnectClient.c\<close> and the types of \<^verbatim>\<open>MQTTConnect.h\<close>: CONNECT, CONNACK and the
  two packets without a body, DISCONNECT and PINGREQ.
\<close>

section \<open>Options\<close>

text \<open>The union \<open>MQTTConnectFlags\<close>, low bit first: one unused bit, then the fields below.\<close>

record MQTTConnectFlags =
  fl_cleansession :: int
  fl_will :: int
  fl_willQoS :: int
  fl_willRetain :: int
  fl_password :: int
  fl_username :: int

definition connect_flags_byte :: "MQTTConnectFlags \<Rightarrow> byte" where
  "connect_flags_byte f = word_of_int (2 * (fl_cleansession f mod 2) + 4 * (fl_will f mod 2) +
     8 * (fl_willQoS f mod 4) + 32 * (fl_willRetain f mod 2) + 64 * (fl_password f mod 2) +
     128 * (fl_username f mod 2))"

record MQTTPacket_willOptions =
  will_struct_id :: string
  will_struct_version :: int
  will_topicName :: MQTTString
  will_message :: MQTTString
  will_retained :: int
  will_qos :: int

record MQTTPacket_connectData =
  cd_struct_id :: string
  cd_struct_version :: int
  cd_MQTTVersion :: int
  cd_clientID :: MQTTString
  cd_keepAliveInterval :: int
  cd_cleansession :: int
  cd_willFlag :: int
  cd_will :: MQTTPacket_willOptions
  cd_username :: MQTTString
  cd_password :: MQTTString

definition MQTTPacket_willOptions_initializer :: MQTTPacket_willOptions where
  "MQTTPacket_willOptions_initializer = \<lparr>will_struct_id = ''MQTW'', will_struct_version = 0,
     will_topicName = MQTTString_initializer, will_message = MQTTString_initializer, will_retained = 0, will_qos = 0\<rparr>"

definition MQTTPacket_connectData_initializer :: MQTTPacket_connectData where
  "MQTTPacket_connectData_initializer = \<lparr>cd_struct_id = ''MQTC'', cd_struct_version = 0, cd_MQTTVersion = 4,
     cd_clientID = MQTTString_initializer, cd_keepAliveInterval = 60, cd_cleansession = 1, cd_willFlag = 0,
     cd_will = MQTTPacket_willOptions_initializer, cd_username = MQTTString_initializer, cd_password = MQTTString_initializer\<rparr>"

text \<open>The test \<open>s.cstring || s.lenstring.data\<close>.\<close>

definition present :: "MQTTString \<Rightarrow> bool" where
  "present s \<longleftrightarrow> cstring s \<noteq> None \<or> lenstring_data s \<noteq> None"

section \<open>CONNECT\<close>

definition MQTTSerialize_connectLength :: "MQTTPacket_connectData \<Rightarrow> int" where
  "MQTTSerialize_connectLength options =
     (if cd_MQTTVersion options = 3 then 12 else if cd_MQTTVersion options = 4 then 10 else 0)
     + (MQTTstrlen (cd_clientID options) + 2)
     + (if cd_willFlag options \<noteq> 0
        then MQTTstrlen (will_topicName (cd_will options)) + 2 + MQTTstrlen (will_message (cd_will options)) + 2 else 0)
     + (if present (cd_username options) then MQTTstrlen (cd_username options) + 2 else 0)
     + (if present (cd_password options) then MQTTstrlen (cd_password options) + 2 else 0)"

definition connect_flags :: "MQTTPacket_connectData \<Rightarrow> MQTTConnectFlags" where
  "connect_flags options = \<lparr>fl_cleansession = cd_cleansession options,
     fl_will = (if cd_willFlag options \<noteq> 0 then 1 else 0),
     fl_willQoS = (if cd_willFlag options \<noteq> 0 then will_qos (cd_will options) else 0),
     fl_willRetain = (if cd_willFlag options \<noteq> 0 then will_retained (cd_will options) else 0),
     fl_password = (if present (cd_password options) then 1 else 0),
     fl_username = (if present (cd_username options) then 1 else 0)\<rparr>"

definition MQTTSerialize_connect :: "mem \<Rightarrow> int \<Rightarrow> MQTTPacket_connectData \<Rightarrow> (int \<times> mem) option" where
  "MQTTSerialize_connect buf buflen options =
     (let n = MQTTSerialize_connectLength options in
      if MQTTPacket_len n > buflen then Some (MQTTPACKET_BUFFER_TOO_SHORT, buf)
      else do {
        cur \<leftarrow> writeChar (buf, 0) (header_byte \<lparr>bits_retain = 0, bits_qos = 0, bits_dup = 0,
                                           bits_type = msgType CONNECT_MSG\<rparr>);
        cur \<leftarrow> encodeAt cur n;
        cur \<leftarrow> (if cd_MQTTVersion options = 4
                 then do { cur \<leftarrow> writeCString cur (cs ''MQTT''); writeChar cur 4 }
                 else do { cur \<leftarrow> writeCString cur (cs ''MQIsdp''); writeChar cur 3 });
        let flags = connect_flags options;
        cur \<leftarrow> writeChar cur (connect_flags_byte flags);
        cur \<leftarrow> writeInt cur (cd_keepAliveInterval options);
        cur \<leftarrow> writeMQTTString cur (cd_clientID options);
        cur \<leftarrow> (if cd_willFlag options \<noteq> 0
                 then do { cur \<leftarrow> writeMQTTString cur (will_topicName (cd_will options));
                           writeMQTTString cur (will_message (cd_will options)) }
                 else Some cur);
        cur \<leftarrow> (if fl_username flags \<noteq> 0 then writeMQTTString cur (cd_username options) else Some cur);
        cur \<leftarrow> (if fl_password flags \<noteq> 0 then writeMQTTString cur (cd_password options) else Some cur);
        Some (int (snd cur), fst cur) })"

section \<open>CONNACK and the packets without a body\<close>

text \<open>
  The union \<open>MQTTConnackFlags\<close> puts seven unused bits first, so \<open>sessionpresent\<close> is the top bit.
\<close>

record connack_out =
  co_sessionPresent :: int
  co_connack_rc :: int

definition MQTTDeserialize_connack :: "connack_out \<Rightarrow> mem \<Rightarrow> (int \<times> connack_out) option" where
  "MQTTDeserialize_connack out buf = do {
     (c, (_, curdata)) \<leftarrow> readChar (buf, 0);
     if bits_type (header_bits c) \<noteq> msgType CONNACK_MSG then Some (0, out)
     else do {
       (rc, mylen) \<leftarrow> MQTTPacket_decodeBuf buf curdata;
       let curdata = curdata + nat rc;
       let enddata = int curdata + mylen;
       if enddata - int curdata < 2 then Some (rc, out)
       else do {
         (flags, (_, curdata)) \<leftarrow> readChar (buf, curdata);
         (c, _) \<leftarrow> readChar (buf, curdata);
         Some (1, \<lparr>co_sessionPresent = uint flags div 128, co_connack_rc = uint c\<rparr>) } } }"

definition MQTTSerialize_zero :: "mem \<Rightarrow> int \<Rightarrow> int \<Rightarrow> (int \<times> mem) option" where
  "MQTTSerialize_zero buf buflen packettype =
     (if buflen < 2 then Some (MQTTPACKET_BUFFER_TOO_SHORT, buf)
      else do {
        cur \<leftarrow> writeChar (buf, 0) (header_byte \<lparr>bits_retain = 0, bits_qos = 0, bits_dup = 0, bits_type = packettype\<rparr>);
        cur \<leftarrow> encodeAt cur 0;
        Some (int (snd cur), fst cur) })"

definition MQTTSerialize_disconnect :: "mem \<Rightarrow> int \<Rightarrow> (int \<times> mem) option" where
  "MQTTSerialize_disconnect buf buflen = MQTTSerialize_zero buf buflen (msgType DISCONNECT_MSG)"

definition MQTTSerialize_pingreq :: "mem \<Rightarrow> int \<Rightarrow> (int \<times> mem) option" where
  "MQTTSerialize_pingreq buf buflen = MQTTSerialize_zero buf buflen (msgType PINGREQ_MSG)"

section \<open>The packets as lists of bytes\<close>

definition connect_protocol :: "MQTTPacket_connectData \<Rightarrow> byte list" where
  "connect_protocol options =
     (if cd_MQTTVersion options = 4 then int_bytes 4 @ cs ''MQTT'' @ [4] else int_bytes 6 @ cs ''MQIsdp'' @ [3])"

definition connect_body :: "MQTTPacket_connectData \<Rightarrow> byte list" where
  "connect_body options = connect_protocol options
     @ [connect_flags_byte (connect_flags options)] @ int_bytes (cd_keepAliveInterval options)
     @ mqttstring_bytes (cd_clientID options)
     @ (if cd_willFlag options \<noteq> 0
        then mqttstring_bytes (will_topicName (cd_will options)) @ mqttstring_bytes (will_message (cd_will options)) else [])
     @ (if present (cd_username options) then mqttstring_bytes (cd_username options) else [])
     @ (if present (cd_password options) then mqttstring_bytes (cd_password options) else [])"

definition wf_connect :: "MQTTPacket_connectData \<Rightarrow> bool" where
  "wf_connect options \<longleftrightarrow> cd_MQTTVersion options \<in> {3, 4} \<and> wf_string (cd_clientID options) \<and>
     wf_string (cd_username options) \<and> wf_string (cd_password options) \<and>
     (cd_willFlag options \<noteq> 0 \<longrightarrow>
        wf_string (will_topicName (cd_will options)) \<and> wf_string (will_message (cd_will options)))"

lemma connectLength_body:
  "wf_connect options \<Longrightarrow> MQTTSerialize_connectLength options = int (length (connect_body options))"
  by (auto simp: wf_connect_def MQTTSerialize_connectLength_def connect_body_def connect_protocol_def
      length_mqttstring_bytes cs_def)

lemma serialize_connect_emit:
  assumes "wf_connect options" and "MQTTPacket_len (MQTTSerialize_connectLength options) \<le> buflen"
  shows "MQTTSerialize_connect buf buflen options = written (emit (packet 0x10 (connect_body options)) (buf, 0))"
proof -
  have tail: "do {
        cur \<leftarrow> (if cd_MQTTVersion options = 4
                 then do { cur \<leftarrow> writeCString cur (cs ''MQTT''); writeChar cur 4 }
                 else do { cur \<leftarrow> writeCString cur (cs ''MQIsdp''); writeChar cur 3 });
        let flags = connect_flags options;
        cur \<leftarrow> writeChar cur (connect_flags_byte flags);
        cur \<leftarrow> writeInt cur (cd_keepAliveInterval options);
        cur \<leftarrow> writeMQTTString cur (cd_clientID options);
        cur \<leftarrow> (if cd_willFlag options \<noteq> 0
                 then do { cur \<leftarrow> writeMQTTString cur (will_topicName (cd_will options));
                           writeMQTTString cur (will_message (cd_will options)) }
                 else Some cur);
        cur \<leftarrow> (if fl_username flags \<noteq> 0 then writeMQTTString cur (cd_username options) else Some cur);
        cur \<leftarrow> (if fl_password flags \<noteq> 0 then writeMQTTString cur (cd_password options) else Some cur);
        Some (int (snd cur), fst cur) } = written (emit (connect_body options) cur)" for cur
    using assms(1)
    by (cases "cd_MQTTVersion options = 4"; cases "cd_willFlag options = 0"; cases "present (cd_username options)";
        cases "present (cd_password options)")
       (simp_all add: wf_connect_def connect_body_def connect_protocol_def connect_flags_def cursor_simps
          written_def Let_def cs_def)
  have "header_byte \<lparr>bits_retain = 0, bits_qos = 0, bits_dup = 0, bits_type = 1\<rparr> = 0x10"
    by (simp add: header_byte_def)
  then show ?thesis
    using assms(2) serialize_frame [OF tail]
    by (simp add: MQTTSerialize_connect_def connectLength_body [OF assms(1)] Let_def)
qed

lemma deserialize_connack_packet:
  assumes "bits_type (header_bits h) = 2"
  shows "MQTTDeserialize_connack out (packet h [flags, code] @ rest) =
     Some (1, \<lparr>co_sessionPresent = uint flags div 128, co_connack_rc = uint code\<rparr>)"
proof -
  have "MQTTPacket_decodeBuf (packet h [flags, code] @ rest) 1 = Some (1, 2)"
    using decodeBuf_packet [of "[flags, code]" h rest] by (simp add: rl_bytes_small)
  then show ?thesis
    using assms readChar_packet [of h "[flags, code]" rest]
    by (simp add: MQTTDeserialize_connack_def Let_def rl_bytes_small)
qed

lemma serialize_zero_emit:
  "2 \<le> buflen \<Longrightarrow> MQTTSerialize_zero buf buflen t = written (emit [header_byte \<lparr>bits_retain = 0, bits_qos = 0,
     bits_dup = 0, bits_type = t\<rparr>, 0] (buf, 0))"
proof -
  assume "2 \<le> buflen"
  moreover have "encodeAt c 0 = emit [0] c" for c using encodeAt_emit [of c 0] by (simp add: rl_bytes_small)
  ultimately show ?thesis by (simp add: MQTTSerialize_zero_def cursor_simps written_def)
qed

section \<open>Properties\<close>

text \<open>C29: \<open>MQTTSerialize_connect\<close> is memory safe and total for protocol versions 3 and 4: it refuses a short
  buffer without touching it, and otherwise writes the CONNECT packet (protocol name and level, flags,
  keep-alive, client id, optional will, user name and password) and returns its length.\<close>

lemma MQTTSerialize_connect_correct:
  assumes "wf_connect options" and "buflen \<le> int (length buf)"
    and "length (connect_body options) < 268435456"
  shows "MQTTSerialize_connect buf buflen options =
     (let pkt = packet 0x10 (connect_body options) in
      if MQTTPacket_len (MQTTSerialize_connectLength options) > buflen then Some (-2, buf)
      else Some (int (length pkt), pkt @ drop (length pkt) buf))"
proof (cases "MQTTPacket_len (MQTTSerialize_connectLength options) > buflen")
  case True
  then show ?thesis by (simp add: MQTTSerialize_connect_def Let_def)
next
  case False
  then have "length (packet 0x10 (connect_body options)) \<le> length buf"
    using packet_fits [OF assms(3), of buflen "0x10"] connectLength_body [OF assms(1)] assms(2) by simp
  with False show ?thesis
    using serialize_connect_emit [OF assms(1), of buflen buf] by (simp add: written_emit put_0 Let_def)
qed

definition example_connect :: MQTTPacket_connectData where
  "example_connect = MQTTPacket_connectData_initializer\<lparr>cd_MQTTVersion := 3,
     cd_clientID := MQTTString_initializer\<lparr>cstring := Some [99]\<rparr>,
     cd_username := MQTTString_initializer\<lparr>cstring := Some [117]\<rparr>,
     cd_password := MQTTString_initializer\<lparr>cstring := Some [112]\<rparr>\<rparr>"

lemma example_connect_wf: "wf_connect example_connect"
  by (simp add: wf_connect_def example_connect_def MQTTPacket_connectData_initializer_def)

lemma example_connect_body: "connect_body example_connect =
    [0, 6, 77, 81, 73, 115, 100, 112, 3, 194, 0, 60, 0, 1, 99, 0, 1, 117, 0, 1, 112]"
  by (simp add: example_connect_def connect_body_def connect_protocol_def connect_flags_def connect_flags_byte_def
      MQTTPacket_connectData_initializer_def int_bytes_def cs_def mqttstring_bytes_def MQTTString_initializer_def
      present_def)

text \<open>\<open>MQTTDeserialize_connack\<close> reads the return code of every well-formed CONNACK.\<close>

lemma MQTTDeserialize_connack_correct:
  assumes "bits_type (header_bits h) = 2"
  shows "MQTTDeserialize_connack out (packet h [flags, code] @ rest) =
     Some (1, \<lparr>co_sessionPresent = uint flags div 128, co_connack_rc = uint code\<rparr>)"
  using assms by (rule deserialize_connack_packet)

lemma MQTTDeserialize_connack_correct_witness:
  "MQTTDeserialize_connack \<lparr>co_sessionPresent = 0, co_connack_rc = 255\<rparr> (packet 0x20 [0, 5] @ [1, 2]) =
     Some (1, \<lparr>co_sessionPresent = 0, co_connack_rc = 5\<rparr>)"
  using MQTTDeserialize_connack_correct [of "0x20" _ 0 5 "[1, 2]"] by (simp add: header_bits_def)

end
