(* ===== verification/MQTTSubscribe.thy ===== *)
theory MQTTSubscribe
  imports MQTTPublish
begin

text \<open>
  \<^verbatim>\<open>main/src/MQTTCommon/MQTTSubscribeClient.c\<close> and \<^verbatim>\<open>MQTTUnsubscribeClient.c\<close>.  The array parameters
  \<open>topicFilters[]\<close> and \<open>requestedQoSs[]\<close> are lists; \<open>count\<close> is a parameter of its own, as in C, and an
  index past an array is \<open>None\<close>.
\<close>

section \<open>SUBSCRIBE\<close>

fun subscribe_length_loop :: "nat \<Rightarrow> nat \<Rightarrow> MQTTString list \<Rightarrow> int \<Rightarrow> int option" where
  "subscribe_length_loop 0 i topicFilters n = Some n"
| "subscribe_length_loop (Suc k) i topicFilters n =
     (if i < length topicFilters
      then subscribe_length_loop k (i + 1) topicFilters (n + (2 + MQTTstrlen (topicFilters ! i) + 1)) else None)"

definition MQTTSerialize_subscribeLength :: "int \<Rightarrow> MQTTString list \<Rightarrow> int option" where
  "MQTTSerialize_subscribeLength count topicFilters = subscribe_length_loop (nat count) 0 topicFilters 2"

fun subscribe_topics_loop :: "nat \<Rightarrow> nat \<Rightarrow> MQTTString list \<Rightarrow> int list \<Rightarrow> cursor \<Rightarrow> cursor option" where
  "subscribe_topics_loop 0 i topicFilters requestedQoSs cur = Some cur"
| "subscribe_topics_loop (Suc k) i topicFilters requestedQoSs cur =
     (if i < length topicFilters \<and> i < length requestedQoSs
      then do { cur \<leftarrow> writeMQTTString cur (topicFilters ! i);
                cur \<leftarrow> writeChar cur (word_of_int (requestedQoSs ! i));
                subscribe_topics_loop k (i + 1) topicFilters requestedQoSs cur }
      else None)"

definition MQTTSerialize_subscribe ::
  "mem \<Rightarrow> int \<Rightarrow> int \<Rightarrow> int \<Rightarrow> int \<Rightarrow> MQTTString list \<Rightarrow> int list \<Rightarrow> (int \<times> mem) option" where
  "MQTTSerialize_subscribe buf buflen dup packetid count topicFilters requestedQoSs = do {
     rem_len \<leftarrow> MQTTSerialize_subscribeLength count topicFilters;
     if MQTTPacket_len rem_len > buflen then Some (MQTTPACKET_BUFFER_TOO_SHORT, buf)
     else do {
       cur \<leftarrow> writeChar (buf, 0) (header_byte \<lparr>bits_retain = 0, bits_qos = 1, bits_dup = dup,
                                          bits_type = msgType SUBSCRIBE_MSG\<rparr>);
       cur \<leftarrow> encodeAt cur rem_len;
       cur \<leftarrow> writeInt cur packetid;
       cur \<leftarrow> subscribe_topics_loop (nat count) 0 topicFilters requestedQoSs cur;
       Some (int (snd cur), fst cur) } }"

section \<open>SUBACK\<close>

text \<open>\<open>grantedQoSs\<close> is the array object of the caller; the loop appends while data is left.\<close>

record suback_out =
  so_packetid :: "int option"
  so_count :: int
  so_grantedQoSs :: "int list"

function suback_loop :: "mem \<Rightarrow> nat \<Rightarrow> int \<Rightarrow> int \<Rightarrow> suback_out \<Rightarrow> (int \<times> suback_out) option" where
  "suback_loop buf curdata enddata maxcount out =
     (if int curdata < enddata then
        if so_count out > maxcount then Some (-1, out)
        else case rd buf curdata of
          None \<Rightarrow> None
        | Some c \<Rightarrow>
            if 0 \<le> so_count out \<and> nat (so_count out) < length (so_grantedQoSs out)
            then suback_loop buf (curdata + 1) enddata maxcount
                   (out\<lparr>so_grantedQoSs := (so_grantedQoSs out)[nat (so_count out) := uint c],
                        so_count := so_count out + 1\<rparr>)
            else None
      else Some (1, out))"
  by pat_completeness auto
termination
  by (relation "measure (\<lambda>(buf, curdata, enddata, m, out). nat (enddata - int curdata))") auto

definition MQTTDeserialize_suback :: "int \<Rightarrow> suback_out \<Rightarrow> mem \<Rightarrow> (int \<times> suback_out) option" where
  "MQTTDeserialize_suback maxcount out buf = do {
     (c, (_, curdata)) \<leftarrow> readChar (buf, 0);
     if bits_type (header_bits c) \<noteq> msgType SUBACK_MSG then Some (0, out)
     else do {
       (rc, mylen) \<leftarrow> MQTTPacket_decodeBuf buf curdata;
       let curdata = curdata + nat rc;
       let enddata = int curdata + mylen;
       if enddata - int curdata < 2 then Some (rc, out)
       else do {
         (i, (_, curdata)) \<leftarrow> readInt (buf, curdata);
         suback_loop buf curdata enddata maxcount (out\<lparr>so_packetid := Some i, so_count := 0\<rparr>) } } }"

section \<open>UNSUBSCRIBE and UNSUBACK\<close>

fun unsubscribe_length_loop :: "nat \<Rightarrow> nat \<Rightarrow> MQTTString list \<Rightarrow> int \<Rightarrow> int option" where
  "unsubscribe_length_loop 0 i topicFilters n = Some n"
| "unsubscribe_length_loop (Suc k) i topicFilters n =
     (if i < length topicFilters
      then unsubscribe_length_loop k (i + 1) topicFilters (n + (2 + MQTTstrlen (topicFilters ! i))) else None)"

definition MQTTSerialize_unsubscribeLength :: "int \<Rightarrow> MQTTString list \<Rightarrow> int option" where
  "MQTTSerialize_unsubscribeLength count topicFilters = unsubscribe_length_loop (nat count) 0 topicFilters 2"

fun unsubscribe_topics_loop :: "nat \<Rightarrow> nat \<Rightarrow> MQTTString list \<Rightarrow> cursor \<Rightarrow> cursor option" where
  "unsubscribe_topics_loop 0 i topicFilters cur = Some cur"
| "unsubscribe_topics_loop (Suc k) i topicFilters cur =
     (if i < length topicFilters
      then do { cur \<leftarrow> writeMQTTString cur (topicFilters ! i); unsubscribe_topics_loop k (i + 1) topicFilters cur }
      else None)"

definition MQTTSerialize_unsubscribe ::
  "mem \<Rightarrow> int \<Rightarrow> int \<Rightarrow> int \<Rightarrow> int \<Rightarrow> MQTTString list \<Rightarrow> (int \<times> mem) option" where
  "MQTTSerialize_unsubscribe buf buflen dup packetid count topicFilters = do {
     rem_len \<leftarrow> MQTTSerialize_unsubscribeLength count topicFilters;
     if MQTTPacket_len rem_len > buflen then Some (MQTTPACKET_BUFFER_TOO_SHORT, buf)
     else do {
       cur \<leftarrow> writeChar (buf, 0) (header_byte \<lparr>bits_retain = 0, bits_qos = 1, bits_dup = dup,
                                          bits_type = msgType UNSUBSCRIBE_MSG\<rparr>);
       cur \<leftarrow> encodeAt cur rem_len;
       cur \<leftarrow> writeInt cur packetid;
       cur \<leftarrow> unsubscribe_topics_loop (nat count) 0 topicFilters cur;
       Some (int (snd cur), fst cur) } }"

text \<open>\<open>MQTTDeserialize_unsuback\<close>: \<open>type\<close> and \<open>dup\<close> are initialised to 0 before the call.\<close>

definition MQTTDeserialize_unsuback :: "int option \<Rightarrow> mem \<Rightarrow> (int \<times> int option) option" where
  "MQTTDeserialize_unsuback packetid buf = do {
     (rc, out) \<leftarrow> MQTTDeserialize_ack \<lparr>ao_packettype = Some 0, ao_dup = Some 0, ao_packetid = packetid\<rparr> buf;
     Some (if ao_packettype out = Some (msgType UNSUBACK_MSG) then 1 else rc, ao_packetid out) }"

declare suback_loop.simps [simp del]

section \<open>The packets as lists of bytes\<close>

definition subscribe_body :: "int \<Rightarrow> MQTTString list \<Rightarrow> int list \<Rightarrow> byte list" where
  "subscribe_body packetid ts qs =
     int_bytes packetid @ concat (map2 (\<lambda>t q. mqttstring_bytes t @ [word_of_int q]) ts qs)"

definition unsubscribe_body :: "int \<Rightarrow> MQTTString list \<Rightarrow> byte list" where
  "unsubscribe_body packetid ts = int_bytes packetid @ concat (map mqttstring_bytes ts)"

lemma subscribe_length_loop_drop:
  "i + k = length ts \<Longrightarrow> subscribe_length_loop k i ts n = Some (n + (\<Sum>t\<leftarrow>drop i ts. 3 + MQTTstrlen t))"
  by (induction k i ts n rule: subscribe_length_loop.induct) (auto simp flip: Cons_nth_drop_Suc)

lemma unsubscribe_length_loop_drop:
  "i + k = length ts \<Longrightarrow> unsubscribe_length_loop k i ts n = Some (n + (\<Sum>t\<leftarrow>drop i ts. 2 + MQTTstrlen t))"
  by (induction k i ts n rule: unsubscribe_length_loop.induct) (auto simp flip: Cons_nth_drop_Suc)

lemma subscribe_topics_emit:
  "i + k = length ts \<Longrightarrow> length qs = length ts \<Longrightarrow> \<forall>t \<in> set ts. wf_string t \<Longrightarrow> snd cur \<le> length (fst cur) \<Longrightarrow>
    subscribe_topics_loop k i ts qs cur =
      emit (concat (map2 (\<lambda>t q. mqttstring_bytes t @ [word_of_int q]) (drop i ts) (drop i qs))) cur"
proof (induction k arbitrary: i cur)
  case (Suc k)
  then have i: "i < length ts" "i < length qs" and wf: "wf_string (ts ! i)" by auto
  let ?x = "mqttstring_bytes (ts ! i) @ [word_of_int (qs ! i)]"
  have "subscribe_topics_loop (Suc k) i ts qs cur = emit ?x cur \<bind> (\<lambda>c. subscribe_topics_loop k (i + 1) ts qs c)"
    using i wf by (simp add: cursor_simps)
  also have "\<dots> = emit ?x cur \<bind>
      emit (concat (map2 (\<lambda>t q. mqttstring_bytes t @ [word_of_int q]) (drop (i + 1) ts) (drop (i + 1) qs)))"
    using Suc by (cases cur) (auto simp: emit_eq)
  also have "\<dots> = emit (concat (map2 (\<lambda>t q. mqttstring_bytes t @ [word_of_int q]) (drop i ts) (drop i qs))) cur"
    using i by (simp only: emit_append) (simp flip: Cons_nth_drop_Suc)
  finally show ?case .
qed simp

lemma unsubscribe_topics_emit:
  "i + k = length ts \<Longrightarrow> \<forall>t \<in> set ts. wf_string t \<Longrightarrow> snd cur \<le> length (fst cur) \<Longrightarrow>
    unsubscribe_topics_loop k i ts cur = emit (concat (map mqttstring_bytes (drop i ts))) cur"
proof (induction k arbitrary: i cur)
  case (Suc k)
  then have i: "i < length ts" and wf: "wf_string (ts ! i)" by auto
  have "unsubscribe_topics_loop (Suc k) i ts cur =
      emit (mqttstring_bytes (ts ! i)) cur \<bind> (\<lambda>c. unsubscribe_topics_loop k (i + 1) ts c)"
    using i wf by (simp add: cursor_simps)
  also have "\<dots> = emit (mqttstring_bytes (ts ! i)) cur \<bind> emit (concat (map mqttstring_bytes (drop (i + 1) ts)))"
    using Suc by (cases cur) (auto simp: emit_eq)
  also have "\<dots> = emit (concat (map mqttstring_bytes (drop i ts))) cur"
    using i by (simp only: emit_append) (simp flip: Cons_nth_drop_Suc)
  finally show ?case .
qed simp

lemma subscribeLength_body:
  assumes "length qs = length ts" and "\<forall>t \<in> set ts. wf_string t"
  shows "MQTTSerialize_subscribeLength (int (length ts)) ts = Some (int (length (subscribe_body i ts qs)))"
proof -
  have "int (length (concat (map2 (\<lambda>t q. mqttstring_bytes t @ [word_of_int q]) ts qs))) = (\<Sum>t\<leftarrow>ts. 3 + MQTTstrlen t)"
    using assms by (induction qs ts rule: list_induct2) (auto simp: length_mqttstring_bytes)
  then show ?thesis
    by (simp add: MQTTSerialize_subscribeLength_def subscribe_length_loop_drop subscribe_body_def)
qed

lemma unsubscribeLength_body:
  assumes "\<forall>t \<in> set ts. wf_string t"
  shows "MQTTSerialize_unsubscribeLength (int (length ts)) ts = Some (int (length (unsubscribe_body i ts)))"
proof -
  have "int (length (concat (map mqttstring_bytes ts))) = (\<Sum>t\<leftarrow>ts. 2 + MQTTstrlen t)"
    using assms by (induction ts) (auto simp: length_mqttstring_bytes)
  then show ?thesis
    by (simp add: MQTTSerialize_unsubscribeLength_def unsubscribe_length_loop_drop unsubscribe_body_def)
qed


lemma written_after_emit:
  assumes "\<And>c. snd c \<le> length (fst c) \<Longrightarrow> f c = emit ys c"
  shows "emit xs cur \<bind> (\<lambda>c. f c \<bind> (\<lambda>c. Some (int (snd c), fst c))) = written (emit (xs @ ys) cur)"
proof -
  have "emit xs cur \<bind> f = emit (xs @ ys) cur"
    using assms by (cases cur) (auto simp: emit_eq put_append add.assoc simp flip: emit_append split: bind_splits)
  then show ?thesis unfolding written_def by (metis Option.bind_assoc)
qed

lemma serialize_subscribe_emit:
  assumes "length qs = length ts" and "\<forall>t \<in> set ts. wf_string t"
    and "MQTTPacket_len (int (length (subscribe_body i ts qs))) \<le> buflen"
  shows "MQTTSerialize_subscribe buf buflen d i (int (length ts)) ts qs =
     written (emit (packet (header_byte \<lparr>bits_retain = 0, bits_qos = 1, bits_dup = d, bits_type = 8\<rparr>)
       (subscribe_body i ts qs)) (buf, 0))"
proof -
  have tail: "do { cur \<leftarrow> writeInt cur i; cur \<leftarrow> subscribe_topics_loop (length ts) 0 ts qs cur;
      Some (int (snd cur), fst cur) } = written (emit (subscribe_body i ts qs) cur)" for cur
    unfolding writeInt_emit subscribe_body_def
    by (rule written_after_emit) (use assms subscribe_topics_emit [of 0 "length ts" ts qs] in simp)
  show ?thesis
    using assms(3) serialize_frame [OF tail]
    by (simp add: MQTTSerialize_subscribe_def subscribeLength_body [OF assms(1,2), of i])
qed

lemma serialize_unsubscribe_emit:
  assumes "\<forall>t \<in> set ts. wf_string t"
    and "MQTTPacket_len (int (length (unsubscribe_body i ts))) \<le> buflen"
  shows "MQTTSerialize_unsubscribe buf buflen d i (int (length ts)) ts =
     written (emit (packet (header_byte \<lparr>bits_retain = 0, bits_qos = 1, bits_dup = d, bits_type = 10\<rparr>)
       (unsubscribe_body i ts)) (buf, 0))"
proof -
  have tail: "do { cur \<leftarrow> writeInt cur i; cur \<leftarrow> unsubscribe_topics_loop (length ts) 0 ts cur;
      Some (int (snd cur), fst cur) } = written (emit (unsubscribe_body i ts) cur)" for cur
    unfolding writeInt_emit unsubscribe_body_def
    by (rule written_after_emit) (use assms unsubscribe_topics_emit [of 0 "length ts" ts] in simp)
  show ?thesis
    using assms(2) serialize_frame [OF tail]
    by (simp add: MQTTSerialize_unsubscribe_def unsubscribeLength_body [OF assms(1), of i])
qed

text \<open>The loop of \<open>MQTTDeserialize_suback\<close> on \<open>codes\<close> that follow the packet identifier.\<close>

lemma suback_loop_codes:
  assumes "drop p buf = codes @ rest" and "so_count out = int k" and "int p + int (length codes) = e"
    and "k + length codes \<le> length (so_grantedQoSs out)" and "int (k + length codes) \<le> maxcount + 1"
  shows "suback_loop buf p e maxcount out =
     Some (1, out\<lparr>so_count := int (k + length codes),
       so_grantedQoSs := take k (so_grantedQoSs out) @ map uint codes @ drop (k + length codes) (so_grantedQoSs out)\<rparr>)"
  using assms
proof (induction codes arbitrary: p k out)
  case Nil
  then show ?case by (subst suback_loop.simps) simp
next
  case (Cons c codes)
  let ?g = "so_grantedQoSs out"
  let ?out = "out\<lparr>so_grantedQoSs := ?g[k := uint c], so_count := int k + 1\<rparr>"
  have r: "rd buf p = Some c" and d: "drop (p + 1) buf = codes @ rest"
    using drop_prefix_nth [of p buf "[c]" "codes @ rest" 0] drop_prefix_drop [of p buf "[c]" "codes @ rest"]
      Cons.prems(1) by auto
  have "suback_loop buf p e maxcount out = suback_loop buf (p + 1) e maxcount ?out"
    using Cons.prems r by (subst suback_loop.simps) simp
  also have "\<dots> = Some (1, ?out\<lparr>so_count := int (k + 1 + length codes), so_grantedQoSs :=
      take (k + 1) (?g[k := uint c]) @ map uint codes @ drop (k + 1 + length codes) (?g[k := uint c])\<rparr>)"
    using Cons.IH [of "p + 1" ?out "k + 1"] Cons.prems d by simp
  finally show ?case
    using Cons.prems by (simp add: take_Suc_conv_app_nth)
qed

lemma suback_loop_stop:
  "drop p buf = c # rest \<Longrightarrow> int p < e \<Longrightarrow> so_count out = int (length (so_grantedQoSs out)) \<Longrightarrow>
    so_count out \<le> maxcount \<Longrightarrow> suback_loop buf p e maxcount out = None"
  using drop_prefix_nth [of p buf "[c]" rest 0] by (subst suback_loop.simps) simp

lemma suback_overrun:
  assumes "drop p buf = init @ c # rest" and "so_count out = int k"
    and "k + length init = length (so_grantedQoSs out)"
    and "int (k + length init) \<le> maxcount" and "int p + int (length init) < e"
  shows "suback_loop buf p e maxcount out = None"
  using assms
proof (induction init arbitrary: p k out)
  case Nil
  then show ?case by (auto intro: suback_loop_stop)
next
  case (Cons x init)
  let ?out = "out\<lparr>so_grantedQoSs := (so_grantedQoSs out)[k := uint x], so_count := int k + 1\<rparr>"
  have r: "rd buf p = Some x" and d: "drop (p + 1) buf = init @ c # rest"
    using drop_prefix_nth [of p buf "[x]" "init @ c # rest" 0] drop_prefix_drop [of p buf "[x]" "init @ c # rest"]
      Cons.prems(1) by auto
  have "suback_loop buf p e maxcount out = suback_loop buf (p + 1) e maxcount ?out"
    using Cons.prems r by (subst suback_loop.simps) simp
  also have "\<dots> = None"
    using Cons.IH [of "p + 1" ?out "k + 1"] Cons.prems d by simp
  finally show ?case .
qed

section \<open>Properties\<close>

lemma packet_fits_object:
  "length body < 268435456 \<Longrightarrow> MQTTPacket_len (int (length body)) \<le> buflen \<Longrightarrow> buflen \<le> int (length buf) \<Longrightarrow>
    length (packet h body) \<le> length buf"
  using packet_fits [of body buflen h] by simp

text \<open>C31: \<open>MQTTSerialize_subscribe\<close> is memory safe and total for any number of topic filters: a short buffer is
  refused untouched, otherwise the SUBSCRIBE packet with the filters and their QoS bytes is written and its
  length returned.\<close>

theorem MQTTSerialize_subscribe_correct:
  assumes "length qs = length ts" and "\<forall>t \<in> set ts. wf_string t" and "buflen \<le> int (length buf)"
    and "length (subscribe_body i ts qs) < 268435456"
  shows "MQTTSerialize_subscribe buf buflen d i (int (length ts)) ts qs =
       (let pkt = packet (header_byte \<lparr>bits_retain = 0, bits_qos = 1, bits_dup = d, bits_type = 8\<rparr>) (subscribe_body i ts qs) in
        if MQTTPacket_len (int (length (subscribe_body i ts qs))) > buflen then Some (-2, buf)
        else Some (int (length pkt), pkt @ drop (length pkt) buf))"
proof (cases "MQTTPacket_len (int (length (subscribe_body i ts qs))) > buflen")
  case True
  then show ?thesis by (simp add: MQTTSerialize_subscribe_def subscribeLength_body [OF assms(1,2), of i])
next
  case False
  with serialize_subscribe_emit [OF assms(1,2), of i buflen buf d] packet_fits_object [OF assms(4) _ assms(3)]
  show ?thesis by (simp add: written_emit put_0 Let_def)
qed

theorem MQTTSerialize_subscribe_correct_witness:
  "MQTTSerialize_subscribe (replicate 20 0) 20 0 5 (int 1) [example_topic] [0] =
     Some (10, [0x82, 8, 0, 5, 0, 3, 97, 47, 98, 0] @ replicate 10 0)"
proof -
  have "subscribe_body 5 [example_topic] [0] = [0, 5, 0, 3, 97, 47, 98, 0]"
    by (simp add: subscribe_body_def mqttstring_bytes_def example_topic_def MQTTString_initializer_def int_bytes_def)
  then show ?thesis
    using MQTTSerialize_subscribe_correct [of "[0]" "[example_topic]" 20 "replicate 20 0" 5 0]
    by (simp add: wf_example_topic packet_def header_byte_def rl_bytes_small MQTTPacket_len_def)
qed

text \<open>The same for \<open>MQTTSerialize_unsubscribe\<close>: memory safe, total, and the UNSUBSCRIBE packet of the given
  filters on success.\<close>

lemma MQTTSerialize_unsubscribe_correct:
  assumes "\<forall>t \<in> set ts. wf_string t" and "buflen \<le> int (length buf)"
    and "length (unsubscribe_body i ts) < 268435456"
  shows "MQTTSerialize_unsubscribe buf buflen d i (int (length ts)) ts =
       (let pkt = packet (header_byte \<lparr>bits_retain = 0, bits_qos = 1, bits_dup = d, bits_type = 10\<rparr>) (unsubscribe_body i ts) in
        if MQTTPacket_len (int (length (unsubscribe_body i ts))) > buflen then Some (-2, buf)
        else Some (int (length pkt), pkt @ drop (length pkt) buf))"
proof (cases "MQTTPacket_len (int (length (unsubscribe_body i ts))) > buflen")
  case True
  then show ?thesis by (simp add: MQTTSerialize_unsubscribe_def unsubscribeLength_body [OF assms(1), of i])
next
  case False
  with serialize_unsubscribe_emit [OF assms(1), of i buflen buf d] packet_fits_object [OF assms(3) _ assms(2)]
  show ?thesis by (simp add: written_emit put_0 Let_def)
qed

lemma MQTTSerialize_unsubscribe_correct_witness:
  "MQTTSerialize_unsubscribe (replicate 20 0) 20 0 5 (int 1) [example_topic] =
     Some (9, [0xA2, 7, 0, 5, 0, 3, 97, 47, 98] @ replicate 11 0)"
proof -
  have "unsubscribe_body 5 [example_topic] = [0, 5, 0, 3, 97, 47, 98]"
    by (simp add: unsubscribe_body_def mqttstring_bytes_def example_topic_def MQTTString_initializer_def int_bytes_def)
  then show ?thesis
    using MQTTSerialize_unsubscribe_correct [of "[example_topic]" 20 "replicate 20 0" 5 0]
    by (simp add: wf_example_topic packet_def header_byte_def rl_bytes_small MQTTPacket_len_def)
qed

text \<open>C38: what \<open>MQTTDeserialize_suback\<close> does with a SUBACK that carries the return codes \<open>codes\<close>, called with
  \<open>maxcount\<close> slots: up to \<open>maxcount\<close> codes are stored and the result is 1, but with one code more the
  guard \<open>*count > maxcount\<close> still lets the store through, past the caller's array.\<close>

theorem MQTTDeserialize_suback_codes:
  assumes "bits_type (header_bits h) = 9" and "0 \<le> i" "i < 65536" and "length arr = maxcount"
    and "length codes \<le> maxcount + 1" and "2 + length codes < 128"
  shows "MQTTDeserialize_suback (int maxcount) \<lparr>so_packetid = None, so_count = 0, so_grantedQoSs = arr\<rparr>
      (packet h (int_bytes i @ codes) @ rest) =
     (if length codes \<le> maxcount
      then Some (1, \<lparr>so_packetid = Some i, so_count = int (length codes),
             so_grantedQoSs = map uint codes @ drop (length codes) arr\<rparr>)
      else None)"
proof -
  let ?body = "int_bytes i @ codes" and ?buf = "packet h (int_bytes i @ codes) @ rest"
  let ?out = "\<lparr>so_packetid = Some i, so_count = 0, so_grantedQoSs = arr\<rparr>"
  have dec: "MQTTPacket_decodeBuf ?buf 1 = Some (1, 2 + int (length codes))"
    using decodeBuf_packet [of ?body h rest] assms(6) by (simp add: rl_bytes_small)
  have "drop 2 ?buf = int_bytes i @ codes @ rest"
    using drop_packet [of ?body h rest] assms(6) by (simp add: rl_bytes_small)
  note d2 = this
  from readInt_at [OF d2 assms(2,3)] have ri: "readInt (?buf, 2) = Some (i, (?buf, 4))" by simp
  have d4: "drop 4 ?buf = codes @ rest" using drop_prefix_drop [OF d2] by simp
  have e: "MQTTDeserialize_suback (int maxcount) \<lparr>so_packetid = None, so_count = 0, so_grantedQoSs = arr\<rparr> ?buf =
      suback_loop ?buf 4 (4 + int (length codes)) (int maxcount) ?out"
    using assms(1) dec ri readChar_packet [of h ?body rest]
    by (simp add: MQTTDeserialize_suback_def Let_def numeral_2_eq_2 del: packet_nth_0)
  show ?thesis
  proof (cases "length codes \<le> maxcount")
    case True
    then show ?thesis
      unfolding e using suback_loop_codes [OF d4, of ?out 0 "4 + int (length codes)" "int maxcount"] assms(4,5) by simp
  next
    case False
    then have len: "length codes = maxcount + 1" using assms(5) by simp
    then obtain init c where codes: "codes = init @ [c]" and linit: "length init = maxcount"
      by (metis append_butlast_last_id add_eq_0_iff_both_eq_0 length_append_singleton list.size(3) one_neq_zero
          add.commute plus_1_eq_Suc nat.inject)
    then show ?thesis
      unfolding e using False suback_overrun [of 4 ?buf init c rest ?out 0 "int maxcount" "4 + int (length codes)"] d4 assms(4)
      by simp
  qed
qed

theorem MQTTDeserialize_suback_codes_witness:
  "MQTTDeserialize_suback (int 1) \<lparr>so_packetid = None, so_count = 0, so_grantedQoSs = [-1]\<rparr> (packet 0x90 (int_bytes 5 @ [128])) =
     Some (1, \<lparr>so_packetid = Some 5, so_count = 1, so_grantedQoSs = [128]\<rparr>)
   \<and> MQTTDeserialize_suback (int 1) \<lparr>so_packetid = None, so_count = 0, so_grantedQoSs = [-1]\<rparr> (packet 0x90 (int_bytes 5 @ [0, 0])) = None"
  using MQTTDeserialize_suback_codes [of "0x90" 5 "[-1]" 1 "[128]" "[]"]
    MQTTDeserialize_suback_codes [of "0x90" 5 "[-1]" 1 "[0, 0]" "[]"]
  by (simp add: header_bits_def)

end
