(* ===== verification/MQTTClient.thy ===== *)
theory MQTTClient
  imports Network MQTTConnect MQTTSubscribe
begin

text \<open>
  \<^verbatim>\<open>main/src/CayenneMQTTClient/MQTTClient.c\<close>: the MQTT client over the socket layer.  Every operation takes the
  operating system \<open>os\<close>, the client and the world, and returns its \<open>int\<close>, the client and the world.  A
  message handler is a value of type \<open>'h\<close>, and \<open>call\<close> is the function that runs it: handlers are application
  code that may use the client again.  \<open>None\<close> is undefined behaviour or a call that does not return.

  The length of \<open>messageHandlers\<close> is \<open>MAX_MESSAGE_HANDLERS\<close> (0 in \<^verbatim>\<open>PlatformHeader.h\<close>, 5 in \<^verbatim>\<open>MQTTClient.h\<close>).
\<close>

abbreviation MQTT_FAILURE :: int where "MQTT_FAILURE \<equiv> -1"
abbreviation MQTT_SUCCESS :: int where "MQTT_SUCCESS \<equiv> 0"

definition MAX_PACKET_ID :: int where "MAX_PACKET_ID = 65535"

text \<open>A message; a field is \<open>None\<close> while the C variable is uninitialised.  The payload is its object from
  the pointer on.\<close>

record MQTTMessage =
  msg_qos :: int
  msg_retained :: int
  msg_dup :: int
  msg_id :: "int option"
  msg_payload :: "byte list option"
  msg_payloadlen :: "int option"

record 'h MQTTClient =
  next_packetid :: int
  command_timeout_ms :: int
  buf_size :: int
  readbuf_size :: int
  buf :: mem
  readbuf :: mem
  keepAliveInterval :: int
  ping_outstanding :: bool
  isconnected :: bool
  connAckReceived :: bool
  subAckReceived :: bool
  unsubAckReceived :: bool
  pubAckReceived :: bool
  pubCompReceived :: bool
  messageHandlers :: "(byte list option \<times> 'h option) list"
  defaultMessageHandler :: "'h option"
  userData :: "nat option"
  ipstack :: Network
  ping_timer :: Timer
  last_received_timer :: Timer
  ping_response_timer :: Timer

text \<open>\<open>MessageData\<close>, and what runs a handler.\<close>

type_synonym MessageData = "MQTTString \<times> MQTTMessage"
type_synonym ('h, 'w) caller = "'h \<Rightarrow> MessageData \<Rightarrow> 'h MQTTClient \<Rightarrow> 'w \<Rightarrow> ('h MQTTClient \<times> 'w) option"
type_synonym ('h, 'w) mqtt_result = "(int \<times> 'h MQTTClient \<times> 'w) option"

definition NewMessageData :: "MQTTString \<Rightarrow> MQTTMessage \<Rightarrow> MessageData" where
  "NewMessageData aTopicName aMessage = (aTopicName, aMessage)"

text \<open>The timer operations with the clock of the operating system.\<close>

definition is_expired :: "'w os \<Rightarrow> Timer \<Rightarrow> 'w \<Rightarrow> bool \<times> 'w" where
  "is_expired os t w = (let (now, w) = os_gettimeofday os w in (TimerIsExpired now t, w))"

definition left_ms :: "'w os \<Rightarrow> Timer \<Rightarrow> 'w \<Rightarrow> int \<times> 'w" where
  "left_ms os t w = (let (now, w) = os_gettimeofday os w in (TimerLeftMS now t, w))"

definition countdown_ms :: "'w os \<Rightarrow> int \<Rightarrow> 'w \<Rightarrow> Timer \<times> 'w" where
  "countdown_ms os timeout w = (let (now, w) = os_gettimeofday os w in (TimerCountdownMS now timeout, w))"

definition countdown :: "'w os \<Rightarrow> int \<Rightarrow> 'w \<Rightarrow> Timer \<times> 'w" where
  "countdown os timeout w = (let (now, w) = os_gettimeofday os w in (TimerCountdown now timeout, w))"

section \<open>Packets out and in\<close>

definition getNextPacketId :: "'h MQTTClient \<Rightarrow> int \<times> 'h MQTTClient" where
  "getNextPacketId c =
     (let n = (if next_packetid c = MAX_PACKET_ID then 1 else next_packetid c + 1) in (n, c\<lparr>next_packetid := n\<rparr>))"

partial_function (option) sendPacket_loop ::
    "'w os \<Rightarrow> 'h MQTTClient \<Rightarrow> int \<Rightarrow> Timer \<Rightarrow> int \<Rightarrow> 'w \<Rightarrow> (int \<times> 'h MQTTClient \<times> 'w) option" where
  "sendPacket_loop os c len timer sent w =
     (if sent < len then
        (case is_expired os timer w of (expired, w) \<Rightarrow>
           if expired then Some (sent, c, w)
           else (case left_ms os timer w of (left, w) \<Rightarrow>
             do { (rc, net, w) \<leftarrow> esp32_write os (ipstack c) (buf c) (nat sent) len left w;
                  let c = c\<lparr>ipstack := net\<rparr>;
                  if rc < 0 then Some (sent, c, w)
                  else sendPacket_loop os c len timer (sent + rc) w }))
      else Some (sent, c, w))"

definition sendPacket :: "'w os \<Rightarrow> 'h MQTTClient \<Rightarrow> int \<Rightarrow> Timer \<Rightarrow> 'w \<Rightarrow> ('h, 'w) mqtt_result" where
  "sendPacket os c len timer w = do {
     (sent, c, w) \<leftarrow> sendPacket_loop os c len timer 0 w;
     if sent = len
     then let (t, w) = countdown os (keepAliveInterval c) w in Some (MQTT_SUCCESS, c\<lparr>ping_timer := t\<rparr>, w)
     else Some (MQTT_FAILURE, c, w) }"

definition MQTTClientInit :: "'h MQTTClient \<Rightarrow> Network \<Rightarrow> int \<Rightarrow> mem \<Rightarrow> int \<Rightarrow> mem \<Rightarrow> int \<Rightarrow> 'h MQTTClient" where
  "MQTTClientInit c network timeout_ms sendbuf sendbuf_size rdbuf rdbuf_size =
     c\<lparr>ipstack := network,
       messageHandlers := map (\<lambda>(_, fp). (None, fp)) (messageHandlers c),
       command_timeout_ms := timeout_ms,
       buf := sendbuf, buf_size := sendbuf_size, readbuf := rdbuf, readbuf_size := rdbuf_size,
       isconnected := False, connAckReceived := False, subAckReceived := False, unsubAckReceived := False,
       pubAckReceived := False, pubCompReceived := False, ping_outstanding := False,
       defaultMessageHandler := None, userData := None, next_packetid := 1,
       ping_timer := TimerInit, last_received_timer := TimerInit, ping_response_timer := TimerInit\<rparr>"

text \<open>\<open>decodePacket\<close>: the variable \<open>i\<close> is an object of one byte.\<close>

function decodePacket_loop ::
    "'w os \<Rightarrow> 'h MQTTClient \<Rightarrow> int \<Rightarrow> int \<Rightarrow> int \<Rightarrow> int \<Rightarrow> 'w \<Rightarrow> (int \<times> int \<times> 'h MQTTClient \<times> 'w) option" where
  "decodePacket_loop os c timeout len multiplier val w =
     (let len' = len + 1 in
      if len' > MAX_NO_OF_REMAINING_LENGTH_BYTES then Some (len', val, c, w)
      else case esp32_read os (ipstack c) [0] 0 1 timeout w of
        None \<Rightarrow> None
      | Some (rc, bs, net, w') \<Rightarrow>
          let c' = c\<lparr>ipstack := net\<rparr> in
          if rc \<noteq> 1 then Some (len', val, c', w')
          else case bs of
            [] \<Rightarrow> None
          | i # _ \<Rightarrow>
              let val' = val + uint (i AND 127) * multiplier; multiplier' = multiplier * 128
              in if i AND 128 \<noteq> 0 then decodePacket_loop os c' timeout len' multiplier' val' w'
                 else Some (len', val', c', w'))"
  by pat_completeness auto
termination
  by (relation "measure (\<lambda>(os, c, t, len, m, v, w). nat (5 - len))") (auto simp: MAX_NO_OF_REMAINING_LENGTH_BYTES_def)

declare decodePacket_loop.simps [simp del]

definition decodePacket :: "'w os \<Rightarrow> 'h MQTTClient \<Rightarrow> int \<Rightarrow> 'w \<Rightarrow> (int \<times> int \<times> 'h MQTTClient \<times> 'w) option" where
  "decodePacket os c timeout w = decodePacket_loop os c timeout 0 1 0 w"

definition mqttread :: "'w os \<Rightarrow> 'h MQTTClient \<Rightarrow> nat \<Rightarrow> int \<Rightarrow> int \<Rightarrow> 'w \<Rightarrow> ('h, 'w) mqtt_result" where
  "mqttread os c off len timeout w = do {
     (rc, b, net, w) \<leftarrow> esp32_read os (ipstack c) (readbuf c) off len timeout w;
     Some (rc, c\<lparr>readbuf := b, ipstack := net\<rparr>, w) }"

text \<open>\<open>readPacket\<close>: step 3, the rest of the packet and the result, is \<open>readPacket_body\<close>.\<close>

definition readPacket_body :: "'w os \<Rightarrow> 'h MQTTClient \<Rightarrow> Timer \<Rightarrow> nat \<Rightarrow> int \<Rightarrow> 'w \<Rightarrow> ('h, 'w) mqtt_result" where
  "readPacket_body os c timer len rem_len w = do {
     (ok, c, w) \<leftarrow> (if rem_len > 0
        then let (left, w) = left_ms os timer w in
          do { (rc, c, w) \<leftarrow> mqttread os c len rem_len left w; Some (rc = rem_len, c, w) }
        else Some (True, c, w));
     if \<not> ok then Some (MQTT_FAILURE, c, w)
     else do { h \<leftarrow> rd (readbuf c) 0;
               let rc = bits_type (header_bits h);
               if keepAliveInterval c > 0
               then let (t, w) = countdown os (keepAliveInterval c) w
                    in Some (rc, c\<lparr>last_received_timer := t\<rparr>, w)
               else Some (rc, c, w) } }"

definition readPacket :: "'w os \<Rightarrow> 'h MQTTClient \<Rightarrow> Timer \<Rightarrow> 'w \<Rightarrow> ('h, 'w) mqtt_result" where
  "readPacket os c timer w =
     (let (left, w) = left_ms os timer w in
      do { (rc, c, w) \<leftarrow> mqttread os c 0 1 left w;
           if rc \<noteq> 1 then Some (MQTT_FAILURE, c, w)
           else let (left, w) = left_ms os timer w in
             do { (_, rem_len, c, w) \<leftarrow> decodePacket os c left w;
                  (b, n) \<leftarrow> MQTTPacket_encode (readbuf c) 1 rem_len;
                  readPacket_body os (c\<lparr>readbuf := b\<rparr>) timer (1 + n) rem_len w } })"

section \<open>Dispatch of messages\<close>

text \<open>
  \<open>isTopicMatched\<close>: the two pointers are the remaining characters; \<open>plus_skip\<close> is the inner loop, which stops
  with \<open>curn\<close> on the last character of a level.
\<close>

abbreviation slash :: byte where "slash \<equiv> 47"
abbreviation plus_sign :: byte where "plus_sign \<equiv> 43"
abbreviation hash_sign :: byte where "hash_sign \<equiv> 35"

fun plus_skip :: "byte list \<Rightarrow> byte list" where
  "plus_skip (n # m # rest) = (if m \<noteq> slash then plus_skip (m # rest) else n # m # rest)"
| "plus_skip curn = curn"

fun topic_loop :: "byte list \<Rightarrow> byte list \<Rightarrow> byte list \<times> byte list" where
  "topic_loop (f # curf) (n # curn) =
     (if n = slash \<and> f \<noteq> slash then (f # curf, n # curn)
      else if f \<noteq> plus_sign \<and> f \<noteq> hash_sign \<and> f \<noteq> n then (f # curf, n # curn)
      else if f = plus_sign then topic_loop curf (tl (plus_skip (n # curn)))
      else if f = hash_sign then topic_loop curf []
      else topic_loop curf curn)"
| "topic_loop curf curn = (curf, curn)"

definition isTopicMatched :: "byte list \<Rightarrow> MQTTString \<Rightarrow> bool option" where
  "isTopicMatched topicFilter topicName = do {
     data \<leftarrow> lenstring_data topicName;
     curn \<leftarrow> slice data 0 (nat (lenstring_len topicName));
     let (f, n) = topic_loop topicFilter curn;
     Some (n = [] \<and> f = []) }"

fun deliver_loop :: "('h, 'w) caller \<Rightarrow> MessageData \<Rightarrow> nat \<Rightarrow> nat \<Rightarrow> int \<Rightarrow> 'h MQTTClient \<Rightarrow> 'w \<Rightarrow> ('h, 'w) mqtt_result" where
  "deliver_loop call md 0 i rc c w = Some (rc, c, w)"
| "deliver_loop call md (Suc k) i rc c w =
     (if i < length (messageHandlers c) then
        (case messageHandlers c ! i of
           (None, _) \<Rightarrow> deliver_loop call md k (i + 1) rc c w
         | (Some flt, fp) \<Rightarrow>
             do { same \<leftarrow> MQTTPacket_equals (fst md) flt;
                  hit \<leftarrow> (if same then Some True else isTopicMatched flt (fst md));
                  if hit then
                    (case fp of
                       None \<Rightarrow> deliver_loop call md k (i + 1) rc c w
                     | Some h \<Rightarrow> do { (c, w) \<leftarrow> call h md c w; deliver_loop call md k (i + 1) MQTT_SUCCESS c w })
                  else deliver_loop call md k (i + 1) rc c w })
      else None)"

definition deliverMessage :: "('h, 'w) caller \<Rightarrow> 'h MQTTClient \<Rightarrow> MQTTString \<Rightarrow> MQTTMessage \<Rightarrow> 'w \<Rightarrow> ('h, 'w) mqtt_result" where
  "deliverMessage call c topicName message w = do {
     (rc, c, w) \<leftarrow> deliver_loop call (NewMessageData topicName message) (length (messageHandlers c)) 0 MQTT_FAILURE c w;
     (case defaultMessageHandler c of
        Some h \<Rightarrow> if rc = MQTT_FAILURE
                  then do { (c, w) \<leftarrow> call h (NewMessageData topicName message) c w; Some (MQTT_SUCCESS, c, w) }
                  else Some (rc, c, w)
      | None \<Rightarrow> Some (rc, c, w)) }"

section \<open>Keep-alive and the receive cycle\<close>

definition keepalive :: "'w os \<Rightarrow> 'h MQTTClient \<Rightarrow> 'w \<Rightarrow> ('h, 'w) mqtt_result" where
  "keepalive os c w =
     (if keepAliveInterval c = 0 then Some (MQTT_SUCCESS, c, w)
      else
        let (e1, w) = is_expired os (ping_timer c) w;
            (due, w) = (if e1 then (True, w) else is_expired os (last_received_timer c) w)
        in if due then
             if \<not> ping_outstanding c then
               let (timer, w) = countdown_ms os 1000 w in
               do { (len, b) \<leftarrow> MQTTSerialize_pingreq (buf c) (buf_size c);
                    let c = c\<lparr>buf := b\<rparr>;
                    if len > 0 then
                      do { (rc, c, w) \<leftarrow> sendPacket os c len timer w;
                           if rc = MQTT_SUCCESS
                           then let (t, w) = countdown os (keepAliveInterval c) w
                                in Some (rc, c\<lparr>ping_response_timer := t, ping_outstanding := True\<rparr>, w)
                           else Some (rc, c, w) }
                    else Some (MQTT_FAILURE, c, w) }
             else let (e, w) = is_expired os (ping_response_timer c) w
                  in Some (MQTT_FAILURE, if e then c\<lparr>isconnected := False\<rparr> else c, w)
           else Some (MQTT_FAILURE, c, w))"

text \<open>
  The cases of the \<open>switch\<close> in \<open>cycle\<close> return the code, whether the case jumps to \<open>exit\<close>, the client and the
  world.  The out-variables of the PUBLISH case start uninitialised.
\<close>

definition publish_uninit :: publish_out where
  "publish_uninit = \<lparr>po_dup = None, po_qos = None, po_retained = None, po_packetid = None,
     po_topicName = MQTTString_initializer, po_payload = None, po_payloadlen = None\<rparr>"

type_synonym ('h, 'w) case_result = "(int \<times> bool \<times> 'h MQTTClient \<times> 'w) option"

definition cycle_publish :: "'w os \<Rightarrow> ('h, 'w) caller \<Rightarrow> 'h MQTTClient \<Rightarrow> Timer \<Rightarrow> 'w \<Rightarrow> ('h, 'w) case_result" where
  "cycle_publish os call c timer w = do {
     (r, out) \<leftarrow> MQTTDeserialize_publish publish_uninit (readbuf c);
     if r \<noteq> 1 then Some (MQTT_SUCCESS, True, c, w)
     else do {
       q \<leftarrow> po_qos out; d \<leftarrow> po_dup out; rt \<leftarrow> po_retained out;
       let msg = \<lparr>msg_qos = q, msg_retained = rt, msg_dup = d, msg_id = po_packetid out,
                  msg_payload = map_option (\<lambda>p. drop p (readbuf c)) (po_payload out),
                  msg_payloadlen = po_payloadlen out\<rparr>;
       (_, c, w) \<leftarrow> deliverMessage call c (po_topicName out) msg w;
       if msg_qos msg \<noteq> 0 then
         do { (len, b) \<leftarrow> (if msg_qos msg = 1
                then do { i \<leftarrow> msg_id msg; MQTTSerialize_ack (buf c) (buf_size c) (msgType PUBACK_MSG) 0 i }
                else if msg_qos msg = 2
                then do { i \<leftarrow> msg_id msg; MQTTSerialize_ack (buf c) (buf_size c) (msgType PUBREC_MSG) 0 i }
                else Some (0, buf c));
              let c = c\<lparr>buf := b\<rparr>;
              (rc, c, w) \<leftarrow> (if len \<le> 0 then Some (MQTT_FAILURE, c, w) else sendPacket os c len timer w);
              Some (rc, rc = MQTT_FAILURE, c, w) }
       else Some (MQTT_SUCCESS, False, c, w) } }"

definition cycle_pubrec :: "'w os \<Rightarrow> 'h MQTTClient \<Rightarrow> Timer \<Rightarrow> 'w \<Rightarrow> ('h, 'w) case_result" where
  "cycle_pubrec os c timer w = do {
     (r, out) \<leftarrow> MQTTDeserialize_ack ack_uninit (readbuf c);
     (rc, c, w) \<leftarrow>
       (if r \<noteq> 1 then Some (MQTT_FAILURE, c, w)
        else do { i \<leftarrow> ao_packetid out;
                  (len, b) \<leftarrow> MQTTSerialize_ack (buf c) (buf_size c) (msgType PUBREL_MSG) 0 i;
                  let c = c\<lparr>buf := b\<rparr>;
                  if len \<le> 0 then Some (MQTT_FAILURE, c, w)
                  else do { (rc, c, w) \<leftarrow> sendPacket os c len timer w;
                            Some (if rc \<noteq> MQTT_SUCCESS then MQTT_FAILURE else rc, c, w) } });
     Some (rc, rc = MQTT_FAILURE, c, w) }"

definition cycle_switch ::
    "'w os \<Rightarrow> ('h, 'w) caller \<Rightarrow> int \<Rightarrow> 'h MQTTClient \<Rightarrow> Timer \<Rightarrow> 'w \<Rightarrow> ('h, 'w) case_result" where
  "cycle_switch os call packet_type c timer w =
     (if packet_type = msgType CONNACK_MSG then Some (MQTT_SUCCESS, False, c\<lparr>connAckReceived := True\<rparr>, w)
      else if packet_type = msgType PUBACK_MSG then Some (MQTT_SUCCESS, False, c\<lparr>pubAckReceived := True\<rparr>, w)
      else if packet_type = msgType SUBACK_MSG then Some (MQTT_SUCCESS, False, c\<lparr>subAckReceived := True\<rparr>, w)
      else if packet_type = msgType UNSUBACK_MSG then Some (MQTT_SUCCESS, False, c\<lparr>unsubAckReceived := True\<rparr>, w)
      else if packet_type = msgType PUBLISH_MSG then cycle_publish os call c timer w
      else if packet_type = msgType PUBREC_MSG then cycle_pubrec os c timer w
      else if packet_type = msgType PUBCOMP_MSG then Some (MQTT_SUCCESS, False, c\<lparr>pubCompReceived := True\<rparr>, w)
      else if packet_type = msgType PINGRESP_MSG then Some (MQTT_SUCCESS, False, c\<lparr>ping_outstanding := False\<rparr>, w)
      else Some (MQTT_SUCCESS, False, c, w))"

definition cycle :: "'w os \<Rightarrow> ('h, 'w) caller \<Rightarrow> 'h MQTTClient \<Rightarrow> Timer \<Rightarrow> 'w \<Rightarrow> ('h, 'w) mqtt_result" where
  "cycle os call c timer w = do {
     (r, c, w) \<leftarrow> readPacket os c timer w;
     let packet_type = u16 r;
     (rc, leave, c, w) \<leftarrow> cycle_switch os call packet_type c timer w;
     (c, w) \<leftarrow> (if leave then Some (c, w) else do { (_, c, w) \<leftarrow> keepalive os c w; Some (c, w) });
     Some (if rc = MQTT_SUCCESS then packet_type else rc, c, w) }"

partial_function (option) MQTTYield_loop ::
    "'w os \<Rightarrow> ('h, 'w) caller \<Rightarrow> 'h MQTTClient \<Rightarrow> Timer \<Rightarrow> 'w \<Rightarrow> ('h, 'w) mqtt_result" where
  "MQTTYield_loop os call c timer w = do {
     (rc, c, w) \<leftarrow> cycle os call c timer w;
     if rc = MQTT_FAILURE then Some (MQTT_FAILURE, c, w)
     else (case is_expired os timer w of (e, w) \<Rightarrow>
             if e then Some (MQTT_SUCCESS, c, w) else MQTTYield_loop os call c timer w) }"

definition MQTTYield :: "'w os \<Rightarrow> ('h, 'w) caller \<Rightarrow> 'h MQTTClient \<Rightarrow> int \<Rightarrow> 'w \<Rightarrow> ('h, 'w) mqtt_result" where
  "MQTTYield os call c timeout_ms w =
     (let (timer, w) = countdown_ms os timeout_ms w in MQTTYield_loop os call c timer w)"

text \<open>\<open>MQTTRun\<close> loops for ever: its state after \<open>k\<close> rounds.\<close>

fun MQTTRun :: "nat \<Rightarrow> 'w os \<Rightarrow> ('h, 'w) caller \<Rightarrow> 'h MQTTClient \<Rightarrow> 'w \<Rightarrow> ('h MQTTClient \<times> 'w) option" where
  "MQTTRun 0 os call c w = Some (c, w)"
| "MQTTRun (Suc k) os call c w =
     (let (timer, w) = countdown_ms os 500 w in
      do { (_, c, w) \<leftarrow> cycle os call c timer w; MQTTRun k os call c w })"

section \<open>Waiting for an acknowledgement\<close>

definition ack_received :: "int \<Rightarrow> 'h MQTTClient \<Rightarrow> bool" where
  "ack_received packet_type c =
     (if packet_type = msgType CONNACK_MSG then connAckReceived c
      else if packet_type = msgType SUBACK_MSG then subAckReceived c
      else if packet_type = msgType UNSUBACK_MSG then unsubAckReceived c
      else if packet_type = msgType PUBACK_MSG then pubAckReceived c
      else if packet_type = msgType PUBCOMP_MSG then pubCompReceived c
      else False)"

definition clear_ack :: "int \<Rightarrow> 'h MQTTClient \<Rightarrow> 'h MQTTClient" where
  "clear_ack packet_type c =
     (if packet_type = msgType CONNACK_MSG then c\<lparr>connAckReceived := False\<rparr>
      else if packet_type = msgType SUBACK_MSG then c\<lparr>subAckReceived := False\<rparr>
      else if packet_type = msgType UNSUBACK_MSG then c\<lparr>unsubAckReceived := False\<rparr>
      else if packet_type = msgType PUBACK_MSG then c\<lparr>pubAckReceived := False\<rparr>
      else if packet_type = msgType PUBCOMP_MSG then c\<lparr>pubCompReceived := False\<rparr>
      else c)"

partial_function (option) waitfor_loop ::
    "'w os \<Rightarrow> ('h, 'w) caller \<Rightarrow> 'h MQTTClient \<Rightarrow> int \<Rightarrow> Timer \<Rightarrow> 'w \<Rightarrow> ('h, 'w) mqtt_result" where
  "waitfor_loop os call c packet_type timer w =
     (if ack_received packet_type c then Some (packet_type, clear_ack packet_type c, w)
      else (case is_expired os timer w of (e, w) \<Rightarrow>
        if e then Some (MQTT_FAILURE, c, w)
        else do { (_, c, w) \<leftarrow> cycle os call c timer w; waitfor_loop os call c packet_type timer w }))"

definition waitfor :: "'w os \<Rightarrow> ('h, 'w) caller \<Rightarrow> 'h MQTTClient \<Rightarrow> int \<Rightarrow> Timer \<Rightarrow> 'w \<Rightarrow> ('h, 'w) mqtt_result" where
  "waitfor os call c packet_type timer w = waitfor_loop os call (clear_ack packet_type c) packet_type timer w"

section \<open>The client operations\<close>

text \<open>\<open>MQTTConnect\<close> up to the label \<open>exit\<close>, and the whole operation; \<open>None\<close> for \<open>options\<close> is a null pointer.\<close>

definition connect_exchange ::
    "'w os \<Rightarrow> ('h, 'w) caller \<Rightarrow> 'h MQTTClient \<Rightarrow> MQTTPacket_connectData \<Rightarrow> Timer \<Rightarrow> 'w \<Rightarrow> ('h, 'w) mqtt_result" where
  "connect_exchange os call c opts connect_timer w = do {
     let c = c\<lparr>keepAliveInterval := cd_keepAliveInterval opts\<rparr>;
     let (t, w) = countdown os (keepAliveInterval c) w;
     let c = c\<lparr>ping_timer := t\<rparr>;
     (len, b) \<leftarrow> MQTTSerialize_connect (buf c) (buf_size c) opts;
     let c = c\<lparr>buf := b\<rparr>;
     if len \<le> 0 then Some (MQTT_FAILURE, c, w)
     else do {
       (rc, c, w) \<leftarrow> sendPacket os c len connect_timer w;
       if rc \<noteq> MQTT_SUCCESS then Some (rc, c, w)
       else do {
         let (c, w) = (if keepAliveInterval c > 0
            then let (t, w) = countdown os (keepAliveInterval c) w in (c\<lparr>last_received_timer := t\<rparr>, w) else (c, w));
         (r, c, w) \<leftarrow> waitfor os call c (msgType CONNACK_MSG) connect_timer w;
         if r = msgType CONNACK_MSG then
           do { (d, out) \<leftarrow> MQTTDeserialize_connack \<lparr>co_sessionPresent = 0, co_connack_rc = 255\<rparr> (readbuf c);
                Some (if d = 1 then co_connack_rc out else MQTT_FAILURE, c, w) }
         else Some (MQTT_FAILURE, c, w) } } }"

definition MQTTConnect ::
    "'w os \<Rightarrow> ('h, 'w) caller \<Rightarrow> 'h MQTTClient \<Rightarrow> MQTTPacket_connectData option \<Rightarrow> 'w \<Rightarrow> ('h, 'w) mqtt_result" where
  "MQTTConnect os call c options w = do {
     (rc, c, w) \<leftarrow>
       (if isconnected c then Some (MQTT_FAILURE, c, w)
        else let (connect_timer, w) = countdown_ms os (command_timeout_ms c) w;
                 opts = (case options of None \<Rightarrow> MQTTPacket_connectData_initializer | Some opts \<Rightarrow> opts)
             in connect_exchange os call c opts connect_timer w);
     Some (rc, if rc = MQTT_SUCCESS then c\<lparr>isconnected := True\<rparr> else c, w) }"

definition topic_of :: "byte list \<Rightarrow> MQTTString" where
  "topic_of s = MQTTString_initializer\<lparr>cstring := Some s\<rparr>"

text \<open>The loop of \<open>MQTTSubscribe\<close> over the handler table: the first free entry is taken, and \<open>rc\<close> becomes 0.\<close>

fun register_handler :: "byte list \<Rightarrow> 'h option \<Rightarrow> int \<Rightarrow> (byte list option \<times> 'h option) list \<Rightarrow>
    int \<times> (byte list option \<times> 'h option) list" where
  "register_handler topicFilter fp rc [] = (rc, [])"
| "register_handler topicFilter fp rc (entry # rest) =
     (if fst entry = None then (0, (Some topicFilter, fp) # rest)
      else let (rc, rest) = register_handler topicFilter fp rc rest in (rc, entry # rest))"

definition MQTTSubscribe ::
    "'w os \<Rightarrow> ('h, 'w) caller \<Rightarrow> 'h MQTTClient \<Rightarrow> byte list \<Rightarrow> int \<Rightarrow> 'h option \<Rightarrow> 'w \<Rightarrow> ('h, 'w) mqtt_result" where
  "MQTTSubscribe os call c topicFilter qos messageHandler w =
     (if \<not> isconnected c then Some (MQTT_FAILURE, c, w)
      else
        let (timer, w) = countdown_ms os (command_timeout_ms c) w;
            (packetid, c) = getNextPacketId c
        in do {
          (len, b) \<leftarrow> MQTTSerialize_subscribe (buf c) (buf_size c) 0 packetid 1 [topic_of topicFilter] [qos];
          let c = c\<lparr>buf := b\<rparr>;
          if len \<le> 0 then Some (MQTT_FAILURE, c, w)
          else do {
            (rc, c, w) \<leftarrow> sendPacket os c len timer w;
            if rc \<noteq> MQTT_SUCCESS then Some (rc, c, w)
            else do {
              (r, c, w) \<leftarrow> waitfor os call c (msgType SUBACK_MSG) timer w;
              if r = msgType SUBACK_MSG then
                do { (d, out) \<leftarrow> MQTTDeserialize_suback 1 \<lparr>so_packetid = None, so_count = 0, so_grantedQoSs = [-1]\<rparr> (readbuf c);
                     let rc = (if d = 1 then so_grantedQoSs out ! 0 else rc);
                     if rc \<noteq> 0x80
                     then let (rc, hs) = register_handler topicFilter messageHandler rc (messageHandlers c)
                          in Some (rc, c\<lparr>messageHandlers := hs\<rparr>, w)
                     else Some (rc, c, w) }
              else Some (MQTT_FAILURE, c, w) } } })"

definition MQTTUnsubscribe :: "'w os \<Rightarrow> ('h, 'w) caller \<Rightarrow> 'h MQTTClient \<Rightarrow> byte list \<Rightarrow> 'w \<Rightarrow> ('h, 'w) mqtt_result" where
  "MQTTUnsubscribe os call c topicFilter w =
     (if \<not> isconnected c then Some (MQTT_FAILURE, c, w)
      else
        let (timer, w) = countdown_ms os (command_timeout_ms c) w;
            (packetid, c) = getNextPacketId c
        in do {
          (len, b) \<leftarrow> MQTTSerialize_unsubscribe (buf c) (buf_size c) 0 packetid 1 [topic_of topicFilter];
          let c = c\<lparr>buf := b\<rparr>;
          if len \<le> 0 then Some (MQTT_FAILURE, c, w)
          else do {
            (rc, c, w) \<leftarrow> sendPacket os c len timer w;
            if rc \<noteq> MQTT_SUCCESS then Some (rc, c, w)
            else do {
              (r, c, w) \<leftarrow> waitfor os call c (msgType UNSUBACK_MSG) timer w;
              if r = msgType UNSUBACK_MSG then
                do { (d, _) \<leftarrow> MQTTDeserialize_unsuback None (readbuf c);
                     Some (if d = 1 then 0 else rc, c, w) }
              else Some (MQTT_FAILURE, c, w) } } })"

text \<open>The wait of \<open>MQTTPublish\<close> for PUBACK (QoS 1) or PUBCOMP (QoS 2).\<close>

definition publish_wait ::
    "'w os \<Rightarrow> ('h, 'w) caller \<Rightarrow> 'h MQTTClient \<Rightarrow> int \<Rightarrow> int \<Rightarrow> Timer \<Rightarrow> 'w \<Rightarrow> ('h, 'w) mqtt_result" where
  "publish_wait os call c packet_type rc timer w = do {
     (r, c, w) \<leftarrow> waitfor os call c packet_type timer w;
     if r = packet_type then
       do { (d, _) \<leftarrow> MQTTDeserialize_ack ack_uninit (readbuf c);
            Some (if d \<noteq> 1 then MQTT_FAILURE else rc, c, w) }
     else Some (MQTT_FAILURE, c, w) }"

text \<open>\<open>MQTTPublish\<close> also stores the packet id into the caller's message, which is returned.  With QoS 0 the id
  may be uninitialised: the serializer is passed it and does not use it.\<close>

definition MQTTPublish ::
    "'w os \<Rightarrow> ('h, 'w) caller \<Rightarrow> 'h MQTTClient \<Rightarrow> byte list \<Rightarrow> MQTTMessage \<Rightarrow> 'w \<Rightarrow>
     (int \<times> MQTTMessage \<times> 'h MQTTClient \<times> 'w) option" where
  "MQTTPublish os call c topicName message w =
     (if \<not> isconnected c then Some (MQTT_FAILURE, message, c, w)
      else
        let (timer, w) = countdown_ms os (command_timeout_ms c) w;
            (message, c) = (if msg_qos message = 1 \<or> msg_qos message = 2
               then let (i, c) = getNextPacketId c in (message\<lparr>msg_id := Some i\<rparr>, c) else (message, c))
        in do {
          packetid \<leftarrow> (if msg_qos message > 0 then msg_id message else Some 0);
          payload \<leftarrow> msg_payload message;
          payloadlen \<leftarrow> msg_payloadlen message;
          (len, b) \<leftarrow> MQTTSerialize_publish (buf c) (buf_size c) 0 (msg_qos message) (msg_retained message) packetid
                        (topic_of topicName) payload payloadlen;
          let c = c\<lparr>buf := b\<rparr>;
          if len \<le> 0 then Some (MQTT_FAILURE, message, c, w)
          else do {
            (rc, c, w) \<leftarrow> sendPacket os c len timer w;
            if rc \<noteq> MQTT_SUCCESS then Some (rc, message, c, w)
            else do {
              (rc, c, w) \<leftarrow>
                (if msg_qos message = 1 then publish_wait os call c (msgType PUBACK_MSG) rc timer w
                 else if msg_qos message = 2 then publish_wait os call c (msgType PUBCOMP_MSG) rc timer w
                 else Some (rc, c, w));
              Some (rc, message, c, w) } } })"

definition MQTTDisconnect :: "'w os \<Rightarrow> 'h MQTTClient \<Rightarrow> 'w \<Rightarrow> ('h, 'w) mqtt_result" where
  "MQTTDisconnect os c w =
     (let (timer, w) = countdown_ms os (command_timeout_ms c) w in
      do { (len, b) \<leftarrow> MQTTSerialize_disconnect (buf c) (buf_size c);
           let c = c\<lparr>buf := b\<rparr>;
           (rc, c, w) \<leftarrow> (if len > 0 then sendPacket os c len timer w else Some (MQTT_FAILURE, c, w));
           Some (rc, c\<lparr>isconnected := False, ping_outstanding := False\<rparr>, w) })"

section \<open>The topic matcher\<close>

fun join :: "byte list list \<Rightarrow> byte list" where
  "join [] = []"
| "join [x] = x"
| "join (x # y # xs) = x @ slash # join (y # xs)"

definition level_ok :: "byte list \<Rightarrow> byte list \<Rightarrow> bool" where
  "level_ok f n \<longleftrightarrow> (if f = [plus_sign] \<or> f = [hash_sign] then n \<noteq> [] else f = n)"

text \<open>Matching level by level: \<open>+\<close> stands for one non-empty level, \<open>#\<close> for all levels from a non-empty one on.\<close>

fun levels_match :: "byte list list \<Rightarrow> byte list list \<Rightarrow> bool" where
  "levels_match [f] [n] = level_ok f n"
| "levels_match [f] (n # n' # ns) = (f = [hash_sign] \<and> n \<noteq> [])"
| "levels_match (f # f' # fs) (n # n' # ns) = (level_ok f n \<and> levels_match (f' # fs) (n' # ns))"
| "levels_match (f # f' # fs) [n] = False"
| "levels_match [] ns = False"
| "levels_match (f # fs) [] = False"

definition wf_level :: "byte list \<Rightarrow> bool" where
  "wf_level f \<longleftrightarrow> f = [plus_sign] \<or> slash \<notin> set f \<and> plus_sign \<notin> set f \<and> hash_sign \<notin> set f"

fun wf_filter :: "byte list list \<Rightarrow> bool" where
  "wf_filter [f] = (f = [hash_sign] \<or> wf_level f)"
| "wf_filter (f # g # fs) = (wf_level f \<and> wf_filter (g # fs))"
| "wf_filter [] = False"

lemma tl_plus_skip: "tl (plus_skip (n # rest)) = dropWhile (\<lambda>x. x \<noteq> slash) rest"
  by (induction rest arbitrary: n) auto

definition at_break :: "byte list \<Rightarrow> bool" where
  "at_break xs \<longleftrightarrow> xs = [] \<or> hd xs = slash"

lemma topic_loop_literal:
  assumes "at_break F" and "at_break N" and "slash \<notin> set n"
    and "slash \<notin> set f" and "plus_sign \<notin> set f" and "hash_sign \<notin> set f"
  shows "topic_loop (f @ F) (n @ N) = ([], []) \<longleftrightarrow> f = n \<and> topic_loop F N = ([], [])"
  using assms(3-)
proof (induction f arbitrary: n)
  case Nil
  with assms show ?case by (cases n; cases F) (auto simp: at_break_def)
next
  case (Cons c f)
  then show ?case
    using assms(2) by (cases n; cases N) (auto simp: at_break_def)
qed

lemma topic_loop_plus:
  assumes "at_break N" and "slash \<notin> set n"
  shows "topic_loop (plus_sign # F) (n @ N) = ([], []) \<longleftrightarrow> n \<noteq> [] \<and> topic_loop F N = ([], [])"
proof (cases n)
  case Nil
  with assms show ?thesis by (cases N) (auto simp: at_break_def)
next
  case (Cons x xs)
  have "dropWhile (\<lambda>x. x \<noteq> slash) (xs @ N) = N"
    using assms Cons by (cases N) (auto simp: at_break_def dropWhile_append2 dropWhile_append3 cong: dropWhile_cong)
  with Cons assms(2) show ?thesis using tl_plus_skip [of x "xs @ N"] by auto
qed

lemma topic_loop_level:
  assumes "wf_level f" and "slash \<notin> set n" and "at_break F" and "at_break N"
  shows "topic_loop (f @ F) (n @ N) = ([], []) \<longleftrightarrow> level_ok f n \<and> topic_loop F N = ([], [])"
proof (cases "f = [plus_sign]")
  case True
  with topic_loop_plus [OF assms(4,2)] show ?thesis by (simp add: level_ok_def)
next
  case False
  with assms(1) have "slash \<notin> set f" "plus_sign \<notin> set f" "hash_sign \<notin> set f" by (auto simp: wf_level_def)
  with topic_loop_literal [OF assms(3,4,2)] False show ?thesis by (auto simp: level_ok_def)
qed

lemma topic_loop_hash: "slash \<notin> set n \<Longrightarrow> at_break N \<Longrightarrow> topic_loop [hash_sign] (n @ N) = ([], []) \<longleftrightarrow> n \<noteq> []"
  by (cases n; cases N) (auto simp: at_break_def)

lemma topic_loop_levels:
  assumes "wf_filter fs" and "\<forall>n\<in>set ns. slash \<notin> set n" and "ns \<noteq> []"
  shows "topic_loop (join fs) (join ns) = ([], []) \<longleftrightarrow> levels_match fs ns"
  using assms
proof (induction fs ns rule: levels_match.induct)
  case (1 f n)
  then show ?case
    using topic_loop_level [of f n "[]" "[]"] topic_loop_hash [of n "[]"] by (auto simp: at_break_def level_ok_def)
next
  case (2 f n n' ns)
  then show ?case
    using topic_loop_level [of f n "[]" "slash # join (n' # ns)"] topic_loop_hash [of n "slash # join (n' # ns)"]
    by (auto simp: at_break_def wf_level_def)
next
  case (3 f f' fs n n' ns)
  then show ?case
    using topic_loop_level [of f n "slash # join (f' # fs)" "slash # join (n' # ns)"] by (simp add: at_break_def)
next
  case (4 f f' fs n)
  then show ?case
    using topic_loop_level [of f n "slash # join (f' # fs)" "[]"] by (simp add: at_break_def)
qed auto

section \<open>\<open>decodePacket\<close> is the library's decoder\<close>

lemma decodePacket_loop_eq:
  "decodePacket_loop os c timeout len m v w =
     map_option (\<lambda>(n, v, net, w). (n, v, c\<lparr>ipstack := net\<rparr>, w))
       (MQTTPacket_decode_loop (esp32_getfn os timeout) (ipstack c, w) len m v)"
proof (induction os c timeout len m v w rule: decodePacket_loop.induct)
  case (1 os c timeout len m v w)
  note IH = 1
  show ?case
  proof (cases "len + 1 > MAX_NO_OF_REMAINING_LENGTH_BYTES")
    case True
    then show ?thesis by (simp add: decodePacket_loop.simps MQTTPacket_decode_loop.simps Let_def)
  next
    case fits: False
    show ?thesis
    proof (cases "esp32_read os (ipstack c) [0] 0 1 timeout w")
      case None
      with fits show ?thesis
        by (simp add: decodePacket_loop.simps [of os c] MQTTPacket_decode_loop.simps [of _ "(ipstack c, w)"] Let_def esp32_getfn_def)
    next
      case (Some r)
      obtain rc bs net w' where r: "r = (rc, bs, net, w')" by (cases r)
      have g: "esp32_getfn os timeout 1 (ipstack c, w) = Some (rc, take (nat rc) bs, (net, w'))"
        using Some r by (simp add: esp32_getfn_def)
      show ?thesis
      proof (cases "rc = 1 \<and> bs \<noteq> []")
        case False
        with fits Some r g show ?thesis
          by (auto simp: decodePacket_loop.simps [of os c] MQTTPacket_decode_loop.simps [of _ "(ipstack c, w)"] Let_def)
      next
        case True
        then obtain i more where b: "rc = 1" "bs = i # more" by (cases bs) auto
        show ?thesis
          using fits Some r g b IH [OF refl fits Some [unfolded r] refl refl refl]
          by (simp add: decodePacket_loop.simps [of os c] MQTTPacket_decode_loop.simps [of _ "(ipstack c, w)"] Let_def)
      qed
    qed
  qed
qed

section \<open>Receiving on a delivering socket\<close>

context lwip_stream
begin

lemma timer_inbox [simp]:
  "inbox (snd (left_ms os t w)) = inbox w" "inbox (snd (is_expired os t w)) = inbox w"
  "inbox (snd (countdown_ms os ms w)) = inbox w" "inbox (snd (countdown os ms w)) = inbox w"
  using clock_inbox [of w]
  by (simp_all add: left_ms_def is_expired_def countdown_ms_def countdown_def split: prod.splits) (metis snd_conv)+

lemma mqttread_complete:
  assumes "connected (ipstack c)" and "0 \<le> len" and "nat len \<le> length (inbox w)" and "off + nat len \<le> length (readbuf c)"
  shows "\<exists>w'. mqttread os c off len timeout w =
      Some (len, c\<lparr>readbuf := put off (take (nat len) (inbox w)) (readbuf c)\<rparr>, w') \<and> inbox w' = drop (nat len) (inbox w)"
  using read_complete [OF assms, of timeout] by (fastforce simp: mqttread_def)

lemma decodePacket_complete:
  assumes "connected (ipstack c)" and "inbox w = rl_bytes n @ rest" and "n < 268435456"
  shows "\<exists>w'. decodePacket os c timeout w = Some (int (length (rl_bytes n)), int n, c, w') \<and> inbox w' = rest"
proof -
  obtain w' where "MQTTPacket_decode (esp32_getfn os timeout) (ipstack c, w) =
      Some (int (length (rl_bytes n)), int n, (ipstack c, w'))" "inbox w' = rest"
    using pkt.decode_rl [of "(ipstack c, w)" n rest "ipstack c" timeout] assms by auto
  then show ?thesis by (simp add: decodePacket_def decodePacket_loop_eq MQTTPacket_decode_def)
qed

end

text \<open>What \<open>readPacket\<close> leaves in the client: the packet at the start of the read buffer, and the receive timer restarted.\<close>

definition received :: "'h MQTTClient \<Rightarrow> byte list \<Rightarrow> Timer \<Rightarrow> 'h MQTTClient" where
  "received c p t = (let c = c\<lparr>readbuf := put 0 p (readbuf c)\<rparr> in
     if keepAliveInterval c > 0 then c\<lparr>last_received_timer := t\<rparr> else c)"

lemma put_put_0: "length xs + length ys \<le> length b \<Longrightarrow> put (length xs) ys (put 0 xs b) = put 0 (xs @ ys) b"
  using put_append [of 0 xs ys b] by simp

lemma rd_put_0: "rd (put 0 (x # xs) b) 0 = Some x"
  by (simp add: rd_def put_0)

context lwip_stream
begin

lemma read_header:
  assumes "connected (ipstack c)" and "inbox w = packet h body @ rest" and "length body < 268435456" and "5 \<le> length (readbuf c)"
  shows "\<exists>w'. readPacket os c timer w =
      readPacket_body os (c\<lparr>readbuf := put 0 (h # rl_bytes (length body)) (readbuf c)\<rparr>) timer
        (1 + length (rl_bytes (length body))) (int (length body)) w' \<and> inbox w' = body @ rest"
proof -
  define rl where "rl = rl_bytes (length body)"
  obtain l1 w1 where w1: "left_ms os timer w = (l1, w1)" by fastforce
  have i1: "inbox w1 = h # rl @ body @ rest"
    using timer_inbox(1) [of timer w] w1 assms(2) by (simp add: packet_def rl_def)
  obtain w2 where w2: "mqttread os c 0 1 l1 w1 = Some (1, c\<lparr>readbuf := put 0 [h] (readbuf c)\<rparr>, w2)" "inbox w2 = rl @ body @ rest"
    using mqttread_complete [of c 1 w1 0 l1] assms(1,4) i1 by fastforce
  define c2 where "c2 = c\<lparr>readbuf := put 0 [h] (readbuf c)\<rparr>"
  obtain l3 w3 where w3: "left_ms os timer w2 = (l3, w3)" by fastforce
  have i3: "inbox w3 = rl @ body @ rest" using timer_inbox(1) [of timer w2] w3 w2(2) by simp
  obtain w4 where w4: "decodePacket os c2 l3 w3 = Some (int (length rl), int (length body), c2, w4)" "inbox w4 = body @ rest"
    using decodePacket_complete [of c2 w3 "length body" "body @ rest" l3] assms(1,3) i3 by (auto simp: rl_def c2_def)
  have "length rl \<le> 4" using length_rl_bytes_le [of "length body" 4] assms(3) by (simp add: rl_def)
  then have "MQTTPacket_encode (readbuf c2) 1 (int (length body)) = Some (put 0 (h # rl) (readbuf c), length rl)"
    using assms(4) put_put_0 [of "[h]" rl "readbuf c"] by (simp add: c2_def encode_emit emit_eq flip: rl_def)
  with w1 w2 w3 w4 show ?thesis
    by (intro exI [of _ w4]) (simp add: readPacket_def Let_def c2_def flip: rl_def)
qed

lemma readPacket_complete:
  assumes "connected (ipstack c)" and "inbox w = packet h body @ rest" and "length body < 268435456"
    and "5 \<le> length (readbuf c)" and "length (packet h body) \<le> length (readbuf c)"
  shows "\<exists>t w'. readPacket os c timer w = Some (bits_type (header_bits h), received c (packet h body) t, w') \<and>
     inbox w' = rest \<and> (\<exists>v. t = fst (countdown os (keepAliveInterval c) v))"
proof -
  define rl where "rl = rl_bytes (length body)"
  define c1 where "c1 = c\<lparr>readbuf := put 0 (h # rl) (readbuf c)\<rparr>"
  have p: "packet h body = h # rl @ body" by (simp add: packet_def rl_def)
  obtain w1 where w1: "readPacket os c timer w = readPacket_body os c1 timer (1 + length rl) (int (length body)) w1"
      "inbox w1 = body @ rest"
    using read_header [OF assms(1-4), of timer] by (auto simp: c1_def rl_def)
  obtain l2 w2 where w2: "left_ms os timer w1 = (l2, w2)" by fastforce
  define c2 where "c2 = c\<lparr>readbuf := put 0 (packet h body) (readbuf c)\<rparr>"
  have len: "1 + length rl + length body \<le> length (readbuf c)" using assms(5) p by simp
  have i2: "inbox w2 = body @ rest" using timer_inbox(1) [of timer w1] w2 w1(2) by simp
  obtain w3 where w3: "mqttread os c1 (1 + length rl) (int (length body)) l2 w2 = Some (int (length body), c2, w3)" "inbox w3 = rest"
    using mqttread_complete [of c1 "int (length body)" w2 "1 + length rl" l2] assms(1) i2 len
      put_put_0 [of "h # rl" body "readbuf c"]
    by (auto simp: c1_def c2_def p)
  define w4 where "w4 = (if body \<noteq> [] then w3 else w1)"
  have c12: "body = [] \<Longrightarrow> c1 = c2" unfolding c1_def c2_def p by simp
  have "readPacket os c timer w = (if keepAliveInterval c > 0
       then let (t, w) = countdown os (keepAliveInterval c) w4 in Some (bits_type (header_bits h), c2\<lparr>last_received_timer := t\<rparr>, w)
       else Some (bits_type (header_bits h), c2, w4))"
  proof -
    have h: "rd (readbuf c2) 0 = Some h" "keepAliveInterval c2 = keepAliveInterval c" by (simp_all add: c2_def p rd_put_0)
    show ?thesis
    proof (cases "body = []")
      case True
      with w1(1) c12 h show ?thesis by (simp add: readPacket_body_def w4_def)
    next
      case False
      with w1(1) w2 w3(1) h show ?thesis by (simp add: readPacket_body_def w4_def Let_def)
    qed
  qed
  moreover have "inbox w4 = rest" using w3(2) w1(2) by (auto simp: w4_def)
  moreover obtain t w5 where "countdown os (keepAliveInterval c) w4 = (t, w5)" by fastforce
  ultimately show ?thesis
    using timer_inbox(4) [of "keepAliveInterval c" w4]
    by (intro exI [of _ t] exI [of _ "if keepAliveInterval c > 0 then w5 else w4"])
       (auto simp: received_def Let_def c2_def intro: exI [of _ w4])
qed

end

text \<open>A packet longer than the buffer is stored past its end: nothing compares \<open>rem_len\<close> with \<open>readbuf_size\<close>.\<close>

context lwip_stream
begin

lemma read_loop_overflow:
  assumes "connected network" and "0 \<le> bytes" and "nat (len - bytes) \<le> length (inbox w)"
    and "off + nat bytes \<le> length buffer" and "length buffer < off + nat len"
  shows "esp32_read_loop os network buffer off len bytes w = None"
  using assms(2-)
proof (induction "nat (len - bytes)" arbitrary: bytes w buffer rule: less_induct)
  case less
  then have lt: "bytes < len" "inbox w \<noteq> []" by auto
  then obtain k w1 where k: "0 < k" "int k \<le> len - bytes" "k \<le> length (inbox w)"
    and r: "os_recv os (my_socket network) (len - bytes) w = (int k, take k (inbox w), w1)"
    and w1: "inbox w1 = drop k (inbox w)" "os_errno os w1 \<notin> {ENOTCONN, ECONNRESET, EPIPE}"
    using recv_delivers [of "len - bytes" w "my_socket network"] by auto
  show ?case
  proof (cases "off + nat bytes + k \<le> length buffer")
    case False
    then have "store_at buffer (off + nat bytes) (take k (inbox w)) = None"
      using k by (simp add: store_at_def emit_eq)
    with lt r assms(1) show ?thesis by (subst esp32_read_loop.simps) simp
  next
    case True
    let ?b1 = "put (off + nat bytes) (take k (inbox w)) buffer"
    have st: "store_at buffer (off + nat bytes) (take k (inbox w)) = Some ?b1" and l1: "length ?b1 = length buffer"
      using k True by (auto simp: store_at_def emit_eq)
    have "esp32_read_loop os network ?b1 off len (bytes + int k) w1 = None"
      using k less.prems l1 w1(1) True by (intro less.hyps) auto
    with lt r st w1(2) assms(1) k show ?thesis by (subst esp32_read_loop.simps) (simp add: Let_def)
  qed
qed

lemma readPacket_overflow_None:
  assumes "connected (ipstack c)" and "inbox w = packet h body @ rest" and "length body < 268435456"
    and "5 \<le> length (readbuf c)" and "length (readbuf c) < length (packet h body)"
  shows "readPacket os c timer w = None"
proof -
  define rl where "rl = rl_bytes (length body)"
  define c1 where "c1 = c\<lparr>readbuf := put 0 (h # rl) (readbuf c)\<rparr>"
  obtain w1 where w1: "readPacket os c timer w = readPacket_body os c1 timer (1 + length rl) (int (length body)) w1"
      "inbox w1 = body @ rest"
    using read_header [OF assms(1-4), of timer] by (auto simp: c1_def rl_def)
  have rl: "length rl \<le> 4" using length_rl_bytes_le [of "length body" 4] assms(3) by (simp add: rl_def)
  have b: "length (readbuf c) < 1 + length rl + length body" using assms(5) by (simp add: length_packet rl_def)
  then have "body \<noteq> []" using assms(4) rl by auto
  obtain l2 w2 where w2: "left_ms os timer w1 = (l2, w2)" by fastforce
  have i2: "inbox w2 = body @ rest" using timer_inbox(1) [of timer w1] w2 w1(2) by simp
  have l: "length (readbuf c1) = length (readbuf c)" using rl assms(4) by (simp add: c1_def)
  then have "mqttread os c1 (1 + length rl) (int (length body)) l2 w2 = None"
    using read_loop_overflow [of "ipstack c1" 0 "int (length body)"] assms(1,4) rl b i2
    by (simp add: mqttread_def esp32_read_def setsockopt_inbox c1_def)
  with w1(1) w2 \<open>body \<noteq> []\<close> show ?thesis by (simp add: readPacket_body_def)
qed

end

section \<open>A link to a broker\<close>

text \<open>
  The contract of a connection that works: the socket delivers, writes are accepted whole, and every reading of
  the clock falls into one second from time \<open>T\<close> (in microseconds), so that no timer of a second or more expires.
\<close>

locale mqtt_link = lwip_stream os inbox for os :: "'w os" and inbox +
  fixes outbox :: "'w \<Rightarrow> byte list" and T :: int
  assumes write_all: "\<exists>w'. os_write os sk bs w = (int (length bs), w') \<and> outbox w' = outbox w @ bs \<and> inbox w' = inbox w"
    and setsockopt_outbox: "outbox (os_setsockopt os sk opt iv w) = outbox w"
    and clock_outbox: "outbox (snd (os_gettimeofday os w)) = outbox w"
    and recv_outbox: "os_recv os sk n w = (rc, bs, w') \<Longrightarrow> outbox w' = outbox w"
    and clock_window: "normal (fst (os_gettimeofday os w)) \<and>
      T \<le> usecs (fst (os_gettimeofday os w)) \<and> usecs (fst (os_gettimeofday os w)) < T + 1000000"
begin

definition live :: "Timer \<Rightarrow> bool" where
  "live t \<longleftrightarrow> normal (end_time t) \<and> T + 1000000 \<le> usecs (end_time t)"

lemma live_not_expired:
  assumes "live t"
  shows "\<exists>w'. is_expired os t w = (False, w') \<and> inbox w' = inbox w \<and> outbox w' = outbox w"
proof -
  obtain now w' where now: "os_gettimeofday os w = (now, w')" by fastforce
  then have "\<not> TimerIsExpired now t"
    using clock_window [of w] assms expired_iff [of now t] by (simp add: live_def)
  then show ?thesis using now clock_inbox [of w] clock_outbox [of w] by (simp add: is_expired_def)
qed

lemma countdown_ms_live:
  assumes "1000 \<le> ms"
  shows "\<exists>t w'. countdown_ms os ms w = (t, w') \<and> live t \<and> inbox w' = inbox w \<and> outbox w' = outbox w"
proof -
  obtain now w' where "os_gettimeofday os w = (now, w')" by fastforce
  then show ?thesis using clock_window [of w] clock_inbox [of w] clock_outbox [of w] assms
    by (simp add: countdown_ms_def live_def usecs_countdownMS)
qed

lemma countdown_live:
  "\<exists>t w'. countdown os k w = (t, w') \<and> (1 \<le> k \<longrightarrow> live t) \<and> inbox w' = inbox w \<and> outbox w' = outbox w"
proof -
  obtain now w' where "os_gettimeofday os w = (now, w')" by fastforce
  then show ?thesis using clock_window [of w] clock_inbox [of w] clock_outbox [of w]
    by (simp add: countdown_def live_def usecs_countdown)
qed

lemma left_ms_link: "\<exists>l w'. left_ms os t w = (l, w') \<and> inbox w' = inbox w \<and> outbox w' = outbox w"
proof -
  obtain now w' where "os_gettimeofday os w = (now, w')" by fastforce
  then show ?thesis using clock_inbox [of w] clock_outbox [of w] by (simp add: left_ms_def)
qed

text \<open>Sending: the whole packet goes out and the ping timer is restarted.\<close>

lemma sendPacket_ok:
  assumes "live timer" and "0 < len" and "nat len \<le> length (buf c)"
  shows "\<exists>t w'. sendPacket os c len timer w = Some (MQTT_SUCCESS, c\<lparr>ping_timer := t\<rparr>, w') \<and>
     (1 \<le> keepAliveInterval c \<longrightarrow> live t) \<and> inbox w' = inbox w \<and> outbox w' = outbox w @ take (nat len) (buf c)"
proof -
  obtain w1 where w1: "is_expired os timer w = (False, w1)" "inbox w1 = inbox w" "outbox w1 = outbox w"
    using live_not_expired [OF assms(1)] by blast
  obtain l w2 where w2: "left_ms os timer w1 = (l, w2)" "inbox w2 = inbox w1" "outbox w2 = outbox w1"
    using left_ms_link by blast
  let ?w = "os_setsockopt os (my_socket (ipstack c)) SO_SNDTIMEO (rw_interval l) w2"
  let ?p = "take (nat len) (buf c)"
  obtain w3 where w3: "os_write os (my_socket (ipstack c)) ?p ?w = (len, w3)" "inbox w3 = inbox w2" "outbox w3 = outbox w2 @ ?p"
    using write_all [of "my_socket (ipstack c)" ?p ?w] assms(2,3) by (auto simp: setsockopt_inbox setsockopt_outbox)
  have "esp32_write os (ipstack c) (buf c) 0 len l w2 = Some (len, ipstack c, w3)"
    using w3 assms(2,3) by (simp add: esp32_write_def Let_def)
  then have "sendPacket_loop os c len timer 0 w = Some (len, c, w3)"
    using w1 w2 assms(2) by (simp add: sendPacket_loop.simps [of os c len timer 0] sendPacket_loop.simps [of os c len timer len])
  moreover obtain t w4 where "countdown os (keepAliveInterval c) w3 = (t, w4)" "1 \<le> keepAliveInterval c \<longrightarrow> live t"
      "inbox w4 = inbox w3" "outbox w4 = outbox w3"
    using countdown_live by blast
  ultimately show ?thesis using w1 w2 w3 by (intro exI [of _ t] exI [of _ w4]) (simp add: sendPacket_def)
qed

text \<open>Nothing that only receives writes to the link.\<close>

lemma read_loop_outbox:
  "esp32_read_loop os network buffer off len bytes w = Some (rc, b, n, w') \<Longrightarrow> outbox w' = outbox w"
proof -
  let ?P = "\<lambda>os' network buffer off len bytes w y. os' = os \<longrightarrow> outbox (snd (snd (snd y))) = outbox w"
  assume run: "esp32_read_loop os network buffer off len bytes w = Some (rc, b, n, w')"
  have "?P os network buffer off len bytes w (rc, b, n, w')"
  proof (rule esp32_read_loop.raw_induct [of ?P, OF _ run], goal_cases)
    case step: (1 loop os' network buffer off len bytes w y)
    show ?case
    proof
      assume [simp]: "os' = os"
      have IH: "loop os n b off len k v = Some y \<Longrightarrow> outbox (snd (snd (snd y))) = outbox v" for n b k v
        using step(1) by blast
      obtain rc bs w1 where r: "os_recv os (my_socket network) (len - bytes) w = (rc, bs, w1)"
        by (metis prod_cases3)
      note o = recv_outbox [OF r]
      show "outbox (snd (snd (snd y))) = outbox w"
        using step(2) r o by (auto simp: Let_def split: if_split_asm bind_split_asm dest!: IH)
    qed
  qed
  then show ?thesis by simp
qed

lemma esp32_read_outbox: "esp32_read os network buffer off len timeout w = Some (rc, b, n, w') \<Longrightarrow> outbox w' = outbox w"
  using read_loop_outbox by (fastforce simp: esp32_read_def Let_def setsockopt_outbox)

end

context mqtt_link
begin

lemma timer_outbox [simp]:
  "outbox (snd (left_ms os t w)) = outbox w" "outbox (snd (countdown os ms w)) = outbox w"
  using clock_outbox [of w] by (simp_all add: left_ms_def countdown_def split: prod.splits) (metis snd_conv)+

lemma timer_outboxD: "left_ms os t w = (l, w') \<Longrightarrow> outbox w' = outbox w" "countdown os k w = (t, w') \<Longrightarrow> outbox w' = outbox w"
  using timer_outbox(1) [of t w] timer_outbox(2) [of k w] by simp_all

lemma mqttread_outbox: "mqttread os c off len timeout w = Some (rc, c', w') \<Longrightarrow> outbox w' = outbox w"
  by (auto simp: mqttread_def split: bind_split_asm dest: esp32_read_outbox)

lemma decodePacket_outbox: "decodePacket os c timeout w = Some (n, r, c', w') \<Longrightarrow> outbox w' = outbox w"
proof -
  have "outbox (snd s') = outbox (snd s)" if "esp32_getfn os timeout k s = Some (rc, bs, s')" for k s rc bs s'
    using that by (cases s) (auto simp: esp32_getfn_def split: bind_split_asm dest: esp32_read_outbox)
  note keep = decode_loop_preserves [of "esp32_getfn os timeout" "\<lambda>s. outbox (snd s)", OF this]
  assume "decodePacket os c timeout w = Some (n, r, c', w')"
  then obtain net where "MQTTPacket_decode_loop (esp32_getfn os timeout) (ipstack c, w) 0 1 0 = Some (n, r, (net, w'))"
    by (auto simp: decodePacket_def decodePacket_loop_eq)
  from keep [OF _ this] show ?thesis by auto
qed

lemma readPacket_outbox:
  assumes "readPacket os c timer w = Some (rc, c', w')"
  shows "outbox w' = outbox w"
proof -
  have body: "outbox w' = outbox w" if "readPacket_body os c timer len n w = Some (rc, c', w')" for c len n w rc c' w'
    using that
    by (auto simp: readPacket_body_def Let_def split: bind_split_asm if_split_asm prod.split_asm
        dest!: mqttread_outbox timer_outboxD)
  show ?thesis using assms
    by (auto simp: readPacket_def Let_def split: bind_split_asm if_split_asm prod.split_asm
        dest!: mqttread_outbox decodePacket_outbox body timer_outboxD)
qed

end

section \<open>Exchanges with a broker\<close>

definition set_ack :: "int \<Rightarrow> 'h MQTTClient \<Rightarrow> 'h MQTTClient" where
  "set_ack t c =
     (if t = 2 then c\<lparr>connAckReceived := True\<rparr> else if t = 9 then c\<lparr>subAckReceived := True\<rparr>
      else if t = 11 then c\<lparr>unsubAckReceived := True\<rparr> else if t = 4 then c\<lparr>pubAckReceived := True\<rparr>
      else c\<lparr>pubCompReceived := True\<rparr>)"

lemma cycle_switch_ack: "t \<in> {2, 4, 7, 9, 11} \<Longrightarrow> cycle_switch os call t c timer w = Some (0, False, set_ack t c, w)"
  by (elim insertE emptyE; simp add: cycle_switch_def set_ack_def)

lemma ack_set_clear [simp]:
  assumes "t \<in> {2, 4, 7, 9, 11}"
  shows "\<not> ack_received t (clear_ack t c)" "ack_received t (set_ack t c)"
    "clear_ack t (set_ack t (received (clear_ack t c) p tm)) = received (clear_ack t c) p tm"
  using assms by (elim insertE emptyE; simp add: ack_received_def clear_ack_def set_ack_def received_def Let_def)+

lemma ack_keeps [simp]:
  "keepAliveInterval (set_ack t c) = keepAliveInterval c" "ping_timer (set_ack t c) = ping_timer c"
  "last_received_timer (set_ack t c) = last_received_timer c"
  "keepAliveInterval (clear_ack t c) = keepAliveInterval c" "ping_timer (clear_ack t c) = ping_timer c"
  "ipstack (clear_ack t c) = ipstack c" "readbuf (clear_ack t c) = readbuf c" "isconnected (clear_ack t c) = isconnected c"
  by (simp_all add: set_ack_def clear_ack_def)

lemma received_keeps [simp]:
  "keepAliveInterval (received c p t) = keepAliveInterval c" "ping_timer (received c p t) = ping_timer c"
  "readbuf (received c p t) = put 0 p (readbuf c)" "isconnected (received c p t) = isconnected c"
  "0 < keepAliveInterval c \<Longrightarrow> last_received_timer (received c p t) = t"
  by (simp_all add: received_def Let_def)

context mqtt_link
begin

lemma keepalive_quiet:
  assumes "0 \<le> keepAliveInterval c"
    and "1 \<le> keepAliveInterval c \<Longrightarrow> live (ping_timer c) \<and> live (last_received_timer c)"
  shows "\<exists>rc w'. keepalive os c w = Some (rc, c, w') \<and> inbox w' = inbox w \<and> outbox w' = outbox w"
proof (cases "keepAliveInterval c = 0")
  case False
  with assms have l: "live (ping_timer c)" "live (last_received_timer c)" by auto
  obtain w1 where w1: "is_expired os (ping_timer c) w = (False, w1)" "inbox w1 = inbox w" "outbox w1 = outbox w"
    using live_not_expired [OF l(1)] by blast
  obtain w2 where w2: "is_expired os (last_received_timer c) w1 = (False, w2)" "inbox w2 = inbox w1" "outbox w2 = outbox w1"
    using live_not_expired [OF l(2)] by blast
  show ?thesis using False w1 w2 by (simp add: keepalive_def)
qed (simp add: keepalive_def)

lemma cycle_ack:
  assumes "connected (ipstack c)" and "inbox w = packet h body @ rest" and "length body < 268435456"
    and "5 \<le> length (readbuf c)" and "length (packet h body) \<le> length (readbuf c)"
    and "t = bits_type (header_bits h)" and "t \<in> {2, 4, 7, 9, 11}" and "0 \<le> keepAliveInterval c"
    and "1 \<le> keepAliveInterval c \<Longrightarrow> live (ping_timer c)"
  shows "\<exists>tm w'. cycle os call c timer w = Some (t, set_ack t (received c (packet h body) tm), w') \<and>
     inbox w' = rest \<and> outbox w' = outbox w"
proof -
  obtain tm w1 v where w1: "readPacket os c timer w = Some (t, received c (packet h body) tm, w1)" "inbox w1 = rest"
      "tm = fst (countdown os (keepAliveInterval c) v)"
    using readPacket_complete [OF assms(1-5)] assms(6) by blast
  have o1: "outbox w1 = outbox w" using readPacket_outbox [OF w1(1)] .
  have tm: "1 \<le> keepAliveInterval c \<Longrightarrow> live tm"
    using w1(3) countdown_live [of "keepAliveInterval c" v] by auto
  let ?c = "set_ack t (received c (packet h body) tm)"
  obtain rc w2 where w2: "keepalive os ?c w1 = Some (rc, ?c, w2)" "inbox w2 = inbox w1" "outbox w2 = outbox w1"
    using keepalive_quiet [of ?c w1] assms(8,9) tm by auto
  have "u16 t = t" using assms(7) by auto
  then have "cycle os call c timer w = Some (t, ?c, w2)"
    using w1(1) w2(1) cycle_switch_ack [OF assms(7), of os call "received c (packet h body) tm" timer w1]
    by (simp add: cycle_def)
  with w1(2) w2 o1 show ?thesis by metis
qed

lemma waitfor_ack:
  assumes "connected (ipstack c)" and "inbox w = packet h body @ rest" and "length body < 268435456"
    and "5 \<le> length (readbuf c)" and "length (packet h body) \<le> length (readbuf c)"
    and "t = bits_type (header_bits h)" and "t \<in> {2, 4, 7, 9, 11}" and "0 \<le> keepAliveInterval c"
    and "1 \<le> keepAliveInterval c \<Longrightarrow> live (ping_timer c)" and "live timer"
  shows "\<exists>tm w'. waitfor os call c t timer w = Some (t, received (clear_ack t c) (packet h body) tm, w') \<and>
     inbox w' = rest \<and> outbox w' = outbox w"
proof -
  obtain w1 where w1: "is_expired os timer w = (False, w1)" "inbox w1 = inbox w" "outbox w1 = outbox w"
    using live_not_expired [OF assms(10)] by blast
  let ?c = "clear_ack t c"
  obtain tm w2 where w2: "cycle os call ?c timer w1 = Some (t, set_ack t (received ?c (packet h body) tm), w2)"
      "inbox w2 = rest" "outbox w2 = outbox w1"
    using cycle_ack [of ?c w1 h body rest t call timer] assms w1(2) by auto
  let ?c2 = "set_ack t (received ?c (packet h body) tm)"
  have "waitfor_loop os call ?c t timer w = waitfor_loop os call ?c2 t timer w2"
    using w1 w2 assms(7) by (subst waitfor_loop.simps) simp
  also have "\<dots> = Some (t, received ?c (packet h body) tm, w2)"
    using assms(7) by (subst waitfor_loop.simps) simp
  finally show ?thesis using w1 w2 by (auto simp: waitfor_def)
qed

end

context mqtt_link
begin

text \<open>The packets of the exchanges are at the start of their buffers.\<close>

lemma serialized:
  assumes "f = written (emit p (b, 0))" and "length p \<le> length b" and "p \<noteq> []"
  shows "f = Some (int (length p), put 0 p b)" and "take (length p) (put 0 p b) = p" and "length (put 0 p b) = length b"
  using assms by (simp_all add: written_emit put_0)

lemma connect_handshake:
  assumes "\<not> isconnected c" and "connected (ipstack c)" and "1000 \<le> command_timeout_ms c"
    and "wf_connect opts" and "0 \<le> cd_keepAliveInterval opts" and "length (connect_body opts) < 268435456"
    and "MQTTPacket_len (MQTTSerialize_connectLength opts) \<le> buf_size c" and "buf_size c \<le> int (length (buf c))"
    and "5 \<le> length (readbuf c)" and "inbox w = packet h [flags, code] @ rest" and "bits_type (header_bits h) = 2"
  shows "\<exists>c' w'. MQTTConnect os call c (Some opts) w = Some (uint code, c', w') \<and>
     isconnected c' = (code = 0) \<and> inbox w' = rest \<and> outbox w' = outbox w @ packet 0x10 (connect_body opts)"
proof -
  let ?p = "packet 0x10 (connect_body opts)" and ?a = "packet h [flags, code]"
  have fits: "length ?p \<le> length (buf c)" "?p \<noteq> []"
    using packet_fits_object [OF assms(6), of "buf_size c" "buf c"] assms(7,8) connectLength_body [OF assms(4)]
    by (simp_all add: packet_def)
  note ser = serialized [OF serialize_connect_emit [OF assms(4,7), of "buf c"] fits]
  obtain ct w1 where w1: "countdown_ms os (command_timeout_ms c) w = (ct, w1)" "live ct" "inbox w1 = inbox w" "outbox w1 = outbox w"
    using countdown_ms_live [OF assms(3)] by blast
  let ?k = "cd_keepAliveInterval opts"
  obtain t2 w2 where w2: "countdown os ?k w1 = (t2, w2)" "inbox w2 = inbox w1" "outbox w2 = outbox w1"
    using countdown_live by blast
  define c2 where "c2 = c\<lparr>keepAliveInterval := ?k, ping_timer := t2, buf := put 0 ?p (buf c)\<rparr>"
  have c2: "keepAliveInterval c2 = ?k" "buf c2 = put 0 ?p (buf c)" "readbuf c2 = readbuf c" "ipstack c2 = ipstack c"
      "isconnected c2 = isconnected c"
    by (simp_all add: c2_def)
  obtain t3 w3 where w3: "sendPacket os c2 (int (length ?p)) ct w2 = Some (0, c2\<lparr>ping_timer := t3\<rparr>, w3)"
      "1 \<le> ?k \<longrightarrow> live t3" "inbox w3 = inbox w2" "outbox w3 = outbox w2 @ ?p"
    using sendPacket_ok [OF w1(2), of "int (length ?p)" c2 w2] fits ser c2 by auto
  obtain t4 w4' where cd4: "countdown os ?k w3 = (t4, w4')" "inbox w4' = inbox w3" "outbox w4' = outbox w3"
    using countdown_live by blast
  define c4 where "c4 = (if ?k > 0 then c2\<lparr>ping_timer := t3, last_received_timer := t4\<rparr> else c2\<lparr>ping_timer := t3\<rparr>)"
  define w4 where "w4 = (if ?k > 0 then w4' else w3)"
  have w4: "inbox w4 = ?a @ rest" "outbox w4 = outbox w @ ?p"
    using cd4 w3 w2 w1 assms(10) by (simp_all add: w4_def)
  have c4: "keepAliveInterval c4 = ?k" "ping_timer c4 = t3" "readbuf c4 = readbuf c" "ipstack c4 = ipstack c"
      "isconnected c4 = isconnected c"
    by (simp_all add: c4_def c2)
  have la: "length ?a = 4" by (simp add: length_packet rl_bytes_small)
  obtain tm w5 where w5: "waitfor os call c4 2 ct w4 = Some (2, received (clear_ack 2 c4) ?a tm, w5)"
      "inbox w5 = rest" "outbox w5 = outbox w4"
    using waitfor_ack [of c4 w4 h "[flags, code]" rest 2 ct call] assms(2,5,9,11) w4(1) w3(2) w1(2) c4 la
    by (auto simp del: packet_nth_0)
  let ?c5 = "received (clear_ack 2 c4) ?a tm"
  have "readbuf ?c5 = ?a @ drop 4 (readbuf c)" using la by (simp add: put_0 c4 del: packet_nth_0)
  then have ca: "MQTTDeserialize_connack \<lparr>co_sessionPresent = 0, co_connack_rc = 255\<rparr> (readbuf ?c5) =
      Some (1, \<lparr>co_sessionPresent = uint flags div 128, co_connack_rc = uint code\<rparr>)"
    using deserialize_connack_packet [OF assms(11)] by metis
  have "connect_exchange os call c opts ct w1 = Some (uint code, ?c5, w5)"
    using w2(1) w3(1) cd4(1) w5(1) ser(1) fits ca
    by (simp add: connect_exchange_def c2_def c4_def w4_def Let_def split: if_splits)
  then show ?thesis
    using assms(1) w1(1) w5 w4(2) c4(5) by (auto simp: MQTTConnect_def Let_def uint_0_iff)
qed

end

context mqtt_link
begin

lemma publish_acked:
  fixes c :: "'h MQTTClient"
  defines "i \<equiv> fst (getNextPacketId c)"
  assumes "isconnected c" and "connected (ipstack c)" and "1000 \<le> command_timeout_ms c" and "0 \<le> keepAliveInterval c"
    and q: "(msg_qos m = 1 \<and> t = 4) \<or> (msg_qos m = 2 \<and> t = 7)"
    and "msg_payload m = Some src" and "msg_payloadlen m = Some (int n)" and "n \<le> length src" and "length topic < 65536"
    and body: "body = publish_body (msg_qos m) i (topic_of topic) (take n src)" and "length body < 268435456"
    and "MQTTPacket_len (int (length body)) \<le> buf_size c" and "buf_size c \<le> int (length (buf c))"
    and "5 \<le> length (readbuf c)" and "inbox w = packet h (int_bytes j) @ rest" and "bits_type (header_bits h) = t"
    and "0 \<le> j" and "j < 65536"
  shows "\<exists>c' w'. MQTTPublish os call c topic m w = Some (0, m\<lparr>msg_id := Some i\<rparr>, c', w') \<and>
     next_packetid c' = i \<and> inbox w' = rest \<and>
     outbox w' = outbox w @ packet (publish_header 0 (msg_qos m) (msg_retained m)) body"
proof -
  let ?p = "packet (publish_header 0 (msg_qos m) (msg_retained m)) body" and ?a = "packet h (int_bytes j)"
  have qpos: "0 < msg_qos m" "msg_qos m = 1 \<or> msg_qos m = 2" using q by auto
  have fits: "length ?p \<le> length (buf c)" "?p \<noteq> []"
    using packet_fits_object [OF assms(12-14)] by (simp_all add: packet_def)
  have wf: "wf_string (topic_of topic)" using assms(10) by (simp add: topic_of_def)
  note ser = serialized [OF serialize_publish_emit [OF wf refl assms(9), of "msg_qos m" i "buf_size c" "buf c" 0 "msg_retained m", folded body, OF assms(13)] fits]
  obtain timer w1 where w1: "countdown_ms os (command_timeout_ms c) w = (timer, w1)" "live timer" "inbox w1 = inbox w" "outbox w1 = outbox w"
    using countdown_ms_live [OF assms(4)] by blast
  define c2 where "c2 = c\<lparr>next_packetid := i, buf := put 0 ?p (buf c)\<rparr>"
  have c2: "keepAliveInterval c2 = keepAliveInterval c" "buf c2 = put 0 ?p (buf c)" "readbuf c2 = readbuf c"
      "ipstack c2 = ipstack c" "next_packetid c2 = i"
    by (simp_all add: c2_def)
  have id: "getNextPacketId c = (i, c\<lparr>next_packetid := i\<rparr>)" by (simp add: i_def getNextPacketId_def Let_def)
  obtain t3 w3 where w3: "sendPacket os c2 (int (length ?p)) timer w1 = Some (0, c2\<lparr>ping_timer := t3\<rparr>, w3)"
      "1 \<le> keepAliveInterval c \<longrightarrow> live t3" "inbox w3 = inbox w1" "outbox w3 = outbox w1 @ ?p"
    using sendPacket_ok [OF w1(2), of "int (length ?p)" c2 w1] fits ser c2 by auto
  let ?c3 = "c2\<lparr>ping_timer := t3\<rparr>"
  have la: "length ?a = 4" by (simp add: length_packet rl_bytes_small)
  have t: "t \<in> {2, 4, 7, 9, 11}" using q by auto
  obtain tm w4 where w4: "waitfor os call ?c3 t timer w3 = Some (t, received (clear_ack t ?c3) ?a tm, w4)"
      "inbox w4 = rest" "outbox w4 = outbox w3"
    using waitfor_ack [of ?c3 w3 h "int_bytes j" rest t timer call] t assms(3,5,15,16,17) w3 w1 c2 la
    by (auto simp del: packet_nth_0)
  let ?c4 = "received (clear_ack t ?c3) ?a tm"
  have "readbuf ?c4 = ?a @ drop 4 (readbuf c)" using la by (simp add: put_0 c2 del: packet_nth_0)
  then have "\<exists>out. MQTTDeserialize_ack ack_uninit (readbuf ?c4) = Some (1, out)"
    using deserialize_ack_packet [OF assms(18,19)] by metis
  then have pw: "publish_wait os call ?c3 t 0 timer w3 = Some (0, ?c4, w4)"
    using w4(1) by (auto simp: publish_wait_def)
  have "MQTTPublish os call c topic m w = Some (0, m\<lparr>msg_id := Some i\<rparr>, ?c4, w4)"
    using assms(2,7,8) w1(1) w3(1) ser(1) fits pw q qpos id by (auto simp: MQTTPublish_def c2_def Let_def)
  moreover have "next_packetid ?c4 = i" by (simp add: received_def clear_ack_def Let_def c2)
  ultimately show ?thesis using w4 w3 w1 by auto
qed

end

text \<open>A link whose clock stands still and whose peer has its bytes ready.\<close>

definition link_os :: "sim os" where
  "link_os = sim_os\<lparr>os_gettimeofday := \<lambda>w. (\<lparr>tv_sec = 5, tv_usec = 0\<rparr>, w)\<rparr>"

interpretation link: mqtt_link link_os sim_in sim_out 5000000
proof (unfold_locales, goal_cases)
  case (3 n w sk)
  then show ?case using sim.recv_delivers [of n w sk] by (simp add: link_os_def sim_os_def)
qed (auto simp: link_os_def sim_os_def normal_def usecs_def split: if_splits)

definition client0 :: "'h MQTTClient" where
  "client0 = MQTTClientInit \<lparr>next_packetid = 0, command_timeout_ms = 0, buf_size = 0, readbuf_size = 0, buf = [],
     readbuf = [], keepAliveInterval = 0, ping_outstanding = False, isconnected = False, connAckReceived = False,
     subAckReceived = False, unsubAckReceived = False, pubAckReceived = False, pubCompReceived = False,
     messageHandlers = [], defaultMessageHandler = None, userData = None, ipstack = NetworkInit, ping_timer = TimerInit,
     last_received_timer = TimerInit, ping_response_timer = TimerInit\<rparr>
     \<lparr>my_socket = 3, connected = True\<rparr> 5000 (replicate 135 0) 134 (replicate 135 0) 134"

lemma client0_simps [simp]:
  "\<not> isconnected client0" "ipstack client0 = \<lparr>my_socket = 3, connected = True\<rparr>" "command_timeout_ms client0 = 5000"
  "buf_size client0 = 134" "buf client0 = replicate 135 0" "readbuf client0 = replicate 135 0"
  "keepAliveInterval client0 = 0" "next_packetid client0 = 1"
  by (simp_all add: client0_def MQTTClientInit_def)

lemma example_keepalive [simp]: "cd_keepAliveInterval example_connect = 60"
  by (simp add: example_connect_def MQTTPacket_connectData_initializer_def)

section \<open>Properties\<close>

text \<open>C32: the topic matcher decides MQTT matching level by level.  For every well-formed filter and every name without
  wildcards in its separators, \<open>isTopicMatched\<close> is memory safe and is true exactly when the levels match: \<open>+\<close>
  stands for one non-empty level and a final \<open>#\<close> for all levels from a non-empty one on.  (The MQTT
  standard also lets \<open>+\<close> match an empty level and \<open>#\<close> the parent level.)\<close>

theorem isTopicMatched_levels:
  assumes "wf_filter fs" and "\<forall>n\<in>set ns. slash \<notin> set n" and "ns \<noteq> []"
    and "lenstring_data topicName = Some (join ns @ rest)" and "lenstring_len topicName = int (length (join ns))"
  shows "isTopicMatched (join fs) topicName = Some (levels_match fs ns)"
  using topic_loop_levels [OF assms(1-3)] assms(4,5)
  by (cases "topic_loop (join fs) (join ns)") (auto simp: isTopicMatched_def)

theorem isTopicMatched_levels_witness:
  "isTopicMatched (join [[97], [43], [35]]) \<lparr>cstring = None, lenstring_len = 5, lenstring_data = Some [97, 47, 98, 47, 99, 1]\<rparr> =
     Some True"
  using isTopicMatched_levels [of "[[97], [43], [35]]" "[[97], [98], [99]]"
      "\<lparr>cstring = None, lenstring_len = 5, lenstring_data = Some [97, 47, 98, 47, 99, 1]\<rparr>" "[1]"]
  by (simp add: wf_level_def level_ok_def)

text \<open>C9: receiving a packet.  On a delivering socket, when the next bytes are an MQTT packet that fits the read
  buffer, \<open>readPacket\<close> returns its type, with exactly the packet at the start of the buffer and exactly its bytes
  consumed.  A packet longer than the buffer is written past the end of the buffer: \<open>readPacket\<close> checks
  neither \<open>readbuf_size\<close> nor the result of \<open>decodePacket\<close>.\<close>

theorem readPacket_delivers:
  assumes "lwip_stream os inbox" and "connected (ipstack c)" and "inbox w = packet h body @ rest"
    and "length body < 268435456" and "5 \<le> length (readbuf c)"
  shows "if length (packet h body) \<le> length (readbuf c)
     then \<exists>c' w'. readPacket os c timer w = Some (bits_type (header_bits h), c', w') \<and>
       readbuf c' = put 0 (packet h body) (readbuf c) \<and> inbox w' = rest
     else readPacket os c timer w = None"
  using lwip_stream.readPacket_complete [OF assms, of timer] lwip_stream.readPacket_overflow_None [OF assms, of timer]
  by (auto simp: not_le)

theorem readPacket_delivers_witness:
  "(\<exists>c' w'. readPacket sim_os client0 TimerInit (sim0 [0x40, 2, 0, 7, 9]) = Some (4, c', w') \<and> sim_in w' = [9]) \<and>
     readPacket sim_os (client0\<lparr>readbuf := [0, 0, 0, 0, 0]\<rparr>) TimerInit (sim0 [0x40, 4, 0, 7, 9, 9]) = None"
  using readPacket_delivers [OF sim.lwip_stream_axioms, of client0 "sim0 [0x40, 2, 0, 7, 9]" "0x40" "[0, 7]" "[9]" TimerInit]
    readPacket_delivers [OF sim.lwip_stream_axioms, of "client0\<lparr>readbuf := [0, 0, 0, 0, 0]\<rparr>" "sim0 [0x40, 4, 0, 7, 9, 9]" "0x40" "[0, 7, 9, 9]" "[]" TimerInit]
  by (auto simp: sim0_def packet_def rl_bytes_small header_bits_def)

text \<open>C1: the connect handshake.  Over a working link, with options that fit the send buffer and a CONNACK from
  the broker, \<open>MQTTConnect\<close> terminates, has sent exactly the CONNECT packet, consumes exactly the CONNACK, returns the
  broker's return code, and leaves the client connected exactly when that code is 0.\<close>

theorem MQTTConnect_handshake:
  assumes "mqtt_link os inbox outbox T"
    and "\<not> isconnected c" and "connected (ipstack c)" and "1000 \<le> command_timeout_ms c"
    and "wf_connect opts" and "0 \<le> cd_keepAliveInterval opts" and "length (connect_body opts) < 268435456"
    and "MQTTPacket_len (MQTTSerialize_connectLength opts) \<le> buf_size c" and "buf_size c \<le> int (length (buf c))"
    and "5 \<le> length (readbuf c)" and "inbox w = packet h [flags, code] @ rest" and "bits_type (header_bits h) = 2"
  shows "\<exists>c' w'. MQTTConnect os call c (Some opts) w = Some (uint code, c', w') \<and>
     isconnected c' = (code = 0) \<and> inbox w' = rest \<and> outbox w' = outbox w @ packet 0x10 (connect_body opts)"
  using mqtt_link.connect_handshake [OF assms] .

theorem MQTTConnect_handshake_witness:
  "\<exists>c' w'. MQTTConnect link_os (\<lambda>h md c w. None) (client0 :: nat MQTTClient) (Some example_connect) (sim0 [0x20, 2, 0, 5]) =
     Some (5, c', w') \<and> \<not> isconnected c'"
  using MQTTConnect_handshake [OF link.mqtt_link_axioms _ _ _ example_connect_wf, of client0 "sim0 [0x20, 2, 0, 5]" "0x20" 0 5 "[]" "\<lambda>h md c w. None"]
    connectLength_body [OF example_connect_wf]
  by (simp add: sim0_def packet_def rl_bytes_small header_bits_def example_connect_body MQTTPacket_len_def) blast

text \<open>C6: publishing with acknowledgement.  Over a working link a connected client that publishes with QoS 1 (QoS 2) and
  gets a PUBACK (PUBCOMP) returns success, has sent exactly the PUBLISH packet with the next packet identifier,
  and has stored that identifier in the message.  The identifier of the acknowledgement is not compared.\<close>

theorem MQTTPublish_acknowledged:
  assumes "mqtt_link os inbox outbox T"
    and "isconnected c" and "connected (ipstack c)" and "1000 \<le> command_timeout_ms c" and "0 \<le> keepAliveInterval c"
    and "(msg_qos m = 1 \<and> t = 4) \<or> (msg_qos m = 2 \<and> t = 7)"
    and "msg_payload m = Some src" and "msg_payloadlen m = Some (int n)" and "n \<le> length src" and "length topic < 65536"
    and "body = publish_body (msg_qos m) (fst (getNextPacketId c)) (topic_of topic) (take n src)" and "length body < 268435456"
    and "MQTTPacket_len (int (length body)) \<le> buf_size c" and "buf_size c \<le> int (length (buf c))"
    and "5 \<le> length (readbuf c)" and "inbox w = packet h (int_bytes j) @ rest" and "bits_type (header_bits h) = t"
    and "0 \<le> j" and "j < 65536"
  shows "\<exists>c' w'. MQTTPublish os call c topic m w = Some (0, m\<lparr>msg_id := Some (fst (getNextPacketId c))\<rparr>, c', w') \<and>
     next_packetid c' = fst (getNextPacketId c) \<and> inbox w' = rest \<and>
     outbox w' = outbox w @ packet (publish_header 0 (msg_qos m) (msg_retained m)) body"
  using mqtt_link.publish_acked [OF assms] .

definition example_message :: MQTTMessage where
  "example_message = \<lparr>msg_qos = 1, msg_retained = 0, msg_dup = 0, msg_id = None, msg_payload = Some [104, 105], msg_payloadlen = Some 2\<rparr>"

theorem MQTTPublish_acknowledged_witness:
  "\<exists>m c' w'. MQTTPublish link_os (\<lambda>h md c w. None) (client0\<lparr>isconnected := True\<rparr> :: nat MQTTClient) [97] example_message
     (sim0 [0x40, 2, 0, 2]) = Some (0, m, c', w') \<and> sim_out w' = [0x32, 7, 0, 1, 97, 0, 2, 104, 105]"
  using MQTTPublish_acknowledged [OF link.mqtt_link_axioms, of "client0\<lparr>isconnected := True\<rparr>" example_message 4 "[104, 105]" 2 "[97]"
      "[0, 1, 97, 0, 2, 104, 105]" "sim0 [0x40, 2, 0, 2]" "0x40" 2 "[]" "\<lambda>h md c w. None"]
  by (simp add: sim0_def packet_def rl_bytes_small header_bits_def example_message_def
      MQTTPacket_len_def publish_body_def publish_header_def header_byte_def getNextPacketId_def MAX_PACKET_ID_def
      topic_of_def mqttstring_bytes_def MQTTString_initializer_def int_bytes_def) blast

text \<open>C35: \<open>decodePacket\<close>, the client's own copy of the length decoder, computes what \<open>MQTTPacket_decode\<close> computes over
  the same socket: same length, same count of bytes, same effect on the connection.\<close>

theorem decodePacket_is_MQTTPacket_decode:
  "decodePacket os c timeout w =
     map_option (\<lambda>(n, v, net, w). (n, v, c\<lparr>ipstack := net\<rparr>, w))
       (MQTTPacket_decode (esp32_getfn os timeout) (ipstack c, w))"
  by (simp add: decodePacket_def MQTTPacket_decode_def decodePacket_loop_eq)

text \<open>An operation called in the wrong connection state returns a failure at once, and touches neither the client
  nor the network: subscribe, unsubscribe and publish while disconnected, connect while connected.\<close>

lemma wrong_state_refused:
  "(\<not> isconnected c \<longrightarrow>
      MQTTSubscribe os call c topicFilter qos messageHandler w = Some (-1, c, w) \<and>
      MQTTUnsubscribe os call c topicFilter w = Some (-1, c, w) \<and>
      MQTTPublish os call c topicName message w = Some (-1, message, c, w)) \<and>
   (isconnected c \<longrightarrow> MQTTConnect os call c options w = Some (-1, c, w))"
  by (simp add: MQTTSubscribe_def MQTTUnsubscribe_def MQTTPublish_def MQTTConnect_def)

text \<open>C39: a short write is not resumed correctly.  After the socket took only \<open>k\<close> of \<open>len\<close> bytes, \<open>sendPacket\<close> asks
  it to write \<open>len\<close> bytes again from offset \<open>k\<close>, not the \<open>len - k\<close> that are left; when fewer than
  \<open>k\<close> bytes follow the packet in the send buffer it reads past the end of the buffer.\<close>

theorem sendPacket_short_write_overreads:
  assumes "is_expired os timer w = (False, w1)" and "left_ms os timer w1 = (l, w2)"
    and "esp32_write os (ipstack c) (buf c) 0 len l w2 = Some (int k, net, w3)"
    and "0 < k" and "int k < len"
    and "is_expired os timer w3 = (False, w4)" and "int (length (buf c)) < int k + len"
  shows "sendPacket os c len timer w = None"
proof -
  have "esp32_write os net (buf c) k len l' w'' = None" for l' w''
  proof -
    have "slice (buf c) k (nat len) = None" using assms(4,5,7) by (simp add: slice_def)
    then show ?thesis by (simp add: esp32_write_def Let_def)
  qed
  then have "sendPacket_loop os (c\<lparr>ipstack := net\<rparr>) len timer (int k) w3 = None"
    using assms(5,6) by (subst sendPacket_loop.simps) (simp split: prod.splits)
  then have "sendPacket_loop os c len timer 0 w = None"
    using assms by (subst sendPacket_loop.simps) simp
  then show ?thesis by (simp add: sendPacket_def)
qed

definition short_os :: "sim os" where
  "short_os = link_os\<lparr>os_write := \<lambda>sk bs w. (2, w\<lparr>sim_out := sim_out w @ take 2 bs\<rparr>)\<rparr>"

theorem sendPacket_short_write_witness:
  "sendPacket short_os (client0 :: nat MQTTClient) 134 (TimerCountdownMS \<lparr>tv_sec = 5, tv_usec = 0\<rparr> 1000) (sim0 []) = None"
  by (rule sendPacket_short_write_overreads [where k = 2 and net = "\<lparr>my_socket = 3, connected = True\<rparr>" and
        ?w1.0 = "sim0 []" and ?w2.0 = "sim0 []" and ?w3.0 = "sim0 []\<lparr>sim_out := [0, 0]\<rparr>" and ?w4.0 = "sim0 []\<lparr>sim_out := [0, 0]\<rparr>" and l = 1000])
     (simp_all add: is_expired_def left_ms_def short_os_def link_os_def sim_os_def sim0_def TimerIsExpired_def
        TimerLeftMS_def TimerCountdownMS_def timeradd_def timersub_def esp32_write_def Let_def take_replicate numeral_2_eq_2)

text \<open>C37: \<open>cycle\<close> never reports a failed read: \<open>packet_type\<close> is an \<open>unsigned short\<close>, so the \<open>MQTT_FAILURE\<close> of
  \<open>readPacket\<close> is returned as 65535, after a keep-alive check.  \<open>MQTTYield\<close>, which stops on \<open>MQTT_FAILURE\<close>, goes on.\<close>

lemma cycle_hides_read_failure:
  assumes "readPacket os c timer w = Some (-1, c1, w1)" and "keepalive os c1 w1 = Some (k, c2, w2)"
  shows "cycle os call c timer w = Some (65535, c2, w2)"
  using assms by (simp add: cycle_def cycle_switch_def u16_def)

text \<open>The keep-alive state machine.  Without an interval nothing happens; while both timers run nothing happens; when one
  has expired and no ping is outstanding a PINGREQ is sent and the response timer started; when a ping is
  outstanding and its response timer has expired the client is marked disconnected, and before that
  nothing changes.\<close>

lemma keepalive_steps:
  fixes c :: "'h MQTTClient"
  assumes "is_expired os (ping_timer c) w = (e1, w1)" and "is_expired os (last_received_timer c) w1 = (e2, w2)"
    and "(due, wd) = (if e1 then (True, w1) else (e2, w2))"
    and "is_expired os (ping_response_timer c) wd = (e3, w3)" and "countdown_ms os 1000 wd = (timer, w4)"
    and "2 \<le> buf_size c" and "buf_size c \<le> int (length (buf c))"
    and "sendPacket os (c\<lparr>buf := put 0 [0xC0, 0] (buf c)\<rparr>) 2 timer w4 = Some (r, c5, w5)"
    and "countdown os (keepAliveInterval c5) w5 = (t, w6)"
  shows "keepalive os c w =
     (if keepAliveInterval c = 0 then Some (0, c, w)
      else if \<not> due then Some (-1, c, wd)
      else if ping_outstanding c then Some (-1, if e3 then c\<lparr>isconnected := False\<rparr> else c, w3)
      else if r = 0 then Some (0, c5\<lparr>ping_response_timer := t, ping_outstanding := True\<rparr>, w6)
      else Some (r, c5, w5))"
proof -
  have "MQTTSerialize_pingreq (buf c) (buf_size c) = Some (2, put 0 [0xC0, 0] (buf c))"
    using serialize_zero_emit [OF assms(6), of "buf c" 12] assms(6,7)
    by (simp add: MQTTSerialize_pingreq_def written_emit header_byte_def)
  then show ?thesis
    using assms by (simp add: keepalive_def Let_def split: if_split_asm)
qed

end
