(* ===== verification/CayenneUtils.thy ===== *)
theory CayenneUtils
  imports CString MQTTClient
begin

text \<open>
  \<^verbatim>\<open>main/src/CayenneUtils/CayenneUtils.c\<close> with the enumerations of \<^verbatim>\<open>CayenneTopics.h\<close> and \<^verbatim>\<open>CayenneUtils.h\<close>: topic
  strings and payloads of the Cayenne cloud, built into and parsed from buffers.  The build of the
  firmware defines neither \<^verbatim>\<open>DIGITAL_AND_ANALOG_SUPPORT\<close> nor \<^verbatim>\<open>PARSE_INFO_PAYLOADS\<close>.  Strings that are inputs are
  their characters; the buffers are objects.  The parsers cut their input in place and return pointers
  into it, which are offsets here.
\<close>

section \<open>Types and constants\<close>

abbreviation CAYENNE_BUFFER_OVERFLOW :: int where "CAYENNE_BUFFER_OVERFLOW \<equiv> -2"
abbreviation CAYENNE_FAILURE :: int where "CAYENNE_FAILURE \<equiv> -1"
abbreviation CAYENNE_SUCCESS :: int where "CAYENNE_SUCCESS \<equiv> 0"

definition CAYENNE_MAX_MESSAGE_SIZE :: nat where "CAYENNE_MAX_MESSAGE_SIZE = 134"
definition CAYENNE_MAX_MESSAGE_HANDLERS :: nat where "CAYENNE_MAX_MESSAGE_HANDLERS = 5"
definition CAYENNE_MAX_MESSAGE_VALUES :: nat where "CAYENNE_MAX_MESSAGE_VALUES = 4"
definition CAYENNE_ALL_CHANNELS :: int where "CAYENNE_ALL_CHANNELS = 0xFFFF"
definition CAYENNE_NO_CHANNEL :: int where "CAYENNE_NO_CHANNEL = 0xFFFE"

datatype CayenneTopic = UNDEFINED_TOPIC | DATA_TOPIC | COMMAND_TOPIC | CONFIG_TOPIC | RESPONSE_TOPIC
  | SYS_MODEL_TOPIC | SYS_VERSION_TOPIC | SYS_CPU_MODEL_TOPIC | SYS_CPU_SPEED_TOPIC

text \<open>A unit/value pair: of strings when a payload is built, of offsets into the payload when it is parsed.\<close>

record 'p CayenneValuePair =
  vp_unit :: "'p option"
  vp_value :: "'p option"

section \<open>Building topics\<close>

definition buildTopic :: "mem \<Rightarrow> nat \<Rightarrow> byte list option \<Rightarrow> byte list option \<Rightarrow> byte list \<Rightarrow> (int \<times> mem) option" where
  "buildTopic topic len username clientID suffix =
     (case (username, clientID) of
        (Some username, Some clientID) \<Rightarrow>
          let topicLength = length username + length clientID + length suffix + 11 in
          if topicLength > len then Some (CAYENNE_BUFFER_OVERFLOW, topic)
          else do {
            topic \<leftarrow> wr topic 0 0;
            topic \<leftarrow> c_strcat topic (cs ''v1'');
            topic \<leftarrow> c_strcat topic (cs ''/'');
            topic \<leftarrow> c_strcat topic username;
            topic \<leftarrow> c_strcat topic (cs ''/things/'');
            topic \<leftarrow> c_strcat topic clientID;
            topic \<leftarrow> c_strcat topic (cs ''/'');
            topic \<leftarrow> c_strcat topic suffix;
            Some (CAYENNE_SUCCESS, topic) }
      | _ \<Rightarrow> Some (CAYENNE_FAILURE, topic))"

primrec topicString :: "CayenneTopic \<Rightarrow> string option" where
  "topicString COMMAND_TOPIC = Some ''cmd''"
| "topicString CONFIG_TOPIC = Some ''conf''"
| "topicString DATA_TOPIC = Some ''data''"
| "topicString RESPONSE_TOPIC = Some ''response''"
| "topicString SYS_MODEL_TOPIC = Some ''sys/model''"
| "topicString SYS_VERSION_TOPIC = Some ''sys/version''"
| "topicString SYS_CPU_MODEL_TOPIC = Some ''sys/cpu/model''"
| "topicString SYS_CPU_SPEED_TOPIC = Some ''sys/cpu/speed''"
| "topicString UNDEFINED_TOPIC = None"

definition buildSuffix :: "mem \<Rightarrow> nat \<Rightarrow> CayenneTopic \<Rightarrow> int \<Rightarrow> (int \<times> mem) option" where
  "buildSuffix suffix len topic channel =
     (case topicString topic of
        None \<Rightarrow> Some (CAYENNE_FAILURE, suffix)
      | Some str \<Rightarrow>
          if length str \<ge> len then Some (CAYENNE_BUFFER_OVERFLOW, suffix)
          else do {
            suffix \<leftarrow> wr suffix 0 0;
            suffix \<leftarrow> c_strcat suffix (cs str);
            if channel \<noteq> CAYENNE_NO_CHANNEL then
              do { suffix \<leftarrow> c_strcat suffix (cs ''/'');
                   if channel = CAYENNE_ALL_CHANNELS
                   then do { suffix \<leftarrow> c_strcat suffix (cs ''+''); Some (CAYENNE_SUCCESS, suffix) }
                   else do { s \<leftarrow> cstr_at suffix 0;
                             suffix \<leftarrow> c_snprintf suffix (length s) (len - length s) (dec (nat channel));
                             Some (CAYENNE_SUCCESS, suffix) } }
            else Some (CAYENNE_SUCCESS, suffix) })"

text \<open>\<open>topicMatches\<close>: the loop is word for word that of \<open>isTopicMatched\<close>.\<close>

definition topicMatches :: "byte list \<Rightarrow> mem \<Rightarrow> nat \<Rightarrow> int \<Rightarrow> bool option" where
  "topicMatches filter_str topicName off topicNameLen = do {
     curn \<leftarrow> slice topicName off (nat topicNameLen);
     let (f, n) = topic_loop filter_str curn;
     Some (n = [] \<and> f = []) }"

definition CayenneBuildTopic ::
    "mem \<Rightarrow> nat \<Rightarrow> byte list option \<Rightarrow> byte list option \<Rightarrow> CayenneTopic \<Rightarrow> int \<Rightarrow> (int \<times> mem) option" where
  "CayenneBuildTopic topicName len username clientID topic channel = do {
     (result, channelSuffix) \<leftarrow> buildSuffix (replicate 20 0) 20 topic channel;
     if result \<noteq> CAYENNE_SUCCESS then Some (result, topicName)
     else do { suffix \<leftarrow> cstr_at channelSuffix 0; buildTopic topicName len username clientID suffix } }"

section \<open>Building payloads\<close>

definition UNIT_UNDEFINED :: "byte list" where "UNIT_UNDEFINED = cs ''null''"

fun payload_length :: "byte list option \<Rightarrow> byte list CayenneValuePair list \<Rightarrow> nat" where
  "payload_length type [] = 0"
| "payload_length type (v # vs) =
     (case vp_unit v of
        Some u \<Rightarrow> length u + 1
      | None \<Rightarrow> if type \<noteq> None then length UNIT_UNDEFINED + 1 else 0)
     + (case vp_value v of Some x \<Rightarrow> length x + 1 | None \<Rightarrow> 0) + payload_length type vs"

fun payload_units :: "byte list option \<Rightarrow> byte list CayenneValuePair list \<Rightarrow> mem \<Rightarrow> mem option" where
  "payload_units type [] payload = Some payload"
| "payload_units type (v # vs) payload = do {
     c \<leftarrow> rd payload 0;
     payload \<leftarrow> (if c \<noteq> 0 then c_strcat payload (cs '','') else Some payload);
     payload \<leftarrow> (case vp_unit v of
        Some u \<Rightarrow> c_strcat payload u
      | None \<Rightarrow> if type \<noteq> None then c_strcat payload UNIT_UNDEFINED else Some payload);
     payload_units type vs payload }"

fun payload_values :: "byte list CayenneValuePair list \<Rightarrow> mem \<Rightarrow> mem option" where
  "payload_values [] payload = Some payload"
| "payload_values (v # vs) payload =
     (case vp_value v of
        None \<Rightarrow> Some payload
      | Some x \<Rightarrow> do {
          payload \<leftarrow> c_strcat payload x;
          payload \<leftarrow> (if vs \<noteq> [] then c_strcat payload (cs '','') else Some payload);
          payload_values vs payload })"

text \<open>
  \<open>CayenneBuildDataPayload\<close> returns its code, the buffer and \<open>*length\<close>; \<open>values\<close> is the array, of which the
  first \<open>valueCount\<close> entries are read.  The final decrement is on a 32-bit \<open>size_t\<close>.
\<close>

definition CayenneBuildDataPayload ::
    "mem \<Rightarrow> nat \<Rightarrow> byte list option \<Rightarrow> byte list CayenneValuePair list \<Rightarrow> nat \<Rightarrow> (int \<times> mem \<times> int) option" where
  "CayenneBuildDataPayload payload len type values valueCount =
     (if valueCount > length values then None
      else
        let vs = take valueCount values;
            payloadLength = payload_length type vs + (case type of Some t \<Rightarrow> length t + 1 | None \<Rightarrow> 0)
        in if payloadLength > len then Some (CAYENNE_BUFFER_OVERFLOW, payload, int len)
           else do {
             payload \<leftarrow> wr payload 0 0;
             payload \<leftarrow> (case type of Some t \<Rightarrow> c_strcat payload t | None \<Rightarrow> Some payload);
             payload \<leftarrow> payload_units type vs payload;
             c \<leftarrow> rd payload 0;
             payload \<leftarrow> (if c \<noteq> 0 \<and> vs \<noteq> [] \<and> vp_value (hd vs) \<noteq> None then c_strcat payload (cs ''='') else Some payload);
             payload \<leftarrow> payload_values vs payload;
             Some (CAYENNE_SUCCESS, payload, (int payloadLength - 1) mod 4294967296) })"

definition CayenneBuildResponsePayload ::
    "mem \<Rightarrow> nat \<Rightarrow> byte list option \<Rightarrow> byte list option \<Rightarrow> (int \<times> mem \<times> int) option" where
  "CayenneBuildResponsePayload payload len id_str error =
     (let values = [\<lparr>vp_unit = id_str, vp_value = error\<rparr>] in
      if error \<noteq> None then CayenneBuildDataPayload payload len (Some (cs ''error'')) values 1
      else CayenneBuildDataPayload payload len (Some (cs ''ok'')) values 1)"

section \<open>Parsing\<close>

text \<open>\<open>getValueCount\<close>: the code and \<open>*count\<close>.\<close>

fun value_count_loop :: "byte \<Rightarrow> byte list \<Rightarrow> nat \<Rightarrow> nat \<Rightarrow> bool \<Rightarrow> nat \<times> nat \<times> bool" where
  "value_count_loop token [] unitCount valueCount counting = (unitCount, valueCount, counting)"
| "value_count_loop token (c # rest) unitCount valueCount counting =
     (if c = 44 then
        if counting then value_count_loop token rest unitCount (valueCount + 1) counting
        else value_count_loop token rest (unitCount + 1) valueCount counting
      else if c = token then value_count_loop token rest unitCount (valueCount + 1) True
      else value_count_loop token rest unitCount valueCount counting)"

definition getValueCount :: "byte list \<Rightarrow> byte \<Rightarrow> int \<times> nat" where
  "getValueCount payload token =
     (if token = 0 then (CAYENNE_SUCCESS, 1)
      else let (unitCount, valueCount, counting) = value_count_loop token payload 0 0 False in
           if counting then
             if valueCount \<noteq> unitCount \<and> \<not> (unitCount = 0 \<and> valueCount = 1) then (CAYENNE_FAILURE, 0)
             else (CAYENNE_SUCCESS, valueCount)
           else (CAYENNE_SUCCESS, 1))"

type_synonym parsed = "nat CayenneValuePair list \<times> nat option \<times> mem"

function parsePayload_loop :: "byte \<Rightarrow> nat \<Rightarrow> nat \<Rightarrow> bool \<Rightarrow> nat \<Rightarrow> parsed \<Rightarrow> parsed option" where
  "parsePayload_loop token valuesSize index parsingValues valueIndex (values, type, payload) =
     (case rd payload index of
        None \<Rightarrow> None
      | Some c \<Rightarrow>
          if c = 0 then Some (values, type, payload)
          else if c = 44 then
            let values = (if valueIndex < valuesSize then
                  if parsingValues then values[valueIndex := (values ! valueIndex)\<lparr>vp_value := Some (index + 1)\<rparr>]
                  else values[valueIndex := (values ! valueIndex)\<lparr>vp_unit := Some (index + 1)\<rparr>]
                else values);
                st = (values, Some 0, payload[index := 0])
            in if token = 0 then Some st
               else parsePayload_loop token valuesSize (index + 1) parsingValues (valueIndex + 1) st
          else if c = token \<and> \<not> parsingValues then
            Some (values[0 := (values ! 0)\<lparr>vp_value := Some (index + 1)\<rparr>], Some 0, payload[index := 0])
          else parsePayload_loop token valuesSize (index + 1) parsingValues valueIndex (values, type, payload))"
  by pat_completeness auto
termination
  by (relation "measure (\<lambda>(t, n, index, p, v, (vs, ty, payload)). length payload - index)")
     (auto simp: rd_def split: if_splits)

declare parsePayload_loop.simps [simp del]

text \<open>
  \<open>parsePayload\<close>: in this build \<open>count\<close> is 1, so the loop stops at the first separator of unit and value, and
  \<open>*valuesSize\<close> becomes 1.  An entry of \<open>values\<close> that does not exist is an access outside the array.
\<close>

definition parsePayload :: "nat CayenneValuePair list \<Rightarrow> nat \<Rightarrow> mem \<Rightarrow> byte \<Rightarrow> (int \<times> nat CayenneValuePair list \<times> nat \<times> nat option \<times> mem) option" where
  "parsePayload values valuesSize payload token =
     (if values = [] \<or> valuesSize > length values then None
      else do {
        let values = values[0 := \<lparr>vp_unit = None, vp_value = None\<rparr>];
        (values, type, payload) \<leftarrow> parsePayload_loop token valuesSize 0 (token = 0) 0 (values, None, payload);
        Some (CAYENNE_SUCCESS, values, 1, type, payload) })"

definition parseTopics :: "(CayenneTopic \<times> int) list" where
  "parseTopics = [(COMMAND_TOPIC, CAYENNE_ALL_CHANNELS), (CONFIG_TOPIC, CAYENNE_ALL_CHANNELS)]"

fun find_topic :: "(CayenneTopic \<times> int) list \<Rightarrow> mem \<Rightarrow> nat \<Rightarrow> int \<Rightarrow> (CayenneTopic \<times> int) option option" where
  "find_topic [] topicName index len = Some None"
| "find_topic ((t, ch) # rest) topicName index len = do {
     (result, channelSuffix) \<leftarrow> buildSuffix (replicate 32 0) 32 t ch;
     if result = CAYENNE_SUCCESS then
       do { s \<leftarrow> cstr_at channelSuffix 0;
            m \<leftarrow> topicMatches s topicName index len;
            if m then Some (Some (t, ch)) else find_topic rest topicName index len }
     else find_topic rest topicName index len }"

text \<open>The number behind the last slash of the suffix, when it is written in canonical decimal form.\<close>

definition parse_channel :: "byte list \<Rightarrow> int option" where
  "parse_channel bytes =
     (let buffer = takeWhile (\<lambda>x. x \<noteq> 0) bytes in
      case rfind_index slash buffer of
        None \<Rightarrow> None
      | Some k \<Rightarrow>
          let channelIndex = drop (k + 1) buffer;
              (channelNumber, indexEnd) = c_strtoul channelIndex;
              first = (case channelIndex of [] \<Rightarrow> 0 | c # _ \<Rightarrow> c)
          in if indexEnd = [] \<and>
                ((channelNumber \<noteq> 0 \<and> first \<noteq> 48) \<or> (channelNumber = 0 \<and> first = 48 \<and> length channelIndex = 1))
             then Some channelNumber else None)"

record parse_topic_out =
  pt_topic :: CayenneTopic
  pt_channel :: int
  pt_clientID :: nat

text \<open>
  \<open>CayenneParseTopic\<close>: the code, the out-parameters when the code is success, and the topic buffer, in which
  the slash behind the client id has become a NUL.  \<open>length\<close> is a 32-bit unsigned number.
\<close>

definition CayenneParseTopic ::
    "byte list \<Rightarrow> mem \<Rightarrow> int \<Rightarrow> (int \<times> parse_topic_out option \<times> mem) option" where
  "CayenneParseTopic username topicName len =
     (if len > int CAYENNE_MAX_MESSAGE_SIZE then Some (CAYENNE_BUFFER_OVERFLOW, None, topicName)
      else do {
        version \<leftarrow> strncmp0 2 (cs ''v1'' @ [0]) topicName;
        if \<not> version then Some (CAYENNE_FAILURE, None, topicName)
        else do {
          let index = 2 + 1;
          user \<leftarrow> strncmp0 (length username) (username @ [0]) (drop index topicName);
          if \<not> user then Some (CAYENNE_FAILURE, None, topicName)
          else do {
            let index = index + length username;
            things \<leftarrow> strncmp0 8 (drop index topicName) (cs ''/things/'' @ [0]);
            if \<not> things then Some (CAYENNE_FAILURE, None, topicName)
            else do {
              let index = index + 8;
              deviceIDEnd \<leftarrow> c_strchr topicName index slash;
              (case deviceIDEnd of
                 None \<Rightarrow> Some (CAYENNE_FAILURE, None, topicName)
               | Some e \<Rightarrow>
                   let clientID = index; topicName = topicName[e := 0]; index = e + 1;
                       len = (len - int index) mod 4294967296
                   in do {
                     found \<leftarrow> find_topic parseTopics topicName index len;
                     (case found of
                        None \<Rightarrow> Some (CAYENNE_FAILURE, None, topicName)
                      | Some (topic, ch) \<Rightarrow>
                          if ch \<noteq> CAYENNE_NO_CHANNEL then
                            if len = 0 \<or> len > 31 then Some (CAYENNE_FAILURE, None, topicName)
                            else do {
                              bytes \<leftarrow> slice topicName index (nat len);
                              let channel = (case parse_channel bytes of Some n \<Rightarrow> n | None \<Rightarrow> CAYENNE_NO_CHANNEL);
                              Some (CAYENNE_SUCCESS, Some \<lparr>pt_topic = topic, pt_channel = channel, pt_clientID = clientID\<rparr>, topicName) }
                          else Some (CAYENNE_SUCCESS, Some \<lparr>pt_topic = topic, pt_channel = CAYENNE_NO_CHANNEL, pt_clientID = clientID\<rparr>, topicName)) }) } } } })"

record parse_payload_out =
  pp_values :: "nat CayenneValuePair list"
  pp_count :: nat
  pp_type :: "nat option"
  pp_id :: "nat option"

definition CayenneParsePayload ::
    "nat CayenneValuePair list \<Rightarrow> nat \<Rightarrow> CayenneTopic \<Rightarrow> mem \<Rightarrow> (int \<times> parse_payload_out \<times> mem) option" where
  "CayenneParsePayload values valuesSize topic payload =
     (if valuesSize = 0 then Some (CAYENNE_FAILURE, \<lparr>pp_values = values, pp_count = 0, pp_type = None, pp_id = None\<rparr>, payload)
      else if valuesSize > length values then None
      else do {
        let values = replicate valuesSize \<lparr>vp_unit = None, vp_value = None\<rparr> @ drop valuesSize values;
        (values, n, type, idp, payload, failed) \<leftarrow>
          (if topic = COMMAND_TOPIC then
             do { (_, values, n, type, payload) \<leftarrow> parsePayload values valuesSize payload 0;
                  Some (values, n, None, type, payload, vp_value (values ! 0) = None) }
           else Some (values, valuesSize, None, None, payload, False));
        if failed then Some (CAYENNE_FAILURE, \<lparr>pp_values = values, pp_count = n, pp_type = type, pp_id = idp\<rparr>, payload)
        else if vp_value (values ! 0) = None
        then Some (CAYENNE_SUCCESS, \<lparr>pp_values = values[0 := \<lparr>vp_unit = None, vp_value = Some 0\<rparr>], pp_count = 1,
                     pp_type = None, pp_id = None\<rparr>, payload)
        else Some (CAYENNE_SUCCESS, \<lparr>pp_values = values, pp_count = n, pp_type = type, pp_id = idp\<rparr>, payload) })"

section \<open>Topics\<close>

definition topic_text :: "byte list \<Rightarrow> byte list \<Rightarrow> byte list \<Rightarrow> byte list" where
  "topic_text username clientID suffix = cs ''v1/'' @ username @ cs ''/things/'' @ clientID @ cs ''/'' @ suffix"

definition suffix_text :: "CayenneTopic \<Rightarrow> int \<Rightarrow> byte list" where
  "suffix_text topic channel = cs (the (topicString topic)) @
     (if channel = CAYENNE_NO_CHANNEL then [] else if channel = CAYENNE_ALL_CHANNELS then cs ''/+'' else cs ''/'' @ dec (nat channel))"

text \<open>Strings that a NUL-terminated buffer can hold.\<close>

definition text_ok :: "byte list \<Rightarrow> bool" where
  "text_ok s \<longleftrightarrow> 0 \<notin> set s"

lemma text_ok_simps [simp]: "text_ok []" "text_ok (x # s) \<longleftrightarrow> x \<noteq> 0 \<and> text_ok s" "text_ok (s @ t) \<longleftrightarrow> text_ok s \<and> text_ok t" "text_ok (dec n)"
  using dec_not_special by (auto simp: text_ok_def)

lemma strcat_ok: "text_ok x \<Longrightarrow> c_strcat (x @ 0 # r) s =
     (if length s \<le> length r then Some ((x @ s) @ 0 # drop (length s) r) else None)"
  by (simp add: text_ok_def)

fun strcats :: "byte list list \<Rightarrow> mem \<Rightarrow> mem option" where
  "strcats [] b = Some b"
| "strcats (s # ss) b = c_strcat b s \<bind> strcats ss"

lemma strcats_ok:
  "text_ok x \<Longrightarrow> \<forall>s\<in>set ss. text_ok s \<Longrightarrow> strcats ss (x @ 0 # r) =
     (if length (concat ss) \<le> length r then Some ((x @ concat ss) @ 0 # drop (length (concat ss)) r) else None)"
proof (induction ss arbitrary: x r)
  case (Cons s ss)
  show ?case
  proof (cases "length s \<le> length r")
    case True
    then have "strcats (s # ss) (x @ 0 # r) = strcats ss ((x @ s) @ 0 # drop (length s) r)"
      using Cons.prems by (simp add: strcat_ok)
    also have "\<dots> = (if length (concat ss) \<le> length (drop (length s) r)
        then Some (((x @ s) @ concat ss) @ 0 # drop (length (concat ss)) (drop (length s) r)) else None)"
      using Cons.prems by (intro Cons.IH) auto
    finally show ?thesis using True by (auto simp: add.commute)
  qed (use Cons.prems in \<open>simp add: strcat_ok\<close>)
qed simp

lemma strcats_start:
  assumes "0 < length b" and "\<forall>s\<in>set ss. text_ok s"
  shows "wr b 0 0 \<bind> strcats ss =
     (if length (concat ss) < length b then Some (concat ss @ 0 # drop (length (concat ss) + 1) b) else None)"
proof -
  obtain h r where b: "b = h # r" using assms(1) by (cases b) auto
  show ?thesis using strcats_ok [of "[]" ss r] assms(2) by (simp add: b wr_def)
qed

declare strcats.simps [simp del]

lemma buildTopic_eq:
  assumes "text_ok u" and "text_ok c" and "text_ok s" and "length topic = len"
  shows "buildTopic topic len (Some u) (Some c) s =
     (if length u + length c + length s + 11 > len then Some (-2, topic)
      else if length u + length c + length s + 13 > len then None
      else Some (0, topic_text u c s @ 0 # drop (length (topic_text u c s) + 1) topic))"
proof (cases "length u + length c + length s + 11 > len")
  case False
  define ss where "ss = [cs ''v1'', cs ''/'', u, cs ''/things/'', c, cs ''/'', s]"
  have "buildTopic topic len (Some u) (Some c) s = wr topic 0 0 \<bind> strcats ss \<bind> (\<lambda>t. Some (0, t))"
    using False by (simp add: buildTopic_def strcats.simps ss_def)
  moreover have "concat ss = topic_text u c s" "length (topic_text u c s) = length u + length c + length s + 12"
    by (simp_all add: topic_text_def cs_def ss_def)
  moreover have "\<forall>s\<in>set ss. text_ok s" using assms by (simp add: cs_def ss_def)
  moreover have "0 < length topic" using False assms(4) by simp
  ultimately have "buildTopic topic len (Some u) (Some c) s =
      (if length u + length c + length s + 12 < len then Some (topic_text u c s @ 0 # drop (length (topic_text u c s) + 1) topic)
       else None) \<bind> (\<lambda>t. Some (0, t))"
    using strcats_start [of topic ss] assms(4) by simp
  then show ?thesis using False by simp
qed (simp add: buildTopic_def)

lemma buildSuffix_eq:
  assumes "topicString topic = Some str" and "0 \<le> channel" and "length (suffix_text topic channel) < len"
  shows "buildSuffix (replicate len 0) len topic channel =
     Some (0, suffix_text topic channel @ 0 # replicate (len - length (suffix_text topic channel) - 1) 0)"
proof -
  have str: "text_ok (cs str)" "length (cs str) = length str"
    using assms(1) by (cases topic) (auto simp: cs_def)
  have l: "length str < len" "0 < len" using assms by (auto simp: suffix_text_def cs_def)
  consider "channel = CAYENNE_NO_CHANNEL" | "channel = CAYENNE_ALL_CHANNELS" "channel \<noteq> CAYENNE_NO_CHANNEL"
    | "channel \<noteq> CAYENNE_NO_CHANNEL" "channel \<noteq> CAYENNE_ALL_CHANNELS" by blast
  then show ?thesis
  proof cases
    case 1
    then have "buildSuffix (replicate len 0) len topic channel =
        wr (replicate len 0) 0 0 \<bind> strcats [cs str] \<bind> (\<lambda>t. Some (0, t))"
      using l assms(1) by (simp add: buildSuffix_def strcats.simps)
    with 1 show ?thesis
      using strcats_start [of "replicate len 0" "[cs str]"] assms str l by (simp add: suffix_text_def)
  next
    case 2
    then have "buildSuffix (replicate len 0) len topic channel =
        wr (replicate len 0) 0 0 \<bind> strcats [cs str, cs ''/'', cs ''+''] \<bind> (\<lambda>t. Some (0, t))"
      using l assms(1) by (simp add: buildSuffix_def strcats.simps)
    with 2 show ?thesis
      using strcats_start [of "replicate len 0" "[cs str, cs ''/'', cs ''+'']"] assms str l 2
      by (simp add: suffix_text_def cs_def del: Option.bind_assoc)
  next
    case 3
    let ?n = "len - length str - 2" and ?x = "cs str @ cs ''/''"
    have "buildSuffix (replicate len 0) len topic channel =
        wr (replicate len 0) 0 0 \<bind> strcats [cs str, cs ''/''] \<bind>
        (\<lambda>suffix. do { s \<leftarrow> cstr_at suffix 0;
             suffix \<leftarrow> c_snprintf suffix (length s) (len - length s) (dec (nat channel));
             Some (CAYENNE_SUCCESS, suffix) })"
      using l assms(1) 3 by (simp add: buildSuffix_def strcats.simps)
    also have "wr (replicate len 0) 0 0 \<bind> strcats [cs str, cs ''/''] = Some (?x @ 0 # replicate ?n 0)"
      using strcats_start [of "replicate len 0" "[cs str, cs ''/'']"] str l assms 3 by (simp add: suffix_text_def cs_def)
    also have "Some (?x @ 0 # replicate ?n 0) \<bind>
        (\<lambda>suffix. do { s \<leftarrow> cstr_at suffix 0;
             suffix \<leftarrow> c_snprintf suffix (length s) (len - length s) (dec (nat channel));
             Some (CAYENNE_SUCCESS, suffix) }) = do {
             suffix \<leftarrow> c_snprintf (?x @ 0 # replicate ?n 0) (length ?x) (len - length ?x) (dec (nat channel));
             Some (CAYENNE_SUCCESS, suffix) }"
    proof -
      have "cstr_at (?x @ 0 # replicate ?n 0) 0 = Some ?x"
        by (rule cstr_at_0) (use str in \<open>simp add: text_ok_def cs_def\<close>)
      then show ?thesis by (simp only: Option.bind.simps)
    qed
    also have "\<dots> = Some (0, suffix_text topic channel @ 0 # replicate (len - length (suffix_text topic channel) - 1) 0)"
      using assms 3 str by (simp add: c_snprintf_def emit_eq put_def suffix_text_def cs_def)
    finally show ?thesis .
  qed
qed

section \<open>Parsing what was built\<close>

lemma parse_channel_dec:
  assumes "0 \<notin> set x" and "n < 4294967296"
  shows "parse_channel (x @ slash # dec n) = Some (int n)"
proof -
  have nul: "takeWhile (\<lambda>b. b \<noteq> 0) (x @ slash # dec n) = x @ slash # dec n"
    using assms(1) dec_not_special by (auto simp: takeWhile_eq_all_conv)
  have sl: "rfind_index slash (x @ slash # dec n) = Some (length x)"
    using dec_not_special by (intro rfind_index_app) blast
  obtain d ds where d: "dec n = d # ds" by (cases "dec n") auto
  then have "0 < n \<Longrightarrow> d \<noteq> 48" "n = 0 \<Longrightarrow> d = 48 \<and> ds = []" using dec_hd [of n] by auto
  with strtoul_dec [OF assms(2)] d show ?thesis
    unfolding parse_channel_def nul Let_def sl option.case by auto
qed

lemma suffix_matches:
  assumes "t \<in> {COMMAND_TOPIC, CONFIG_TOPIC}" and "t' \<in> {COMMAND_TOPIC, CONFIG_TOPIC}"
  shows "topic_loop (suffix_text t' CAYENNE_ALL_CHANNELS) (cs (the (topicString t)) @ slash # dec n) = ([], []) \<longleftrightarrow> t = t'"
proof -
  let ?s = "\<lambda>t. cs (the (topicString t))"
  have "slash \<notin> set (dec n)" using dec_not_special by blast
  then have "\<forall>x\<in>set [?s t, dec n]. slash \<notin> set x" using assms(1) by (auto simp: cs_def)
  moreover have "wf_filter [?s t', [plus_sign]]" using assms(2) by (auto simp: wf_level_def cs_def)
  ultimately have "topic_loop (join [?s t', [plus_sign]]) (join [?s t, dec n]) = ([], []) \<longleftrightarrow>
      levels_match [?s t', [plus_sign]] [?s t, dec n]"
    by (intro topic_loop_levels) auto
  then show ?thesis
    using assms by (auto simp: suffix_text_def level_ok_def cs_def CAYENNE_ALL_CHANNELS_def CAYENNE_NO_CHANNEL_def)
qed

lemma find_topic_built:
  assumes "t \<in> {COMMAND_TOPIC, CONFIG_TOPIC}" and "drop i b = (cs (the (topicString t)) @ slash # dec n) @ rest"
    and "len = int (length (cs (the (topicString t)) @ slash # dec n))"
  shows "find_topic parseTopics b i len = Some (Some (t, CAYENNE_ALL_CHANNELS))"
proof -
  define x where "x = cs (the (topicString t)) @ slash # dec n"
  have x: "drop i b = x @ rest" "nat len = length x" "0 < length x" using assms(2,3) by (simp_all add: x_def del: of_nat_Suc)
  then have sl: "slice b i (nat len) = Some x" by (simp add: slice_at)
  have sfx: "\<exists>m. buildSuffix (replicate 32 0) 32 t' CAYENNE_ALL_CHANNELS = Some (0, m) \<and>
      cstr_at m 0 = Some (suffix_text t' CAYENNE_ALL_CHANNELS)" if "t' \<in> {COMMAND_TOPIC, CONFIG_TOPIC}" for t'
  proof -
    have "0 \<notin> set (suffix_text t' CAYENNE_ALL_CHANNELS)" "length (suffix_text t' CAYENNE_ALL_CHANNELS) < 32"
      using that by (auto simp: suffix_text_def cs_def CAYENNE_ALL_CHANNELS_def CAYENNE_NO_CHANNEL_def)
    moreover have "topicString t' = Some (the (topicString t'))" using that by auto
    ultimately show ?thesis
      using buildSuffix_eq [of t' "the (topicString t')" CAYENNE_ALL_CHANNELS 32] by (simp add: CAYENNE_ALL_CHANNELS_def)
  qed
  have m: "topicMatches (suffix_text t' CAYENNE_ALL_CHANNELS) b i len = Some (t = t')"
    if "t' \<in> {COMMAND_TOPIC, CONFIG_TOPIC}" for t'
    using suffix_matches [OF assms(1) that, of n] sl
    by (cases "topic_loop (suffix_text t' CAYENNE_ALL_CHANNELS) x") (auto simp: topicMatches_def x_def)
  obtain m1 m2 where "buildSuffix (replicate 32 0) 32 COMMAND_TOPIC CAYENNE_ALL_CHANNELS = Some (0, m1)"
    "cstr_at m1 0 = Some (suffix_text COMMAND_TOPIC CAYENNE_ALL_CHANNELS)"
    "buildSuffix (replicate 32 0) 32 CONFIG_TOPIC CAYENNE_ALL_CHANNELS = Some (0, m2)"
    "cstr_at m2 0 = Some (suffix_text CONFIG_TOPIC CAYENNE_ALL_CHANNELS)"
    using sfx [of COMMAND_TOPIC] sfx [of CONFIG_TOPIC] by auto
  with m [of COMMAND_TOPIC] m [of CONFIG_TOPIC] assms(1) show ?thesis by (auto simp: parseTopics_def)
qed

lemma strncmp0_prefix: "0 \<notin> set x \<Longrightarrow> length x = n \<Longrightarrow> strncmp0 n (x @ r) (x @ r') = Some True"
  using strncmp0_eq [of x n x r r'] by simp

lemma parse_built:
  assumes "text_ok u" and "text_ok c" and "slash \<notin> set c" and "t \<in> {COMMAND_TOPIC, CONFIG_TOPIC}"
    and "n < 4294967296" and "suf = cs (the (topicString t)) @ slash # dec n"
    and "length (topic_text u c suf) \<le> CAYENNE_MAX_MESSAGE_SIZE"
  shows "CayenneParseTopic u (topic_text u c suf @ rest) (int (length (topic_text u c suf))) =
     Some (0, Some \<lparr>pt_topic = t, pt_channel = int n, pt_clientID = 11 + length u\<rparr>,
       cs ''v1/'' @ u @ cs ''/things/'' @ c @ 0 # suf @ rest)"
proof -
  let ?T = "topic_text u c suf" and ?b = "topic_text u c suf @ rest"
  have T: "?b = cs ''v1'' @ slash # u @ cs ''/things/'' @ c @ slash # suf @ rest"
    by (simp add: topic_text_def cs_def)
  have d3: "drop 3 ?b = u @ cs ''/things/'' @ c @ slash # suf @ rest" by (simp add: T cs_def)
  have d4: "drop (3 + length u) ?b = cs ''/things/'' @ c @ slash # suf @ rest"
    by (rule drop_prefix_drop [OF d3])
  have d5: "drop (11 + length u) ?b = c @ slash # suf @ rest"
    using drop_prefix_drop [OF d4] by (simp add: cs_def add.commute del: drop_append)
  have e: "c_strchr ?b (11 + length u) slash = Some (Some (11 + length u + length c))"
    using assms(2,3) unfolding c_strchr_def d5 by (simp add: text_ok_def)
  let ?e = "11 + length u + length c"
  let ?b' = "cs ''v1/'' @ u @ cs ''/things/'' @ c @ 0 # suf @ rest"
  have p: "?b = (cs ''v1/'' @ u @ cs ''/things/'' @ c) @ slash # suf @ rest"
      "length (cs ''v1/'' @ u @ cs ''/things/'' @ c) = ?e"
    by (simp_all add: T cs_def)
  have b': "?b[?e := 0] = ?b'" unfolding p(1) p(2) [symmetric] by (simp only: list_update_length) simp
  have d6: "drop (?e + 1) ?b' = suf @ rest"
  proof -
    have "?b' = ((cs ''v1/'' @ u @ cs ''/things/'' @ c) @ [0]) @ suf @ rest" by simp
    moreover have "length ((cs ''v1/'' @ u @ cs ''/things/'' @ c) @ [0]) = ?e + 1" using p(2) by simp
    ultimately show ?thesis by (metis append_eq_conv_conj)
  qed
  have len: "int (length ?T) - int (?e + 1) = int (length suf)" by (simp add: topic_text_def cs_def)
  have "length (dec n) \<le> 10" using length_dec_le [of n 10] assms(5) by simp
  then have sl: "length suf \<le> 31" "0 < length suf" using assms(4,6) by (auto simp: cs_def)
  have slice: "slice ?b' (?e + 1) (length suf) = Some suf"
    by (rule slice_at [OF d6 sl(2)])
  have ft: "find_topic parseTopics ?b' (?e + 1) (int (length suf)) = Some (Some (t, CAYENNE_ALL_CHANNELS))"
    using find_topic_built [OF assms(4), of "?e + 1" ?b' n rest] d6 assms(6) by simp
  have ch: "parse_channel suf = Some (int n)"
    using parse_channel_dec [of "cs (the (topicString t))" n] assms(4,5,6) by (auto simp: cs_def)
  have c1: "strncmp0 2 (cs ''v1'' @ [0]) ?b = Some True"
    unfolding T by (rule strncmp0_prefix) (simp_all add: cs_def)
  have c2: "strncmp0 (length u) (u @ [0]) (drop 3 ?b) = Some True"
    unfolding d3 using assms(1) by (intro strncmp0_prefix) (simp_all add: text_ok_def)
  have c3: "strncmp0 8 (drop (3 + length u) ?b) (cs ''/things/'' @ [0]) = Some True"
    unfolding d4 by (rule strncmp0_prefix) (simp_all add: cs_def)
  have nz: "CAYENNE_ALL_CHANNELS \<noteq> CAYENNE_NO_CHANNEL" by (simp add: CAYENNE_ALL_CHANNELS_def CAYENNE_NO_CHANNEL_def)
  have idx: "(2 :: nat) + 1 = 3" "3 + length u + 8 = 11 + length u" by simp_all
  have lm: "(int (length ?T) - int (?e + 1)) mod 4294967296 = int (length suf)" unfolding len using sl by simp
  have le: "\<not> int (length ?T) > int CAYENNE_MAX_MESSAGE_SIZE" using assms(7) by simp
  have "\<not> (int (length suf) = 0 \<or> int (length suf) > 31)" using sl by simp
  then show ?thesis
    unfolding CayenneParseTopic_def
    by (simp only: le idx c1 c2 c3 e b' lm ft slice ch nz if_False if_True Option.bind.simps option.case prod.case Let_def
        nat_int not_True_eq_False not_False_eq_True simp_thms)
qed

section \<open>Payloads\<close>

text \<open>
  The payload \<open>type,unit,...=value,...\<close>: the parts are separated by commas.  A value array is regular
  when its units are all present or made up (a type is given) or all absent, and its values all
  present or all absent.
\<close>

fun commas :: "byte list list \<Rightarrow> byte list" where
  "commas [] = []"
| "commas [x] = x"
| "commas (x # y # xs) = x @ 44 # commas (y # xs)"

definition unit_texts :: "byte list option \<Rightarrow> byte list CayenneValuePair list \<Rightarrow> byte list list" where
  "unit_texts type vs = (case type of Some t \<Rightarrow> t # map (\<lambda>v. case vp_unit v of Some u \<Rightarrow> u | None \<Rightarrow> UNIT_UNDEFINED) vs
     | None \<Rightarrow> map (\<lambda>v. the (vp_unit v)) (filter (\<lambda>v. vp_unit v \<noteq> None) vs))"

definition value_texts :: "byte list CayenneValuePair list \<Rightarrow> byte list list" where
  "value_texts vs = map (\<lambda>v. the (vp_value v)) (filter (\<lambda>v. vp_value v \<noteq> None) vs)"

definition data_text :: "byte list option \<Rightarrow> byte list CayenneValuePair list \<Rightarrow> byte list" where
  "data_text type vs = commas (unit_texts type vs) @
     (if unit_texts type vs \<noteq> [] \<and> value_texts vs \<noteq> [] then [61] else []) @ commas (value_texts vs)"

definition regular :: "byte list option \<Rightarrow> byte list CayenneValuePair list \<Rightarrow> bool" where
  "regular type vs \<longleftrightarrow> vs \<noteq> [] \<and>
     (type \<noteq> None \<or> (\<forall>v\<in>set vs. vp_unit v \<noteq> None) \<or> (\<forall>v\<in>set vs. vp_unit v = None)) \<and>
     ((\<forall>v\<in>set vs. vp_value v \<noteq> None) \<or> (\<forall>v\<in>set vs. vp_value v = None)) \<and>
     (\<forall>t. type = Some t \<longrightarrow> t \<noteq> [] \<and> text_ok t) \<and>
     (\<forall>v\<in>set vs. (\<forall>u. vp_unit v = Some u \<longrightarrow> u \<noteq> [] \<and> text_ok u) \<and> (\<forall>x. vp_value v = Some x \<longrightarrow> text_ok x))"

lemma strcats_eqs: "strcats [] = Some" "strcats (s # ss) = (\<lambda>b. c_strcat b s \<bind> strcats ss)"
  by (simp_all add: fun_eq_iff strcats.simps)

lemma commas_Cons: "commas (x # xs) = x @ concat (map (\<lambda>y. 44 # y) xs)"
  by (induction xs arbitrary: x) simp_all

lemma rd_text [simp]: "text_ok x \<Longrightarrow> \<exists>c. rd (x @ 0 # r) 0 = Some c \<and> (c = 0 \<longleftrightarrow> x = [])"
  by (cases x) (auto simp: rd_def)

definition unit_text :: "byte list CayenneValuePair \<Rightarrow> byte list" where
  "unit_text v = (case vp_unit v of Some u \<Rightarrow> u | None \<Rightarrow> UNIT_UNDEFINED)"

lemma units_tail:
  assumes "text_ok x" and "x \<noteq> []" and "\<forall>v\<in>set vs. type \<noteq> None \<or> vp_unit v \<noteq> None" and "\<forall>v\<in>set vs. text_ok (unit_text v)"
  shows "payload_units type vs (x @ 0 # r) = strcats (concat (map (\<lambda>v. [[44], unit_text v]) vs)) (x @ 0 # r)"
  using assms
proof (induction vs arbitrary: x r)
  case (Cons v vs)
  obtain c where c: "rd (x @ 0 # r) 0 = Some c" "c \<noteq> 0" using rd_text [OF Cons.prems(1), of r] Cons.prems(2) by auto
  have IH: "payload_units type vs (y @ 0 # q) = strcats (concat (map (\<lambda>v. [[44], unit_text v]) vs)) (y @ 0 # q)"
    if "text_ok y" "y \<noteq> []" for y q using Cons.IH [OF that] Cons.prems(3,4) by auto
  have u: "text_ok (unit_text v)" using Cons.prems by simp
  have "payload_units type (v # vs) (x @ 0 # r) = c_strcat (x @ 0 # r) [44] \<bind> (\<lambda>b. c_strcat b (unit_text v) \<bind> payload_units type vs)"
    using c Cons.prems(3) by (auto simp: cs_def unit_text_def split: option.splits)
  also have "\<dots> = strcats (concat (map (\<lambda>v. [[44], unit_text v]) (v # vs))) (x @ 0 # r)"
  proof (cases "1 \<le> length r \<and> length (unit_text v) \<le> length r - 1")
    case True
    then show ?thesis
      using Cons.prems(1,2) u IH [of "(x @ [44]) @ unit_text v" "drop (length (unit_text v)) (drop 1 r)"]
        strcat_ok [of x r "[44]"] strcat_ok [of "x @ [44]" "drop 1 r" "unit_text v"]
      by (simp add: strcats_eqs)
  next
    case False
    then show ?thesis
      using Cons.prems(1) strcat_ok [of x r "[44]"] strcat_ok [of "x @ [44]" "drop 1 r" "unit_text v"]
      by (auto simp: strcats_eqs)
  qed
  finally show ?case .
qed (simp add: strcats_eqs)

fun value_pieces :: "byte list CayenneValuePair list \<Rightarrow> byte list list" where
  "value_pieces [] = []"
| "value_pieces [v] = [the (vp_value v)]"
| "value_pieces (v # w # vs) = the (vp_value v) # [44] # value_pieces (w # vs)"

lemma values_all: "\<forall>v\<in>set vs. vp_value v \<noteq> None \<Longrightarrow> payload_values vs = strcats (value_pieces vs)"
proof (induction vs rule: value_pieces.induct)
  case (3 v w vs)
  have IH: "payload_values (w # vs) = strcats (value_pieces (w # vs))" by (rule "3.IH") (use "3.prems" in simp)
  obtain y where y: "vp_value v = Some y" using "3.prems" by auto
  show ?case
    by (rule ext, subst payload_values.simps(2)) (simp add: y IH strcats_eqs cs_def del: payload_values.simps)
qed (auto simp: strcats_eqs intro!: ext)

lemma values_none: "vs \<noteq> [] \<Longrightarrow> \<forall>v\<in>set vs. vp_value v = None \<Longrightarrow> payload_values vs b = Some b"
  by (cases vs) auto

lemma units_none: "\<forall>v\<in>set vs. vp_unit v = None \<Longrightarrow> payload_units None vs (0 # r) = Some (0 # r)"
  by (induction vs) (auto simp: rd_def)

lemma strcats_append: "strcats (xs @ ys) = (\<lambda>b. strcats xs b \<bind> strcats ys)"
  by (induction xs) (simp_all add: strcats_eqs)

lemma strcats_then:
  assumes "text_ok x" and "\<forall>s\<in>set ss. text_ok s" and "\<And>q. f ((x @ concat ss) @ 0 # q) = g ((x @ concat ss) @ 0 # q)"
  shows "strcats ss (x @ 0 # r) \<bind> f = strcats ss (x @ 0 # r) \<bind> g"
  using strcats_ok [OF assms(1,2), of r] assms(3) by auto

definition unit_pieces :: "byte list option \<Rightarrow> byte list CayenneValuePair list \<Rightarrow> byte list list" where
  "unit_pieces type vs =
     (case type of
        Some t \<Rightarrow> t # concat (map (\<lambda>v. [[44], unit_text v]) vs)
      | None \<Rightarrow> if \<exists>v\<in>set vs. vp_unit v \<noteq> None then unit_text (hd vs) # concat (map (\<lambda>v. [[44], unit_text v]) (tl vs)) else [])"

lemma unit_text_ok: "regular type vs \<Longrightarrow> v \<in> set vs \<Longrightarrow> text_ok (unit_text v) \<and> unit_text v \<noteq> []"
  by (auto simp: regular_def unit_text_def UNIT_UNDEFINED_def cs_def split: option.splits)

lemma units_step:
  assumes "regular type vs"
  shows "(case type of Some t \<Rightarrow> c_strcat (0 # r) t | None \<Rightarrow> Some (0 # r)) \<bind> payload_units type vs = strcats (unit_pieces type vs) (0 # r)"
proof (cases type)
  case (Some t)
  then have t: "t \<noteq> []" "text_ok t" using assms by (auto simp: regular_def)
  have "strcats [t] ([] @ 0 # r) \<bind> payload_units type vs = strcats [t] ([] @ 0 # r) \<bind> strcats (concat (map (\<lambda>v. [[44], unit_text v]) vs))"
    using t Some assms unit_text_ok by (intro strcats_then) (auto intro!: units_tail)
  then show ?thesis using Some by (simp add: unit_pieces_def strcats_eqs)
next
  case None
  show ?thesis
  proof (cases "\<exists>v\<in>set vs. vp_unit v \<noteq> None")
    case True
    with None assms have all: "\<forall>v\<in>set vs. vp_unit v \<noteq> None" by (auto simp: regular_def)
    obtain v ws where vs: "vs = v # ws" using assms by (cases vs) (auto simp: regular_def)
    have ok: "text_ok (unit_text v)" "unit_text v \<noteq> []" "\<forall>w\<in>set ws. text_ok (unit_text w)"
      using unit_text_ok [OF assms] vs by auto
    have "payload_units type vs (0 # r) = strcats [unit_text v] ([] @ 0 # r) \<bind> payload_units type ws"
      using all vs None by (auto simp: rd_def strcats_eqs unit_text_def)
    also have "\<dots> = strcats [unit_text v] ([] @ 0 # r) \<bind> strcats (concat (map (\<lambda>v. [[44], unit_text v]) ws))"
      using ok all vs by (intro strcats_then) (auto intro!: units_tail)
    finally show ?thesis using None True vs by (simp add: unit_pieces_def strcats_eqs)
  next
    case False
    with None show ?thesis by (simp add: units_none unit_pieces_def strcats_eqs)
  qed
qed

definition data_pieces :: "byte list option \<Rightarrow> byte list CayenneValuePair list \<Rightarrow> byte list list" where
  "data_pieces type vs = unit_pieces type vs @
     (if vp_value (hd vs) = None then [] else (if unit_pieces type vs = [] then [] else [[61]]) @ value_pieces vs)"

lemma pieces_ok:
  assumes "regular type vs"
  shows "\<forall>s\<in>set (unit_pieces type vs). text_ok s" "unit_pieces type vs \<noteq> [] \<longleftrightarrow> concat (unit_pieces type vs) \<noteq> []"
proof -
  obtain v ws where vs: "vs = v # ws" using assms by (cases vs) (auto simp: regular_def)
  show "\<forall>s\<in>set (unit_pieces type vs). text_ok s"
    using assms unit_text_ok [OF assms] vs by (auto simp: unit_pieces_def regular_def split: option.splits)
  have "unit_text v \<noteq> []" "\<forall>t. type = Some t \<longrightarrow> t \<noteq> []" using assms unit_text_ok [OF assms] vs by (auto simp: regular_def)
  then show "unit_pieces type vs \<noteq> [] \<longleftrightarrow> concat (unit_pieces type vs) \<noteq> []"
    using vs by (auto simp: unit_pieces_def split: option.splits)
qed

lemma regular_values:
  assumes "regular type vs"
  shows "vp_value (hd vs) = None \<Longrightarrow> \<forall>v\<in>set vs. vp_value v = None"
    and "vp_value (hd vs) \<noteq> None \<Longrightarrow> \<forall>v\<in>set vs. \<exists>x. vp_value v = Some x \<and> text_ok x"
proof -
  have "hd vs \<in> set vs" and all: "(\<forall>v\<in>set vs. vp_value v \<noteq> None) \<or> (\<forall>v\<in>set vs. vp_value v = None)"
    and ok: "\<forall>v\<in>set vs. \<forall>x. vp_value v = Some x \<longrightarrow> text_ok x"
    using assms by (simp_all add: regular_def)
  then show "vp_value (hd vs) = None \<Longrightarrow> \<forall>v\<in>set vs. vp_value v = None" by metis
  show "vp_value (hd vs) \<noteq> None \<Longrightarrow> \<forall>v\<in>set vs. \<exists>x. vp_value v = Some x \<and> text_ok x"
    using \<open>hd vs \<in> set vs\<close> all ok by (metis option.exhaust)
qed

lemma value_pieces_ok: "\<forall>v\<in>set vs. \<exists>x. vp_value v = Some x \<and> text_ok x \<Longrightarrow> \<forall>s\<in>set (value_pieces vs). text_ok s"
  by (induction vs rule: value_pieces.induct) auto

lemma data_payload_pieces:
  assumes "regular type vs" and "payload \<noteq> []"
    and "payload_length type vs + (case type of Some t \<Rightarrow> length t + 1 | None \<Rightarrow> 0) = n" and "n \<le> len"
  shows "CayenneBuildDataPayload payload len type vs (length vs) =
     wr payload 0 0 \<bind> strcats (data_pieces type vs) \<bind> (\<lambda>p. Some (0, p, (int n - 1) mod 4294967296))"
proof -
  obtain h r where p: "payload = h # r" using assms(2) by (cases payload) auto
  let ?up = "unit_pieces type vs"
  let ?fin = "\<lambda>p. Some (0 :: int, p, (int n - 1) mod 4294967296)"
  let ?tail = "\<lambda>payload. do { c \<leftarrow> rd payload 0;
     payload \<leftarrow> (if c \<noteq> 0 \<and> vs \<noteq> [] \<and> vp_value (hd vs) \<noteq> None then c_strcat payload (cs ''='') else Some payload);
     payload \<leftarrow> payload_values vs payload;
     ?fin payload }"
  let ?rest = "if vp_value (hd vs) = None then [] else (if ?up = [] then [] else [[61]]) @ value_pieces vs"
  have vs: "vs \<noteq> []" "hd vs \<in> set vs" using assms(1) by (auto simp: regular_def)
  have "CayenneBuildDataPayload payload len type vs (length vs) =
      (case type of Some t \<Rightarrow> c_strcat (0 # r) t | None \<Rightarrow> Some (0 # r)) \<bind> payload_units type vs \<bind> ?tail"
    using assms(3,4) by (simp add: CayenneBuildDataPayload_def p wr_def Let_def split: option.splits)
  also have "\<dots> = strcats ?up ([] @ 0 # r) \<bind> ?tail" using units_step [OF assms(1)] by simp
  also have "\<dots> = strcats ?up ([] @ 0 # r) \<bind> (\<lambda>p. strcats ?rest p \<bind> ?fin)"
  proof (rule strcats_then)
    fix q
    obtain c where c: "rd (([] @ concat ?up) @ 0 # q) 0 = Some c" "c = 0 \<longleftrightarrow> concat ?up = []"
      using rd_text [of "concat ?up" q] pieces_ok(1) [OF assms(1)] by (auto simp: text_ok_def)
    show "?tail (([] @ concat ?up) @ 0 # q) = strcats ?rest (([] @ concat ?up) @ 0 # q) \<bind> ?fin"
    proof (cases "vp_value (hd vs)")
      case None
      then have "\<forall>v\<in>set vs. vp_value v = None" using regular_values(1) [OF assms(1)] by simp
      with c None vs(1) show ?thesis by (simp add: values_none strcats_eqs)
    next
      case (Some y)
      then have "\<forall>v\<in>set vs. vp_value v \<noteq> None" using regular_values(2) [OF assms(1)] by auto
      with c Some vs(1) pieces_ok(2) [OF assms(1)] show ?thesis
        by (auto simp: values_all strcats_eqs strcats_append cs_def)
    qed
  qed (use pieces_ok(1) [OF assms(1)] in simp_all)
  also have "\<dots> = wr payload 0 0 \<bind> strcats (data_pieces type vs) \<bind> ?fin"
    by (simp add: p wr_def data_pieces_def strcats_append)
  finally show ?thesis .
qed

lemma concat_value_pieces: "concat (value_pieces vs) = commas (map (\<lambda>v. the (vp_value v)) vs)"
  by (induction vs rule: value_pieces.induct) simp_all

lemma concat_unit_tail: "concat (concat (map (\<lambda>v. [[44], unit_text v]) vs)) = concat (map (\<lambda>y. 44 # y) (map unit_text vs))"
  by (induction vs) simp_all

lemma map_the_filter: "\<forall>v\<in>set vs. f v \<noteq> None \<Longrightarrow> map (\<lambda>v. the (f v)) (filter (\<lambda>v. f v \<noteq> None) vs) = map (\<lambda>v. the (f v)) vs"
  by (induction vs) auto

lemma concat_unit_pieces:
  assumes "regular type vs"
  shows "concat (unit_pieces type vs) = commas (unit_texts type vs)" and "unit_pieces type vs = [] \<longleftrightarrow> unit_texts type vs = []"
proof -
  obtain v ws where vs: "vs = v # ws" using assms by (cases vs) (auto simp: regular_def)
  have "concat (unit_pieces type vs) = commas (unit_texts type vs) \<and> (unit_pieces type vs = [] \<longleftrightarrow> unit_texts type vs = [])"
  proof (cases type)
    case (Some t)
    then have "unit_texts type vs = t # map unit_text vs" by (simp add: unit_texts_def unit_text_def)
    with Some show ?thesis by (simp add: unit_pieces_def concat_unit_tail commas_Cons)
  next
    case None
    show ?thesis
    proof (cases "\<exists>v\<in>set vs. vp_unit v \<noteq> None")
      case True
      with None assms have all: "\<forall>v\<in>set vs. vp_unit v \<noteq> None" by (auto simp: regular_def)
      then have "map (\<lambda>v. the (vp_unit v)) vs = map unit_text vs" by (auto simp: unit_text_def)
      with all have "unit_texts type vs = map unit_text vs" using None map_the_filter [of vs vp_unit] by (simp add: unit_texts_def)
      then show ?thesis
        using None True vs by (simp add: unit_pieces_def concat_unit_tail commas_Cons)
    next
      case False
      with None show ?thesis by (auto simp: unit_pieces_def unit_texts_def)
    qed
  qed
  then show "concat (unit_pieces type vs) = commas (unit_texts type vs)" "unit_pieces type vs = [] \<longleftrightarrow> unit_texts type vs = []" by auto
qed

lemma concat_data_pieces:
  assumes "regular type vs"
  shows "concat (data_pieces type vs) = data_text type vs"
proof (cases "vp_value (hd vs)")
  case None
  then have "value_texts vs = []" using regular_values(1) [OF assms] by (auto simp: value_texts_def)
  with None show ?thesis by (simp add: data_pieces_def data_text_def concat_unit_pieces [OF assms])
next
  case (Some y)
  then have "\<forall>v\<in>set vs. vp_value v \<noteq> None" "vs \<noteq> []" using regular_values(2) [OF assms] assms by (auto simp: regular_def)
  then have "value_texts vs = map (\<lambda>v. the (vp_value v)) vs" "value_texts vs \<noteq> []"
    using map_the_filter [of vs vp_value] by (auto simp: value_texts_def)
  with Some show ?thesis
    by (simp add: data_pieces_def data_text_def concat_unit_pieces [OF assms] concat_value_pieces)
qed

lemma length_commas: "xs \<noteq> [] \<Longrightarrow> length (commas xs) + 1 = (\<Sum>x\<leftarrow>xs. length x + 1)"
  by (induction xs rule: commas.induct) auto

lemma payload_length_sum:
  "payload_length type vs = (\<Sum>v\<leftarrow>vs. if type \<noteq> None \<or> vp_unit v \<noteq> None then length (unit_text v) + 1 else 0) +
     (\<Sum>v\<leftarrow>vs. case vp_value v of Some x \<Rightarrow> length x + 1 | None \<Rightarrow> 0)"
  by (induction vs) (auto simp: unit_text_def split: option.splits)

lemma unit_part_length:
  assumes "regular type vs"
  shows "(\<Sum>v\<leftarrow>vs. if type \<noteq> None \<or> vp_unit v \<noteq> None then length (unit_text v) + 1 else 0) +
      (case type of Some t \<Rightarrow> length t + 1 | None \<Rightarrow> 0) =
     (if unit_texts type vs = [] then 0 else length (commas (unit_texts type vs)) + 1)"
proof (cases type)
  case (Some t)
  then have u: "unit_texts type vs = t # map unit_text vs" by (simp add: unit_texts_def unit_text_def)
  show ?thesis unfolding u using length_commas [of "t # map unit_text vs"] Some by (simp add: comp_def)
next
  case None
  show ?thesis
  proof (cases "\<exists>v\<in>set vs. vp_unit v \<noteq> None")
    case True
    with None assms have all: "\<forall>v\<in>set vs. vp_unit v \<noteq> None" "vs \<noteq> []" by (auto simp: regular_def)
    then have "map (\<lambda>v. the (vp_unit v)) vs = map unit_text vs" by (auto simp: unit_text_def)
    with all have u: "unit_texts type vs = map unit_text vs" using None map_the_filter [of vs vp_unit] by (simp add: unit_texts_def)
    have "(\<Sum>v\<leftarrow>vs. if type \<noteq> None \<or> vp_unit v \<noteq> None then length (unit_text v) + 1 else 0) = (\<Sum>v\<leftarrow>vs. length (unit_text v) + 1)"
      using all by (intro arg_cong [of _ _ sum_list] map_cong) auto
    then show ?thesis unfolding u using length_commas [of "map unit_text vs"] None all(2) by (simp add: comp_def)
  next
    case False
    then have "(\<Sum>v\<leftarrow>vs. if type \<noteq> None \<or> vp_unit v \<noteq> None then length (unit_text v) + 1 else 0) = 0"
      using None by (induction vs) auto
    with False None show ?thesis by (auto simp: unit_texts_def)
  qed
qed

lemma value_part_length:
  assumes "regular type vs"
  shows "(\<Sum>v\<leftarrow>vs. case vp_value v of Some x \<Rightarrow> length x + 1 | None \<Rightarrow> 0) =
     (if value_texts vs = [] then 0 else length (commas (value_texts vs)) + 1)"
proof (cases "vp_value (hd vs)")
  case None
  then have "\<forall>v\<in>set vs. vp_value v = None" using regular_values(1) [OF assms] by auto
  then have "(\<Sum>v\<leftarrow>vs. case vp_value v of Some x \<Rightarrow> length x + 1 | None \<Rightarrow> 0) = 0" "value_texts vs = []"
    by (induction vs) (auto simp: value_texts_def)
  then show ?thesis by simp
next
  case (Some y)
  then have all: "\<forall>v\<in>set vs. vp_value v \<noteq> None" "vs \<noteq> []" using regular_values(2) [OF assms] assms by (auto simp: regular_def)
  then have t: "value_texts vs = map (\<lambda>v. the (vp_value v)) vs" using map_the_filter [of vs vp_value] by (simp add: value_texts_def)
  have "(\<Sum>v\<leftarrow>vs. case vp_value v of Some x \<Rightarrow> length x + 1 | None \<Rightarrow> 0) = (\<Sum>v\<leftarrow>vs. length (the (vp_value v)) + 1)"
    using all by (intro arg_cong [of _ _ sum_list] map_cong) auto
  then show ?thesis using length_commas [of "value_texts vs"] all(2) by (simp add: t comp_def)
qed

lemma payload_length_text:
  assumes "regular type vs" and "unit_texts type vs \<noteq> [] \<or> value_texts vs \<noteq> []"
  shows "payload_length type vs + (case type of Some t \<Rightarrow> length t + 1 | None \<Rightarrow> 0) = length (data_text type vs) + 1"
  using unit_part_length [OF assms(1)] value_part_length [OF assms(1)] assms(2)
  by (auto simp: payload_length_sum data_text_def split: if_splits)

lemma data_payload_eq:
  assumes "regular type vs" and "unit_texts type vs \<noteq> [] \<or> value_texts vs \<noteq> []"
    and "length payload = len" and "len < 4294967296"
  shows "CayenneBuildDataPayload payload len type vs (length vs) =
     (if length (data_text type vs) + 1 > len then Some (-2, payload, int len)
      else Some (0, data_text type vs @ 0 # drop (length (data_text type vs) + 1) payload, int (length (data_text type vs))))"
proof (cases "length (data_text type vs) + 1 > len")
  case True
  then show ?thesis
    using payload_length_text [OF assms(1,2)] by (simp add: CayenneBuildDataPayload_def)
next
  case False
  have ok: "\<forall>s\<in>set (data_pieces type vs). text_ok s"
    using pieces_ok(1) [OF assms(1)] value_pieces_ok [OF regular_values(2) [OF assms(1)]] by (auto simp: data_pieces_def)
  have "payload \<noteq> []" using False assms(3) by auto
  then have "CayenneBuildDataPayload payload len type vs (length vs) =
      wr payload 0 0 \<bind> strcats (data_pieces type vs) \<bind> (\<lambda>p. Some (0, p, (int (length (data_text type vs) + 1) - 1) mod 4294967296))"
    using data_payload_pieces [OF assms(1) _ payload_length_text [OF assms(1,2)]] False by simp
  also have "wr payload 0 0 \<bind> strcats (data_pieces type vs) = Some (data_text type vs @ 0 # drop (length (data_text type vs) + 1) payload)"
    using strcats_start [of payload "data_pieces type vs"] ok False assms(3) concat_data_pieces [OF assms(1)] by simp
  finally show ?thesis using False assms(4) by simp
qed

lemma parse_loop_id:
  assumes "44 \<notin> set ident" and "text_ok ident" and "payload = pre @ ident @ 44 # rest" and "index = length pre" and "0 < n"
  shows "parsePayload_loop 0 n index True 0 (values, type, payload) =
     Some (values[0 := (values ! 0)\<lparr>vp_value := Some (length (pre @ ident) + 1)\<rparr>], Some 0, pre @ ident @ 0 # rest)"
  using assms
proof (induction ident arbitrary: pre index)
  case Nil
  then show ?case by (simp add: parsePayload_loop.simps rd_def Let_def)
next
  case (Cons x ident)
  then have "parsePayload_loop 0 n index True 0 (values, type, payload) = parsePayload_loop 0 n (index + 1) True 0 (values, type, payload)"
    by (subst parsePayload_loop.simps) (auto simp: rd_def)
  with Cons.IH [of "pre @ [x]" "index + 1"] Cons.prems show ?case by simp
qed

lemma parse_loop_none:
  assumes "44 \<notin> set s" and "text_ok s" and "payload = pre @ s @ 0 # rest" and "index = length pre"
  shows "parsePayload_loop 0 n index True 0 (values, type, payload) = Some (values, type, payload)"
  using assms
proof (induction s arbitrary: pre index)
  case Nil
  then show ?case by (simp add: parsePayload_loop.simps rd_def)
next
  case (Cons x s)
  then have "parsePayload_loop 0 n index True 0 (values, type, payload) = parsePayload_loop 0 n (index + 1) True 0 (values, type, payload)"
    by (subst parsePayload_loop.simps) (auto simp: rd_def)
  with Cons.IH [of "pre @ [x]" "index + 1"] Cons.prems show ?case by simp
qed

section \<open>Properties\<close>

text \<open>C37: \<open>buildTopic\<close> writes \<open>v1/username/things/clientID/suffix\<close> when it fits the buffer, but its size check allows two
  bytes too few: with a buffer of \<open>len\<close> bytes and a topic that needs \<open>len + 1\<close> or \<open>len + 2\<close> bytes with its
  NUL, the check passes and the function writes past the end of the buffer.\<close>

theorem buildTopic_correct:
  assumes "text_ok u" and "text_ok c" and "text_ok s" and "length topic = len"
  shows "buildTopic topic len (Some u) (Some c) s =
     (let t = topic_text u c s in
      if length t + 1 \<le> len then Some (0, t @ 0 # drop (length t + 1) topic)
      else if length t + 1 \<le> len + 2 then None
      else Some (-2, topic))"
proof -
  have "length (topic_text u c s) = length u + length c + length s + 12" by (simp add: topic_text_def cs_def)
  then show ?thesis using buildTopic_eq [OF assms] by (simp add: Let_def)
qed

theorem buildTopic_correct_witness:
  "buildTopic (replicate 16 0) 16 (Some [117]) (Some [99]) [100] = Some (0, cs ''v1/u/things/c/d'' @ [0]) \<and>
     buildTopic (replicate 15 0) 15 (Some [117]) (Some [99]) [100] = None"
  using buildTopic_correct [of "[117]" "[99]" "[100]" "replicate 16 0" 16] buildTopic_correct [of "[117]" "[99]" "[100]" "replicate 15 0" 15]
  by (simp add: topic_text_def cs_def)



text \<open>C21: \<open>CayenneBuildDataPayload\<close> on a regular value array: it refuses a buffer that cannot hold the text and its NUL, and
  otherwise writes exactly \<open>type,unit,...=value,...\<close>, memory safe, and returns the length of the text.\<close>

theorem CayenneBuildDataPayload_correct:
  assumes "regular type vs" and "unit_texts type vs \<noteq> [] \<or> value_texts vs \<noteq> []"
    and "length payload = len" and "len < 4294967296"
  shows "CayenneBuildDataPayload payload len type vs (length vs) =
     (let t = data_text type vs in
      if length t + 1 > len then Some (-2, payload, int len)
      else Some (0, t @ 0 # drop (length t + 1) payload, int (length t)))"
  using data_payload_eq [OF assms] by (simp add: Let_def)

theorem CayenneBuildDataPayload_correct_witness:
  "CayenneBuildDataPayload (replicate 10 1) 10 (Some (cs ''temp'')) [\<lparr>vp_unit = Some (cs ''c''), vp_value = Some (cs ''21'')\<rparr>] 1 =
     Some (0, cs ''temp,c=21'' @ [0], 9)"
  using CayenneBuildDataPayload_correct [of "Some (cs ''temp'')" "[\<lparr>vp_unit = Some (cs ''c''), vp_value = Some (cs ''21'')\<rparr>]" "replicate 10 1" 10]
  by (simp add: regular_def cs_def unit_texts_def value_texts_def data_text_def)

text \<open>An array that is not regular defeats the size check of \<open>CayenneBuildDataPayload\<close>: without a type, a first
  value with a unit and a second without, the text needs one byte more than is counted, and with a buffer of
  exactly the counted size the last \<open>strcat\<close> writes past its end.\<close>

lemma CayenneBuildDataPayload_irregular_overflow:
  assumes "text_ok u" and "u \<noteq> []" and "text_ok x" and "text_ok y"
    and "length payload = length u + length x + length y + 3"
  shows "CayenneBuildDataPayload payload (length payload) None
     [\<lparr>vp_unit = Some u, vp_value = Some x\<rparr>, \<lparr>vp_unit = None, vp_value = Some y\<rparr>] 2 = None"
proof -
  obtain h r where p: "payload = h # r" using assms(5) by (cases payload) auto
  have r: "length r = length u + length x + length y + 2" using assms(5) p by simp
  let ?vs = "[\<lparr>vp_unit = Some u, vp_value = Some x\<rparr>, \<lparr>vp_unit = None, vp_value = Some y\<rparr>]"
  have s1: "c_strcat (0 # r) u = Some (u @ 0 # drop (length u) r)" using strcat_ok [of "[]" r u] r by simp
  obtain c where c: "rd (u @ 0 # drop (length u) r) 0 = Some c" "c \<noteq> 0" using rd_text [OF assms(1), of "drop (length u) r"] assms(2) by auto
  let ?r2 = "drop 1 (drop (length u) r)"
  have s2: "c_strcat (u @ 0 # drop (length u) r) [44] = Some ((u @ [44]) @ 0 # ?r2)"
    using strcat_ok [OF assms(1), of "drop (length u) r" "[44]"] r by simp
  have un: "payload_units None ?vs (0 # r) = Some ((u @ [44]) @ 0 # ?r2)"
    using s1 s2 c by (simp add: rd_def [of "0 # r"] cs_def)
  have "\<exists>c. rd ((u @ [44]) @ 0 # ?r2) 0 = Some c \<and> c \<noteq> 0" using rd_text [of "u @ [44]" ?r2] assms(1) by auto
  then obtain c' where c': "rd ((u @ [44]) @ 0 # ?r2) 0 = Some c'" "c' \<noteq> 0" by blast
  have "strcats ([[61]] @ value_pieces ?vs) ((u @ [44]) @ 0 # ?r2) = None"
    using strcats_ok [of "u @ [44]" "[[61]] @ value_pieces ?vs" ?r2] assms r by simp
  then have last: "c_strcat ((u @ [44]) @ 0 # ?r2) [61] \<bind> payload_values ?vs = None"
    using values_all [of ?vs] by (simp add: strcats_eqs)
  define B where "B = (u @ [44]) @ 0 # ?r2"
  define vs where "vs = ?vs"
  have f: "payload_units None vs (0 # r) = Some B" "rd B 0 = Some c'" "c_strcat B [61] \<bind> payload_values vs = None"
    using un c'(1) last by (simp_all only: B_def vs_def)
  have v: "vs \<noteq> []" "vp_value (hd vs) \<noteq> None" "length vs = 2" "payload_length None vs = length payload"
    using assms(5) by (simp_all add: vs_def)
  have "CayenneBuildDataPayload payload (length payload) None vs 2 = c_strcat B [61] \<bind> payload_values vs \<bind>
      (\<lambda>q. Some (0, q, (int (length payload) - 1) mod 4294967296))"
    using f(1,2) c'(2) v by (simp add: CayenneBuildDataPayload_def p wr_def cs_def Let_def)
  then show ?thesis unfolding f(3) by (simp add: vs_def)
qed

text \<open>C36: a command payload \<open>id,value\<close> is split in place: on success the returned pointers are the id and the value
  as strings; a command without a comma is refused.\<close>

theorem CayenneParsePayload_command:
  assumes "text_ok ident" and "44 \<notin> set ident" and "text_ok v" and "0 < n" and "n \<le> length values"
  shows "(\<exists>out b. CayenneParsePayload values n COMMAND_TOPIC (ident @ 44 # v @ 0 # rest) = Some (0, out, b) \<and>
       pp_count out = 1 \<and> map_option (cstr_at b) (pp_id out) = Some (Some ident) \<and>
       map_option (cstr_at b) (vp_value (pp_values out ! 0)) = Some (Some v) \<and> vp_unit (pp_values out ! 0) = None) \<and>
     (\<exists>out b. CayenneParsePayload values n COMMAND_TOPIC (ident @ 0 # rest) = Some (-1, out, b))"
proof -
  let ?e = "\<lparr>vp_unit = None, vp_value = None\<rparr>" and ?b = "ident @ 44 # v @ 0 # rest"
  obtain m where n: "n = Suc m" using assms(4) by (cases n) auto
  let ?vals = "replicate n ?e @ drop n values"
  have v0: "?vals ! 0 = ?e" "?vals[0 := ?e] = ?vals" "?vals \<noteq> []" "n \<le> length ?vals" by (simp_all add: n)
  have l1: "parsePayload_loop 0 n 0 True 0 (?vals, None, ?b) =
      Some (?vals[0 := ?e\<lparr>vp_value := Some (length ident + 1)\<rparr>], Some 0, ident @ 0 # v @ 0 # rest)"
    using parse_loop_id [OF assms(2,1), of ?b "[]" "v @ 0 # rest" 0 n ?vals None] assms(4) v0 by simp
  have l2: "parsePayload_loop 0 n 0 True 0 (?vals, None, ident @ 0 # rest) = Some (?vals, None, ident @ 0 # rest)"
    using parse_loop_none [OF assms(2,1), of "ident @ 0 # rest" "[]" rest 0] by simp
  have "cstr_at (ident @ 0 # v @ 0 # rest) (length ident + 1) = Some v"
    using assms(3) by (intro cstr_at_drop [of _ _ v rest]) (simp_all add: text_ok_def)
  moreover have "cstr_at (ident @ 0 # v @ 0 # rest) 0 = Some ident" using assms(1) by (simp add: text_ok_def)
  ultimately show ?thesis
    using l1 l2 assms(4,5) by (simp add: CayenneParsePayload_def parsePayload_def Let_def n)
qed

theorem CayenneParsePayload_command_witness:
  "\<exists>out b. CayenneParsePayload (replicate 4 \<lparr>vp_unit = None, vp_value = None\<rparr>) 4 COMMAND_TOPIC [105, 100, 44, 49, 0] = Some (0, out, b) \<and>
     pp_count out = 1 \<and> map_option (cstr_at b) (pp_id out) = Some (Some [105, 100])"
  using CayenneParsePayload_command [of "[105, 100]" "[49]" 4 "replicate 4 \<lparr>vp_unit = None, vp_value = None\<rparr>" "[]"]
  by auto

end
