(* ===== verification/CayenneDataArray.thy ===== *)
theory CayenneDataArray
  imports CayenneUtils
begin

text \<open>
  \<^verbatim>\<open>main/src/CayenneUtils/CayenneDataArray.c\<close>: unit/value pairs collected in a caller's buffer.  The entries are
  offsets into the buffer.  The refinement section reads the array as the list of the pairs of strings it
  holds and shows that adding appends to that list and disturbs nothing.
\<close>

record CayenneDataArray =
  da_values :: "nat CayenneValuePair list"
  da_valueCount :: nat
  da_buffer :: mem
  da_bufferSize :: nat
  da_bufferIndex :: nat

definition CayenneDataArrayInit :: "CayenneDataArray \<Rightarrow> mem \<Rightarrow> nat \<Rightarrow> CayenneDataArray" where
  "CayenneDataArrayInit dataArray buffer bufferSize =
     dataArray\<lparr>da_valueCount := 0, da_buffer := buffer, da_bufferSize := bufferSize, da_bufferIndex := 0\<rparr>"

text \<open>One of the two copies in \<open>CayenneDataArrayAdd\<close>: the string with its NUL, and the pointer to it.\<close>

definition add_string :: "byte list option \<Rightarrow> mem \<Rightarrow> nat \<Rightarrow> (nat option \<times> mem \<times> nat) option" where
  "add_string s buffer i =
     (case s of
        None \<Rightarrow> Some (None, buffer, i)
      | Some s \<Rightarrow> do { (buffer, j) \<leftarrow> emit (s @ [0]) (buffer, i); Some (Some i, buffer, j) })"

definition CayenneDataArrayAdd ::
    "CayenneDataArray \<Rightarrow> byte list option \<Rightarrow> byte list option \<Rightarrow> (int \<times> CayenneDataArray) option" where
  "CayenneDataArrayAdd d unit value =
     (if da_valueCount d \<ge> CAYENNE_MAX_MESSAGE_VALUES then Some (CAYENNE_FAILURE, d)
      else
        let unitLength = (case unit of Some u \<Rightarrow> length u + 1 | None \<Rightarrow> 0);
            valueLength = (case value of Some v \<Rightarrow> length v + 1 | None \<Rightarrow> 0)
        in if da_bufferIndex d + unitLength + valueLength > da_bufferSize d then Some (CAYENNE_FAILURE, d)
           else if da_valueCount d \<ge> length (da_values d) then None
           else do {
             (u, buffer, i) \<leftarrow> add_string unit (da_buffer d) (da_bufferIndex d);
             (v, buffer, i) \<leftarrow> add_string value buffer i;
             Some (CAYENNE_SUCCESS, d\<lparr>da_values := (da_values d)[da_valueCount d := \<lparr>vp_unit = u, vp_value = v\<rparr>],
                     da_buffer := buffer, da_bufferIndex := i, da_valueCount := da_valueCount d + 1\<rparr>) })"

text \<open>\<open>snprintf\<close> into the local array \<open>str\<close> of \<open>n\<close> bytes, read back as a string.\<close>

definition printed :: "nat \<Rightarrow> byte list \<Rightarrow> byte list option" where
  "printed n s = do { str \<leftarrow> c_snprintf (replicate n 0) 0 n s; cstr_at str 0 }"

definition CayenneDataArrayAddInt :: "CayenneDataArray \<Rightarrow> byte list option \<Rightarrow> int \<Rightarrow> (int \<times> CayenneDataArray) option" where
  "CayenneDataArrayAddInt d unit value = do { str \<leftarrow> printed 34 (dec_int value); CayenneDataArrayAdd d unit (Some str) }"

definition CayenneDataArrayAddUInt :: "CayenneDataArray \<Rightarrow> byte list option \<Rightarrow> int \<Rightarrow> (int \<times> CayenneDataArray) option" where
  "CayenneDataArrayAddUInt d unit value = do { str \<leftarrow> printed 33 (dec_int value); CayenneDataArrayAdd d unit (Some str) }"

definition CayenneDataArrayAddLong :: "CayenneDataArray \<Rightarrow> byte list option \<Rightarrow> int \<Rightarrow> (int \<times> CayenneDataArray) option" where
  "CayenneDataArrayAddLong d unit value = do { str \<leftarrow> printed 34 (dec_int value); CayenneDataArrayAdd d unit (Some str) }"

definition CayenneDataArrayAddULong :: "CayenneDataArray \<Rightarrow> byte list option \<Rightarrow> int \<Rightarrow> (int \<times> CayenneDataArray) option" where
  "CayenneDataArrayAddULong d unit value = do { str \<leftarrow> printed 33 (dec_int value); CayenneDataArrayAdd d unit (Some str) }"

text \<open>The text of \<open>%2.3f\<close> for a floating-point value is the C library's: the parameter \<open>fmt\<close>.\<close>

definition CayenneDataArrayAddDouble ::
    "('f \<Rightarrow> byte list) \<Rightarrow> CayenneDataArray \<Rightarrow> byte list option \<Rightarrow> 'f \<Rightarrow> (int \<times> CayenneDataArray) option" where
  "CayenneDataArrayAddDouble fmt d unit value = do { str \<leftarrow> printed 33 (fmt value); CayenneDataArrayAdd d unit (Some str) }"

definition CayenneDataArrayAddFloat ::
    "('f \<Rightarrow> byte list) \<Rightarrow> CayenneDataArray \<Rightarrow> byte list option \<Rightarrow> 'f \<Rightarrow> (int \<times> CayenneDataArray) option" where
  "CayenneDataArrayAddFloat fmt d unit value = do { str \<leftarrow> printed 33 (fmt value); CayenneDataArrayAdd d unit (Some str) }"

definition CayenneDataArrayClear :: "CayenneDataArray \<Rightarrow> CayenneDataArray option" where
  "CayenneDataArrayClear d = do {
     (buffer, _) \<leftarrow> emit (replicate (da_bufferSize d) 0) (da_buffer d, 0);
     Some (d\<lparr>da_valueCount := 0, da_bufferIndex := 0, da_buffer := buffer\<rparr>) }"

section \<open>The array as a list of pairs of strings\<close>

definition string_in :: "mem \<Rightarrow> nat \<Rightarrow> nat \<Rightarrow> byte list \<Rightarrow> bool" where
  "string_in b limit i s \<longleftrightarrow> text_ok s \<and> i + length s + 1 \<le> limit \<and> limit \<le> length b \<and> take (length s + 1) (drop i b) = s @ [0]"

definition deref :: "mem \<Rightarrow> nat option \<Rightarrow> byte list option" where
  "deref b p = (case p of None \<Rightarrow> None | Some i \<Rightarrow> cstr_at b i)"

definition pairs :: "CayenneDataArray \<Rightarrow> (byte list option \<times> byte list option) list" where
  "pairs d = map (\<lambda>e. (deref (da_buffer d) (vp_unit e), deref (da_buffer d) (vp_value e))) (take (da_valueCount d) (da_values d))"

definition pointer_ok :: "CayenneDataArray \<Rightarrow> nat option \<Rightarrow> bool" where
  "pointer_ok d p \<longleftrightarrow> (\<forall>i. p = Some i \<longrightarrow> (\<exists>s. string_in (da_buffer d) (da_bufferIndex d) i s))"

definition wf_array :: "CayenneDataArray \<Rightarrow> bool" where
  "wf_array d \<longleftrightarrow> length (da_values d) = CAYENNE_MAX_MESSAGE_VALUES \<and> da_valueCount d \<le> CAYENNE_MAX_MESSAGE_VALUES \<and>
     da_bufferIndex d \<le> da_bufferSize d \<and> da_bufferSize d = length (da_buffer d) \<and>
     (\<forall>e\<in>set (take (da_valueCount d) (da_values d)). pointer_ok d (vp_unit e) \<and> pointer_ok d (vp_value e))"

lemma string_in_cstr: "string_in b n i s \<Longrightarrow> cstr_at b i = Some s"
proof -
  assume h: "string_in b n i s"
  then have "drop i b = (s @ [0]) @ drop (length s + 1) (drop i b)"
    unfolding string_in_def by (metis append_take_drop_id)
  with h show ?thesis by (intro cstr_at_drop [of _ _ s]) (auto simp: string_in_def text_ok_def)
qed

lemma string_in_put:
  assumes "string_in b n i s" and "n + length xs \<le> length b" and "n \<le> m" and "m \<le> length b"
  shows "string_in (put n xs b) m i s"
proof -
  have l: "i + length s + 1 \<le> n" using assms(1) by (simp add: string_in_def)
  have "take (length s + 1) (drop i (put n xs b)) = take (length s + 1) (drop i (take n (put n xs b)))"
    using l by (simp add: take_drop min_def)
  also have "take n (put n xs b) = take n b" using assms(2) by simp
  also have "take (length s + 1) (drop i (take n b)) = take (length s + 1) (drop i b)"
    using l by (simp add: take_drop min_def)
  finally show ?thesis using assms by (simp add: string_in_def)
qed

lemma string_in_new: "text_ok s \<Longrightarrow> n + length s + 1 \<le> length b \<Longrightarrow> string_in (put n (s @ [0]) b) (n + length s + 1) n s"
  by (simp add: string_in_def put_def)

text \<open>What one copy does: the old strings stay, the pointer is the new string.\<close>

lemma add_string_spec:
  assumes "n \<le> length b" and "n + (case s of Some s \<Rightarrow> length s + 1 | None \<Rightarrow> 0) \<le> length b" and "\<forall>t. s = Some t \<longrightarrow> text_ok t"
  shows "\<exists>p b' m. add_string s b n = Some (p, b', m) \<and> m = n + (case s of Some s \<Rightarrow> length s + 1 | None \<Rightarrow> 0) \<and>
     length b' = length b \<and> (\<forall>i t. string_in b n i t \<longrightarrow> string_in b' m i t) \<and>
     (case s of None \<Rightarrow> p = None | Some t \<Rightarrow> \<exists>i. p = Some i \<and> string_in b' m i t)"
proof (cases s)
  case None
  then show ?thesis by (simp add: add_string_def)
next
  case (Some t)
  let ?b = "put n (t @ [0]) b"
  have f: "n + length (t @ [0]) \<le> length b" using assms(2) Some by simp
  have "add_string s b n = Some (Some n, ?b, n + length t + 1)" using Some f by (simp add: add_string_def emit_eq)
  moreover have "string_in b n i u \<Longrightarrow> string_in ?b (n + length t + 1) i u" for i u
    using string_in_put [of b n i u "t @ [0]" "n + length t + 1"] f by simp
  moreover have "string_in ?b (n + length t + 1) n t" using string_in_new [of t n b] assms(3) Some f by simp
  ultimately show ?thesis using Some f by simp
qed

lemma holds_deref:
  "case s of None \<Rightarrow> p = None | Some t \<Rightarrow> \<exists>i. p = Some i \<and> string_in b k i t \<Longrightarrow> b = da_buffer d \<Longrightarrow> k = da_bufferIndex d \<Longrightarrow>
     deref b p = s \<and> pointer_ok d p"
  by (cases s) (auto simp: deref_def pointer_ok_def dest: string_in_cstr)

lemma add_result:
  assumes "wf_array d" and "da_valueCount d < CAYENNE_MAX_MESSAGE_VALUES"
    and "\<forall>t. u = Some t \<longrightarrow> text_ok t" and "\<forall>t. v = Some t \<longrightarrow> text_ok t"
    and "da_bufferIndex d + (case u of Some u \<Rightarrow> length u + 1 | None \<Rightarrow> 0) + (case v of Some v \<Rightarrow> length v + 1 | None \<Rightarrow> 0) \<le> da_bufferSize d"
  shows "\<exists>d'. CayenneDataArrayAdd d u v = Some (0, d') \<and> wf_array d' \<and> pairs d' = pairs d @ [(u, v)]"
proof -
  let ?i = "da_bufferIndex d" and ?b = "da_buffer d" and ?n = "da_valueCount d"
  have w: "length (da_values d) = CAYENNE_MAX_MESSAGE_VALUES" "?i \<le> length ?b" "da_bufferSize d = length ?b"
    "\<forall>e\<in>set (take ?n (da_values d)). pointer_ok d (vp_unit e) \<and> pointer_ok d (vp_value e)"
    using assms(1) by (simp_all add: wf_array_def)
  let ?m = "?i + (case u of Some u \<Rightarrow> length u + 1 | None \<Rightarrow> 0)"
  obtain p1 b1 where a1: "add_string u ?b ?i = Some (p1, b1, ?m)" "length b1 = length ?b"
      "\<forall>i t. string_in ?b ?i i t \<longrightarrow> string_in b1 ?m i t" "case u of None \<Rightarrow> p1 = None | Some t \<Rightarrow> \<exists>i. p1 = Some i \<and> string_in b1 ?m i t"
    using add_string_spec [of ?i ?b u] w assms(3,5) by auto
  let ?k = "?m + (case v of Some v \<Rightarrow> length v + 1 | None \<Rightarrow> 0)"
  obtain p2 b2 where a2: "add_string v b1 ?m = Some (p2, b2, ?k)" "length b2 = length b1"
      "\<forall>i t. string_in b1 ?m i t \<longrightarrow> string_in b2 ?k i t" "case v of None \<Rightarrow> p2 = None | Some t \<Rightarrow> \<exists>i. p2 = Some i \<and> string_in b2 ?k i t"
    using add_string_spec [of ?m b1 v] w assms(4,5) a1(2) by auto
  let ?e = "\<lparr>vp_unit = p1, vp_value = p2\<rparr>"
  define d' where "d' = d\<lparr>da_values := (da_values d)[?n := ?e], da_buffer := b2, da_bufferIndex := ?k, da_valueCount := ?n + 1\<rparr>"
  have tk: "take (da_valueCount d') (da_values d') = take ?n (da_values d) @ [?e]"
    using w(1) assms(2) by (simp add: d'_def take_Suc_conv_app_nth)
  have keep: "string_in ?b ?i i t \<Longrightarrow> string_in b2 ?k i t" for i t using a1(3) a2(3) by blast
  have h: "case u of None \<Rightarrow> p1 = None | Some t \<Rightarrow> \<exists>i. p1 = Some i \<and> string_in b2 ?k i t"
    using a1(4) a2(3) by (cases u) auto
  have bd: "b2 = da_buffer d'" "?k = da_bufferIndex d'" by (simp_all add: d'_def)
  have new: "deref b2 p1 = u \<and> pointer_ok d' p1" "deref b2 p2 = v \<and> pointer_ok d' p2"
    by (rule holds_deref [OF h bd], rule holds_deref [OF a2(4) bd])
  have old: "deref b2 p = deref ?b p \<and> pointer_ok d' p" if ok: "pointer_ok d p" for p
  proof (cases p)
    case (Some i)
    then obtain t where t: "string_in ?b ?i i t" using ok by (auto simp: pointer_ok_def)
    with keep [OF t] Some show ?thesis
      using string_in_cstr [OF t] string_in_cstr [OF keep [OF t]] by (auto simp: deref_def pointer_ok_def d'_def)
  qed (simp add: deref_def pointer_ok_def)
  have "CayenneDataArrayAdd d u v = Some (0, d')"
    using assms(2,5) w(1) a1(1) a2(1) by (simp add: CayenneDataArrayAdd_def d'_def Let_def)
  moreover have "wf_array d'"
    using tk w old new assms(2,5) a1(2) a2(2) by (auto simp: wf_array_def) (auto simp: d'_def)
  moreover have "pairs d' = pairs d @ [(u, v)]"
    using tk w(4) old new by (simp add: pairs_def) (auto simp: d'_def)
  ultimately show ?thesis by blast
qed

lemma printed_fits: "length s < n \<Longrightarrow> text_ok s \<Longrightarrow> printed n s = Some s"
  by (simp add: printed_def c_snprintf_def emit_eq put_0 text_ok_def)

lemma dec_int_32:
  assumes "-2147483648 \<le> x" and "x < 4294967296"
  shows "length (dec_int x) \<le> 11" "text_ok (dec_int x)"
proof -
  have "nat \<bar>x\<bar> < 10 ^ 10" using assms by simp
  then have "length (dec (nat \<bar>x\<bar>)) \<le> 10" by (intro length_dec_le) simp_all
  then show "length (dec_int x) \<le> 11" by (auto simp: dec_int_def)
  show "text_ok (dec_int x)" by (simp add: dec_int_def)
qed

section \<open>Properties\<close>

text \<open>C22: \<open>CayenneDataArrayAdd\<close> appends.  On a well-formed array it either refuses, leaving the array as it is, exactly when
  the array is full or the strings do not fit the buffer, or it succeeds; then the array is well formed
  again, holds the new pair behind the old ones, and every string of the old entries is still there.\<close>

theorem CayenneDataArrayAdd_appends:
  assumes "wf_array d" and "\<forall>t. u = Some t \<longrightarrow> text_ok t" and "\<forall>t. v = Some t \<longrightarrow> text_ok t"
  shows "if da_valueCount d < CAYENNE_MAX_MESSAGE_VALUES \<and>
       da_bufferIndex d + (case u of Some u \<Rightarrow> length u + 1 | None \<Rightarrow> 0) + (case v of Some v \<Rightarrow> length v + 1 | None \<Rightarrow> 0) \<le> da_bufferSize d
     then \<exists>d'. CayenneDataArrayAdd d u v = Some (0, d') \<and> wf_array d' \<and> pairs d' = pairs d @ [(u, v)]
     else CayenneDataArrayAdd d u v = Some (-1, d)"
  using add_result [OF assms(1) _ assms(2,3)] by (auto simp: CayenneDataArrayAdd_def Let_def not_less)

definition example_array :: CayenneDataArray where
  "example_array = CayenneDataArrayInit \<lparr>da_values = replicate 4 \<lparr>vp_unit = None, vp_value = None\<rparr>, da_valueCount = 0,
     da_buffer = [], da_bufferSize = 0, da_bufferIndex = 0\<rparr> (replicate 16 0) 16"

lemma wf_example_array: "wf_array example_array" "pairs example_array = []"
  by (simp_all add: example_array_def CayenneDataArrayInit_def wf_array_def pairs_def CAYENNE_MAX_MESSAGE_VALUES_def)

theorem CayenneDataArrayAdd_appends_witness:
  "\<exists>d'. CayenneDataArrayAdd example_array (Some [99]) (Some [50, 49]) = Some (0, d') \<and> pairs d' = [(Some [99], Some [50, 49])]"
  using CayenneDataArrayAdd_appends [OF wf_example_array(1), of "Some [99]" "Some [50, 49]"] wf_example_array(2)
  by (auto simp: example_array_def CayenneDataArrayInit_def CAYENNE_MAX_MESSAGE_VALUES_def)

text \<open>Numbers are stored as their decimal text: for every 32-bit value, signed or unsigned, the local array of the
  conversions is large enough, and adding the number is adding its text.\<close>

lemma CayenneDataArrayAdd_numbers:
  assumes "-2147483648 \<le> x" and "x < 4294967296"
  shows "CayenneDataArrayAddInt d u x = CayenneDataArrayAdd d u (Some (dec_int x)) \<and>
     CayenneDataArrayAddUInt d u x = CayenneDataArrayAdd d u (Some (dec_int x)) \<and>
     CayenneDataArrayAddLong d u x = CayenneDataArrayAdd d u (Some (dec_int x)) \<and>
     CayenneDataArrayAddULong d u x = CayenneDataArrayAdd d u (Some (dec_int x))"
  using printed_fits [of "dec_int x" 33] printed_fits [of "dec_int x" 34] dec_int_32 [OF assms]
  by (simp add: CayenneDataArrayAddInt_def CayenneDataArrayAddUInt_def CayenneDataArrayAddLong_def CayenneDataArrayAddULong_def)

lemma CayenneDataArrayAdd_numbers_witness:
  "CayenneDataArrayAddInt example_array None (-2147483648) = CayenneDataArrayAdd example_array None (Some (dec_int (-2147483648)))"
  using CayenneDataArrayAdd_numbers [of "-2147483648" example_array None] by simp

end
