(* ===== verification/Esp.thy ===== *)
theory Esp
  imports CString
begin

text \<open>
  What the ESP-IDF code of the firmware has in common: error codes, \<open>ESP_ERROR_CHECK\<close> and the ways in which a C function
  can end.  Code that uses the platform threads a state \<open>'s\<close>, and its result is an \<open>outcome\<close>:

  \<^item> \<open>Return x s\<close>: it returned \<open>x\<close>;
  \<^item> \<open>Abort e s\<close>: \<open>ESP_ERROR_CHECK\<close> was called with the error \<open>e\<close> and aborted the program;
  \<^item> \<open>Restart s\<close>: it called \<open>esp_restart\<close>;
  \<^item> \<open>Forever s\<close>: it entered a loop without exit in the state \<open>s\<close>;
  \<^item> \<open>Undefined\<close>: undefined behaviour, such as an access outside an object.

  \<open>andThen\<close> sequences two steps; a step that does not return ends the sequence.
\<close>

datatype ('a, 's) outcome = Return 'a 's | Abort int 's | Restart 's | Forever 's | Undefined

fun andThen :: "('a, 's) outcome \<Rightarrow> ('a \<Rightarrow> 's \<Rightarrow> ('b, 's) outcome) \<Rightarrow> ('b, 's) outcome" where
  "andThen (Return x s) k = k x s"
| "andThen (Abort e s) k = Abort e s"
| "andThen (Restart s) k = Restart s"
| "andThen (Forever s) k = Forever s"
| "andThen Undefined k = Undefined"

definition ESP_OK :: int where [simp]: "ESP_OK = 0"

definition ESP_ERROR_CHECK :: "int \<Rightarrow> 's \<Rightarrow> (unit, 's) outcome" where
  "ESP_ERROR_CHECK err s = (if err = ESP_OK then Return () s else Abort err s)"

text \<open>The idiom \<open>if (err != ESP_OK) { log; ESP_ERROR_CHECK(err); return err; }\<close> in front of the rest \<open>k\<close> of the function.\<close>

definition unless_error :: "int \<Rightarrow> 's \<Rightarrow> (int, 's) outcome \<Rightarrow> (int, 's) outcome" where
  "unless_error err s k = (if err \<noteq> ESP_OK then andThen (ESP_ERROR_CHECK err s) (\<lambda>_ s. Return err s) else k)"

lemma ESP_ERROR_CHECK_simps [simp]: "ESP_ERROR_CHECK 0 s = Return () s" "err \<noteq> 0 \<Longrightarrow> ESP_ERROR_CHECK err s = Abort err s"
  by (simp_all add: ESP_ERROR_CHECK_def)

lemma unless_error_simps [simp]: "unless_error 0 s k = k" "err \<noteq> 0 \<Longrightarrow> unless_error err s k = Abort err s"
  by (simp_all add: unless_error_def)

lemma andThen_assoc: "andThen (andThen m f) g = andThen m (\<lambda>x s. andThen (f x s) g)"
  by (cases m) simp_all

lemma andThen_Return_iff:
  "andThen m k = Return y t \<longleftrightarrow> (\<exists>x s. m = Return x s \<and> k x s = Return y t)"
  by (cases m) simp_all

text \<open>An outcome on a part of the state, as an outcome on the whole.\<close>

fun lift_outcome :: "('t \<Rightarrow> 's) \<Rightarrow> ('a, 't) outcome \<Rightarrow> ('a, 's) outcome" where
  "lift_outcome f (Return x t) = Return x (f t)"
| "lift_outcome f (Abort e t) = Abort e (f t)"
| "lift_outcome f (Restart t) = Restart (f t)"
| "lift_outcome f (Forever t) = Forever (f t)"
| "lift_outcome f Undefined = Undefined"

text \<open>\<open>strcpy\<close> of a string into an object, at its start.\<close>

definition c_strcpy :: "mem \<Rightarrow> byte list \<Rightarrow> mem option" where
  "c_strcpy dst s = map_option fst (emit (s @ [0]) (dst, 0))"

lemma c_strcpy_eq: "c_strcpy dst s = (if length s < length dst then Some (s @ 0 # drop (Suc (length s)) dst) else None)"
  by (auto simp: c_strcpy_def emit_eq put_0)

end
