(* ===== verification/CDouble.thy ===== *)
theory CDouble
  imports CPrelude Complex_Main "HOL-Library.Log_Nat"
begin

text \<open>
  C \<open>double\<close> arithmetic as far as the sensor code uses it: values are rationals, and every operation is the exact one followed by \<open>fl\<close>, the
  rounding to 53 binary digits, ties to even.  The magnitudes in this program are far from the limits of the exponent, which is not bounded here.
  A conversion to an integer type truncates towards zero and is undefined when the result does not fit.
\<close>

text \<open>The binary exponent of a positive number: \<open>2 ^ e \<le> q < 2 ^ (e + 1)\<close>.\<close>

definition exponent :: "rat \<Rightarrow> int" where
  "exponent q = (if 1 \<le> q then bitlen \<lfloor>q\<rfloor> - 1 else - bitlen (\<lceil>1 / q\<rceil> - 1))"

definition scale2 :: "int \<Rightarrow> rat \<Rightarrow> rat" where
  "scale2 k q = (if 0 \<le> k then q * 2 ^ nat k else q / 2 ^ nat (- k))"

definition nearest_even :: "rat \<Rightarrow> int" where
  "nearest_even x = (let n = \<lfloor>x\<rfloor>; r = x - of_int n in if r < 1 / 2 \<or> (r = 1 / 2 \<and> even n) then n else n + 1)"

definition fl :: "rat \<Rightarrow> rat" where
  "fl q = (if q = 0 then 0
     else let k = 52 - exponent \<bar>q\<bar> in scale2 (- k) (of_int (nearest_even (scale2 k q))))"

definition dadd :: "rat \<Rightarrow> rat \<Rightarrow> rat" where "dadd x y = fl (x + y)"
definition dsub :: "rat \<Rightarrow> rat \<Rightarrow> rat" where "dsub x y = fl (x - y)"
definition dmul :: "rat \<Rightarrow> rat \<Rightarrow> rat" where "dmul x y = fl (x * y)"
definition ddiv :: "rat \<Rightarrow> rat \<Rightarrow> rat" where "ddiv x y = fl (x / y)"

text \<open>The conversion of an integer to \<open>double\<close>, and back to a signed integer type of \<open>w\<close> bits.\<close>

definition d_of_int :: "int \<Rightarrow> rat" where "d_of_int n = fl (of_int n)"

definition d_to_int :: "nat \<Rightarrow> rat \<Rightarrow> int option" where
  "d_to_int w q = (let v = (if 0 \<le> q then \<lfloor>q\<rfloor> else \<lceil>q\<rceil>) in if - (2 ^ (w - 1)) \<le> v \<and> v < 2 ^ (w - 1) then Some v else None)"

section \<open>The rounding error\<close>

lemma scale2_inverse: "scale2 (- k) (scale2 k q) = q"
  by (simp add: scale2_def)

lemma scale2_diff: "scale2 k x - scale2 k y = scale2 k (x - y)"
  by (simp add: scale2_def left_diff_distrib diff_divide_distrib)

lemma scale2_abs: "\<bar>scale2 k x\<bar> = scale2 k \<bar>x\<bar>"
  by (simp add: scale2_def abs_mult)

lemma scale2_mono: "x \<le> y \<Longrightarrow> scale2 k x \<le> scale2 k y"
  by (simp add: scale2_def divide_right_mono)

lemma nearest_even_error: "\<bar>of_int (nearest_even x) - x\<bar> \<le> 1 / 2"
proof -
  have "of_int \<lfloor>x\<rfloor> \<le> x" "x < of_int \<lfloor>x\<rfloor> + 1" by linarith+
  then show ?thesis by (auto simp: nearest_even_def Let_def)
qed

lemma exponent_lower:
  assumes "0 < q"
  shows "scale2 (exponent q) 1 \<le> q"
proof (cases "1 \<le> q")
  case True
  then have n: "1 \<le> \<lfloor>q\<rfloor>" by simp
  then have "2 ^ nat (bitlen \<lfloor>q\<rfloor> - 1) \<le> \<lfloor>q\<rfloor>" using bitlen_bounds [of "\<lfloor>q\<rfloor>"] by simp
  then have "(2 :: rat) ^ nat (bitlen \<lfloor>q\<rfloor> - 1) \<le> of_int \<lfloor>q\<rfloor>" by (metis of_int_le_iff of_int_numeral of_int_power)
  then have "(2 :: rat) ^ nat (bitlen \<lfloor>q\<rfloor> - 1) \<le> q" by (rule order_trans) simp
  moreover have "0 \<le> bitlen \<lfloor>q\<rfloor> - 1" using n bitlen_bounds [of "\<lfloor>q\<rfloor>"] by (simp add: bitlen_def floorlog_def)
  ultimately show ?thesis using True by (simp add: exponent_def scale2_def)
next
  case False
  let ?m = "\<lceil>1 / q\<rceil> - 1" and ?b = "bitlen (\<lceil>1 / q\<rceil> - 1)"
  have "1 < 1 / q" using False assms by (simp add: field_simps)
  then have m: "1 \<le> ?m" by linarith
  then have "?m < 2 ^ nat ?b" using bitlen_bounds [of ?m] by simp
  then have "\<lceil>1 / q\<rceil> \<le> 2 ^ nat ?b" by simp
  then have "1 / q \<le> of_int (2 ^ nat ?b)" by (simp add: ceiling_le_iff)
  then have "1 / 2 ^ nat ?b \<le> q" using assms by (simp add: field_simps)
  moreover have "0 \<le> ?b" by (rule bitlen_nonneg)
  ultimately show ?thesis using False by (cases "?b = 0") (simp_all add: exponent_def scale2_def)
qed

lemma scale2_mult_exponent: "scale2 (52 - e) (scale2 e 1) = 2 ^ 52"
proof -
  have "(2 :: rat) ^ nat (52 - e) * 2 ^ nat e = 2 ^ 52" if "0 \<le> e" "e \<le> 52"
    using that by (simp flip: power_add nat_add_distrib)
  moreover have "(2 :: rat) ^ nat e = 2 ^ 52 * 2 ^ nat (e - 52)" if "52 < e"
    using that power_add [of "2 :: rat" 52 "nat (e - 52)"] by (simp add: nat_diff_distrib)
  moreover have "(2 :: rat) ^ nat (52 - e) = 2 ^ 52 * 2 ^ nat (- e)" if "e < 0"
  proof -
    have "nat (52 - e) = 52 + nat (- e)" using that by simp
    then show ?thesis by (simp only: power_add)
  qed
  ultimately show ?thesis by (auto simp: scale2_def field_simps)
qed

text \<open>One rounding changes a number by at most one part in \<open>2 ^ 53\<close>.\<close>

lemma fl_error: "\<bar>fl q - q\<bar> \<le> \<bar>q\<bar> / 2 ^ 53"
proof (cases "q = 0")
  case False
  let ?k = "52 - exponent \<bar>q\<bar>"
  have "fl q - q = scale2 (- ?k) (of_int (nearest_even (scale2 ?k q)) - scale2 ?k q)"
    using False scale2_inverse [of ?k q] by (simp add: fl_def Let_def flip: scale2_diff)
  then have "\<bar>fl q - q\<bar> = scale2 (- ?k) \<bar>of_int (nearest_even (scale2 ?k q)) - scale2 ?k q\<bar>" by (simp add: scale2_abs)
  also have "\<dots> \<le> scale2 (- ?k) (1 / 2)" by (intro scale2_mono nearest_even_error)
  finally have 1: "\<bar>fl q - q\<bar> \<le> scale2 (- ?k) (1 / 2)" .
  have "2 ^ 52 \<le> scale2 ?k \<bar>q\<bar>"
    using scale2_mono [OF exponent_lower, of "\<bar>q\<bar>" ?k] False by (simp add: scale2_mult_exponent)
  from scale2_mono [OF this, of "- ?k"] have "scale2 (- ?k) (2 ^ 52) \<le> \<bar>q\<bar>" by (simp only: scale2_inverse)
  moreover have "scale2 (- ?k) (1 / 2) = scale2 (- ?k) (2 ^ 52) / 2 ^ 53" by (simp add: scale2_def)
  ultimately show ?thesis using 1 by simp
qed (simp add: fl_def)

section \<open>Exact results\<close>

lemma nearest_even_of_int [simp]: "nearest_even (of_int n) = n"
  by (simp add: nearest_even_def)

lemma scale2_dyadic:
  assumes "int k \<le> j"
  shows "\<exists>m. scale2 j (of_int n / 2 ^ k) = of_int m"
proof -
  have "(2 :: rat) ^ nat j = 2 ^ k * 2 ^ nat (j - int k)"
    using assms by (simp flip: power_add add: nat_diff_distrib)
  then have "scale2 j (of_int n / 2 ^ k) = of_int (n * 2 ^ nat (j - int k))"
    using assms by (simp add: scale2_def)
  then show ?thesis by blast
qed

lemma scale2_less_power:
  assumes "scale2 e 1 < (2 :: rat) ^ 53 / 2 ^ k"
  shows "int k \<le> 52 - e"
proof (rule ccontr)
  assume "\<not> int k \<le> 52 - e"
  then have e: "53 \<le> e + int k" by simp
  show False
  proof (cases "0 \<le> e")
    case True
    have "(2 :: rat) ^ 53 \<le> 2 ^ (nat e + k)" using e True by (intro power_increasing) auto
    with assms True show False by (simp add: scale2_def power_add field_simps)
  next
    case False
    have "(2 :: rat) ^ (53 + nat (- e)) \<le> 2 ^ k" using e False by (intro power_increasing) auto
    with assms False show False by (simp add: scale2_def power_add field_simps)
  qed
qed

lemma fl_dyadic:
  assumes "\<bar>n\<bar> < 2 ^ 53"
  shows "fl (of_int n / 2 ^ k) = of_int n / 2 ^ k"
proof (cases "n = 0")
  case False
  let ?q = "of_int n / 2 ^ k :: rat"
  let ?j = "52 - exponent \<bar>?q\<bar>"
  have "\<bar>of_int n\<bar> < (2 :: rat) ^ 53" using assms by (metis of_int_abs of_int_less_iff of_int_numeral of_int_power)
  then have "\<bar>?q\<bar> < 2 ^ 53 / 2 ^ k" by (simp add: abs_divide divide_strict_right_mono)
  then have "scale2 (exponent \<bar>?q\<bar>) 1 < 2 ^ 53 / 2 ^ k"
    using exponent_lower [of "\<bar>?q\<bar>"] False by simp
  then have "int k \<le> ?j" by (rule scale2_less_power)
  then obtain m where m: "scale2 ?j ?q = of_int m" using scale2_dyadic [of k ?j n] by blast
  then have "scale2 (- ?j) (of_int m) = ?q" by (metis scale2_inverse)
  then show ?thesis using False m by (simp add: fl_def Let_def)
qed (simp add: fl_def)

lemma fl_of_int: "\<bar>n\<bar> < 2 ^ 53 \<Longrightarrow> fl (of_int n) = of_int n"
  using fl_dyadic [of n 0] by simp

lemma fl_numeral [simp]: "numeral n < (2 :: int) ^ 53 \<Longrightarrow> fl (numeral n) = numeral n"
  using fl_of_int [of "numeral n"] by simp

lemma d_of_int_exact: "\<bar>n\<bar> < 2 ^ 53 \<Longrightarrow> d_of_int n = of_int n"
  by (simp add: d_of_int_def fl_of_int)

text \<open>A number that is close to a fraction with a small denominator, and equal to it where that is an integer, truncates as the fraction does.\<close>

lemma trunc_close:
  fixes y z :: rat
  assumes "0 < b" and "y = of_int a / of_int b" and "\<bar>z - y\<bar> < 1 / of_int b" and "b dvd a \<Longrightarrow> z = y"
  shows "(if 0 \<le> z then \<lfloor>z\<rfloor> else \<lceil>z\<rceil>) = (if 0 \<le> y then \<lfloor>y\<rfloor> else \<lceil>y\<rceil>)"
proof (cases "b dvd a")
  case False
  let ?n = "\<lfloor>y\<rfloor>"
  have fl: "?n = a div b" using assms(1,2) by (simp add: floor_divide_of_int_eq)
  have "a mod b \<noteq> 0" using False by (simp add: dvd_eq_mod_eq_0)
  then have "0 < a mod b" "a mod b < b" using pos_mod_sign [OF assms(1), of a] pos_mod_bound [OF assms(1), of a] by simp_all
  moreover have "a = ?n * b + a mod b" using fl by simp
  moreover have "(?n + 1) * b = ?n * b + b" by (simp add: algebra_simps)
  ultimately have "?n * b + 1 \<le> a" "a + 1 \<le> (?n + 1) * b" by linarith+
  then have "of_int ?n * of_int b + 1 \<le> (of_int a :: rat)" "(of_int a :: rat) + 1 \<le> (of_int ?n + 1) * of_int b"
    by (metis of_int_1 of_int_add of_int_le_iff of_int_mult)+
  moreover have b: "(0 :: rat) < of_int b" using assms(1) by simp
  moreover have "of_int a = y * of_int b" using assms(1,2) by simp
  ultimately have "of_int ?n + 1 / of_int b \<le> y" "y + 1 / of_int b \<le> of_int ?n + 1"
    by (simp_all add: pos_le_divide_eq pos_divide_le_eq field_simps)
  with assms(3) have z: "of_int ?n < z" "z < of_int ?n + 1" and y: "of_int ?n < y" "y < of_int ?n + 1" using b by (auto simp: abs_less_iff)
  then have "\<lfloor>z\<rfloor> = ?n" "\<lceil>z\<rceil> = ?n + 1" "\<lceil>y\<rceil> = ?n + 1" by linarith+
  moreover have "0 \<le> z \<longleftrightarrow> 0 \<le> y"
  proof (cases "0 \<le> ?n")
    case True
    then have "(0 :: rat) \<le> of_int ?n" by simp
    then show ?thesis using z y by linarith
  next
    case False
    then have "of_int ?n + (1 :: rat) \<le> 0" by (metis add1_zle_eq not_le of_int_0 of_int_1 of_int_add of_int_le_iff)
    then show ?thesis using z y by linarith
  qed
  ultimately show ?thesis by simp
qed (use assms in simp)

lemma d_to_int_close:
  "0 < b \<Longrightarrow> y = of_int a / of_int b \<Longrightarrow> \<bar>z - y\<bar> < 1 / of_int b \<Longrightarrow> (b dvd a \<Longrightarrow> z = y) \<Longrightarrow> d_to_int w z = d_to_int w y"
  using trunc_close [of b y a z] by (simp add: d_to_int_def)

lemma trunc_cdiv: "0 < b \<Longrightarrow> (if 0 \<le> (of_int a / of_int b :: rat) then \<lfloor>of_int a / of_int b :: rat\<rfloor> else \<lceil>of_int a / of_int b :: rat\<rceil>) = cdiv a b"
proof -
  assume b: "0 < b"
  have "\<lceil>of_int a / of_int b :: rat\<rceil> = - ((- a) div b)" by (simp add: ceiling_divide_eq_div)
  then show ?thesis using b by (auto simp: cdiv_def zero_le_divide_iff floor_divide_of_int_eq sgn_if)
qed

lemma d_to_int_cdiv:
  "0 < b \<Longrightarrow> d_to_int w (of_int a / of_int b) = (if - (2 ^ (w - 1)) \<le> cdiv a b \<and> cdiv a b < 2 ^ (w - 1) then Some (cdiv a b) else None)"
  using trunc_cdiv [of b a] by (simp only: d_to_int_def Let_def)

lemma d_to_int_frac:
  assumes "0 < b" and "\<bar>a\<bar> < 2 ^ 53"
  shows "d_to_int w (fl (of_int a / of_int b)) = (if - (2 ^ (w - 1)) \<le> cdiv a b \<and> cdiv a b < 2 ^ (w - 1) then Some (cdiv a b) else None)"
proof -
  let ?y = "of_int a / of_int b :: rat"
  have b: "(0 :: rat) < of_int b" using assms(1) by simp
  have "\<bar>of_int a\<bar> < (2 :: rat) ^ 53" using assms(2) by (metis of_int_abs of_int_less_iff of_int_numeral of_int_power)
  then have "\<bar>?y\<bar> / 2 ^ 53 < 1 / of_int b" using b by (simp add: abs_divide field_simps)
  with fl_error [of ?y] have "\<bar>fl ?y - ?y\<bar> < 1 / of_int b" by linarith
  moreover have "fl ?y = ?y" if dvd: "b dvd a"
  proof -
    obtain c where c: "a = b * c" using dvd by (rule dvdE)
    have "\<bar>c\<bar> \<le> \<bar>a\<bar>" using assms(1) c by (simp add: abs_mult mult_le_cancel_right1)
    then have "fl (of_int c) = of_int c" using assms(2) by (intro fl_of_int) simp
    moreover have "?y = of_int c" using assms(1) c by simp
    ultimately show ?thesis by simp
  qed
  ultimately have "d_to_int w (fl ?y) = d_to_int w ?y" using assms(1) by (intro d_to_int_close) auto
  then show ?thesis using d_to_int_cdiv [OF assms(1), of w a] by simp
qed

end
