(* ===== verification/Bluetooth.thy ===== *)
theory Bluetooth
  imports Esp CDouble
begin

text \<open>
  \<^verbatim>\<open>main/src/Bluetooth/esp32iot_bluetooth.c\<close>: the GATT client that follows one sensor tag (``MEAS Tag BA5C'') with a
  humidity sensor HTU21D, a pressure sensor MS5637 and a battery.

  The Bluedroid library is the parameter \<open>bt\<close>: calls act on a world \<open>'w\<close>; those whose result is only logged give just the world.
  A library call that fills an array gives the elements it stores; more elements than the array has, or a read of an element that was not
  stored, is \<open>Undefined\<close>.  The received events are values of \<open>gattc_event\<close> and \<open>gap_event\<close> with the fields the code reads; a received value is
  the list of its bytes, and a read behind its end is \<open>Undefined\<close>.  The globals are the record \<open>ble\<close>; \<open>gl_profile_tab\<close> has one entry
  (\<open>PROFILE_NUM\<close> is 1), whose callback is the handler below.  Handles and connection numbers are \<open>uint16_t\<close> values.
\<close>

section \<open>Data\<close>

record BA5C_handle_data_t =
  conn_device :: bool
  HTU21D_service_start_handle :: int
  HTU21D_service_end_handle :: int
  HTU21D_data_char_handle :: int
  HTU21D_status_char_handle :: int
  HTU21D_get_service :: bool
  MS5637_service_start_handle :: int
  MS5637_service_end_handle :: int
  MS5637_data_char_handle :: int
  MS5637_calibration_char_handle :: int
  MS5637_status_char_handle :: int
  MS5637_get_service :: bool
  Battery_service_start_handle :: int
  Battery_service_end_handle :: int
  Battery_data_char_handle :: int
  Battery_get_service :: bool

record BA5C_data_t =
  HTU21D_recived_notification_counter :: int
  HTU21D_temperature :: int
  HTU21D_humidity :: int
  HTU21D_status :: int
  MS5637_recived_notification_counter :: int
  MS5637_D1 :: int
  MS5637_D2 :: int
  MS5637_temperature :: int
  MS5637_pressure :: int
  MS5637_status :: int
  Battery_level :: int
  Battery_status :: int

record gattc_profile_inst =
  gattc_if :: int
  conn_id :: int
  remote_bda :: "byte list"
  BA5C_handle_data :: BA5C_handle_data_t

record 'w ble =
  profile :: gattc_profile_inst
  BA5C_data :: BA5C_data_t
  Isconnecting :: bool
  stop_scan_done :: bool
  ble_world :: 'w

record bt_uuid =
  uu_len :: nat
  uu_bytes :: "byte list"

definition uuid128 :: "byte list \<Rightarrow> bt_uuid" where
  "uuid128 bs = \<lparr>uu_len = 16, uu_bytes = bs\<rparr>"

text \<open>The identifiers of \<open>BA5C_uuid\<close>: the vendor base with two bytes per service or characteristic.\<close>

definition BA5C_base :: "byte \<Rightarrow> byte \<Rightarrow> bt_uuid" where
  "BA5C_base lo hi = uuid128 [0x00, 0x00, 0x00, 0x00, 0x00, 0x00, 0x00, 0xB0, 0x00, 0x40, 0x51, 0x04, lo, hi, 0x00, 0xF0]"

definition notify_descr_char_uuid :: bt_uuid where "notify_descr_char_uuid = \<lparr>uu_len = 2, uu_bytes = [0x02, 0x29]\<rparr>"
definition HTU21D_service_uuid :: bt_uuid where "HTU21D_service_uuid = BA5C_base 0x20 0xAA"
definition HTU21D_data_char_uuid :: bt_uuid where "HTU21D_data_char_uuid = BA5C_base 0x21 0xAA"
definition HTU21D_status_char_uuid :: bt_uuid where "HTU21D_status_char_uuid = BA5C_base 0x2F 0xAA"
definition MS5637_service_uuid :: bt_uuid where "MS5637_service_uuid = BA5C_base 0x40 0xAA"
definition MS5637_data_char_uuid :: bt_uuid where "MS5637_data_char_uuid = BA5C_base 0x41 0xAA"
definition MS5637_calibration_char_uuid :: bt_uuid where "MS5637_calibration_char_uuid = BA5C_base 0x43 0xAA"
definition MS5637_status_char_uuid :: bt_uuid where "MS5637_status_char_uuid = BA5C_base 0x4F 0xAA"
definition Battery_service_uuid :: bt_uuid where "Battery_service_uuid = BA5C_base 0x0F 0x18"
definition Battery_data_char_uuid :: bt_uuid where "Battery_data_char_uuid = BA5C_base 0x19 0x2A"

record char_elem =
  char_handle :: int
  properties :: byte

record descr_elem =
  descr_handle :: int
  descr_uuid :: bt_uuid

datatype attr_type = ESP_GATT_DB_CHARACTERISTIC | ESP_GATT_DB_DESCRIPTOR

record 'w bt =
  bt_malloc :: "nat \<Rightarrow> 'w \<Rightarrow> bool \<times> 'w"
  set_scan_params :: "'w \<Rightarrow> 'w"
  start_scanning :: "int \<Rightarrow> 'w \<Rightarrow> 'w"
  stop_scanning :: "'w \<Rightarrow> 'w"
  gattc_open :: "int \<Rightarrow> byte list \<Rightarrow> 'w \<Rightarrow> 'w"
  send_mtu_req :: "int \<Rightarrow> int \<Rightarrow> 'w \<Rightarrow> 'w"
  search_service :: "int \<Rightarrow> int \<Rightarrow> bt_uuid \<Rightarrow> 'w \<Rightarrow> 'w"
  get_attr_count :: "int \<Rightarrow> int \<Rightarrow> attr_type \<Rightarrow> int \<Rightarrow> int \<Rightarrow> int \<Rightarrow> nat \<Rightarrow> 'w \<Rightarrow> nat \<times> 'w" \<comment> \<open>the count after the call; the status is only logged\<close>
  get_char_by_uuid :: "int \<Rightarrow> int \<Rightarrow> int \<Rightarrow> int \<Rightarrow> bt_uuid \<Rightarrow> nat \<Rightarrow> 'w \<Rightarrow> int \<times> char_elem list \<times> nat \<times> 'w"
  get_descr_by_char_handle :: "int \<Rightarrow> int \<Rightarrow> int \<Rightarrow> bt_uuid \<Rightarrow> nat \<Rightarrow> 'w \<Rightarrow> descr_elem list \<times> nat \<times> 'w"
  register_for_notify :: "int \<Rightarrow> byte list \<Rightarrow> int \<Rightarrow> 'w \<Rightarrow> 'w"
  write_char_descr :: "int \<Rightarrow> int \<Rightarrow> int \<Rightarrow> byte list \<Rightarrow> 'w \<Rightarrow> 'w"
  read_char :: "int \<Rightarrow> int \<Rightarrow> int \<Rightarrow> 'w \<Rightarrow> 'w"
  resolve_adv_data :: "byte list \<Rightarrow> byte list option" \<comment> \<open>the complete name in an advertisement\<close>

datatype gattc_event =
    REG_EVT int int \<comment> \<open>status, application\<close>
  | CONNECT_EVT
  | OPEN_EVT int int "byte list" \<comment> \<open>status, connection, address\<close>
  | CFG_MTU_EVT int \<comment> \<open>connection\<close>
  | SEARCH_RES_EVT bt_uuid int int \<comment> \<open>service, first and last handle\<close>
  | SEARCH_CMPL_EVT int int \<comment> \<open>status, connection\<close>
  | REG_FOR_NOTIFY_EVT int int \<comment> \<open>status, handle\<close>
  | NOTIFY_EVT int "byte list" \<comment> \<open>handle, value\<close>
  | READ_CHAR_EVT int int "byte list" \<comment> \<open>status, handle, value\<close>
  | QUEUE_FULL_EVT
  | WRITE_DESCR_EVT
  | WRITE_CHAR_EVT
  | SRVC_CHG_EVT
  | DISCONNECT_EVT "byte list" \<comment> \<open>address\<close>
  | OTHER_EVT

datatype gap_event =
    SCAN_PARAM_SET_COMPLETE
  | SCAN_RESULT_INQ_RES "byte list" "byte list" \<comment> \<open>address, advertisement\<close>
  | OTHER_GAP_EVT \<comment> \<open>events that are only logged or ignored\<close>

section \<open>Helpers of the code\<close>

definition int32 :: "int \<Rightarrow> int option" where
  "int32 x = (if -2147483648 \<le> x \<and> x < 2147483648 then Some x else None)"

text \<open>\<open>hexadecimalToDecimal\<close>, from the last character to the first; other characters are skipped.\<close>

fun hex_loop :: "byte list \<Rightarrow> int \<Rightarrow> int \<Rightarrow> int option" where
  "hex_loop [] base dec_val = Some dec_val"
| "hex_loop (c # ds) base dec_val =
     (if 48 \<le> uint c \<and> uint c \<le> 57 then do {
        d \<leftarrow> int32 ((uint c - 48) * base); dec_val \<leftarrow> int32 (dec_val + d); base \<leftarrow> int32 (base * 16); hex_loop ds base dec_val }
      else if 65 \<le> uint c \<and> uint c \<le> 70 then do {
        d \<leftarrow> int32 ((uint c - 55) * base); dec_val \<leftarrow> int32 (dec_val + d); base \<leftarrow> int32 (base * 16); hex_loop ds base dec_val }
      else hex_loop ds base dec_val)"

definition hexadecimalToDecimal :: "byte list \<Rightarrow> int option" where
  "hexadecimalToDecimal hexVal = hex_loop (rev hexVal) 1 0"

definition on_world :: "('w \<Rightarrow> 'w) \<Rightarrow> 'w ble \<Rightarrow> 'w ble" where
  "on_world f s = s\<lparr>ble_world := f (ble_world s)\<rparr>"

definition handles :: "'w ble \<Rightarrow> BA5C_handle_data_t" where
  "handles s = BA5C_handle_data (profile s)"

definition on_handles :: "(BA5C_handle_data_t \<Rightarrow> BA5C_handle_data_t) \<Rightarrow> 'w ble \<Rightarrow> 'w ble" where
  "on_handles f s = s\<lparr>profile := (profile s)\<lparr>BA5C_handle_data := f (BA5C_handle_data (profile s))\<rparr>\<rparr>"

definition on_data :: "(BA5C_data_t \<Rightarrow> BA5C_data_t) \<Rightarrow> 'w ble \<Rightarrow> 'w ble" where
  "on_data f s = s\<lparr>BA5C_data := f (BA5C_data s)\<rparr>"

definition start_scan :: "'w bt \<Rightarrow> 'w ble \<Rightarrow> 'w ble" where
  "start_scan bt s = on_world (start_scanning bt 30) (s\<lparr>stop_scan_done := False, Isconnecting := False\<rparr>)"

section \<open>Discovery\<close>

text \<open>\<open>ESP_GATTC_OPEN_EVT\<close>; the address is an array of 6 bytes.\<close>

definition handle_open :: "'w bt \<Rightarrow> int \<Rightarrow> int \<Rightarrow> int \<Rightarrow> byte list \<Rightarrow> 'w ble \<Rightarrow> 'w ble" where
  "handle_open bt gif status conn bda s =
     (if status \<noteq> 0 then on_handles (\<lambda>d. d\<lparr>conn_device := False\<rparr>) s
      else on_world (send_mtu_req bt gif conn) (s\<lparr>profile := (profile s)\<lparr>remote_bda := bda, conn_id := conn\<rparr>\<rparr>))"

definition handle_cfg_mtu :: "'w bt \<Rightarrow> int \<Rightarrow> int \<Rightarrow> 'w ble \<Rightarrow> 'w ble" where
  "handle_cfg_mtu bt gif conn s = on_world (\<lambda>w. search_service bt gif conn Battery_service_uuid
     (search_service bt gif conn MS5637_service_uuid (search_service bt gif conn HTU21D_service_uuid w))) s"

definition is_service :: "bt_uuid \<Rightarrow> bt_uuid \<Rightarrow> bool" where
  "is_service u service \<longleftrightarrow> uu_len u = 16 \<and> take 16 (uu_bytes u) = take 16 (uu_bytes service)"

definition handle_search_res :: "bt_uuid \<Rightarrow> int \<Rightarrow> int \<Rightarrow> 'w ble \<Rightarrow> 'w ble" where
  "handle_search_res u first last_handle s =
     (if is_service u HTU21D_service_uuid then on_handles (\<lambda>d. d\<lparr>HTU21D_get_service := True, MS5637_get_service := False, Battery_get_service := False,
          HTU21D_service_start_handle := first, HTU21D_service_end_handle := last_handle\<rparr>) s
      else if is_service u MS5637_service_uuid then on_handles (\<lambda>d. d\<lparr>HTU21D_get_service := False, MS5637_get_service := True, Battery_get_service := False,
          MS5637_service_start_handle := first, MS5637_service_end_handle := last_handle\<rparr>) s
      else if is_service u Battery_service_uuid then on_handles (\<lambda>d. d\<lparr>HTU21D_get_service := False, MS5637_get_service := False, Battery_get_service := True,
          Battery_service_start_handle := first, Battery_service_end_handle := last_handle\<rparr>) s
      else s)"

text \<open>
  One query of \<open>ESP_GATTC_SEARCH_CMPL_EVT\<close> for a characteristic: the array has \<open>n\<close> elements; if the first one found has the property
  \<open>prop\<close>, its handle is kept by \<open>set_handle\<close>, and notifications are asked for when \<open>notify\<close> holds.
\<close>

definition find_char ::
    "'w bt \<Rightarrow> int \<Rightarrow> int \<Rightarrow> int \<Rightarrow> int \<Rightarrow> bt_uuid \<Rightarrow> byte \<Rightarrow> nat \<Rightarrow> (int \<Rightarrow> BA5C_handle_data_t \<Rightarrow> BA5C_handle_data_t) \<Rightarrow> bool \<Rightarrow>
     'w ble \<Rightarrow> (unit, 'w ble) outcome" where
  "find_char bt gif conn first last_handle u prop n set_handle notify s =
     (let (status, elems, count, w) = get_char_by_uuid bt gif conn first last_handle u n (ble_world s); s = s\<lparr>ble_world := w\<rparr> in
      if n < length elems then Undefined
      else if status \<noteq> 0 \<or> count = 0 then Return () s
      else (case elems of
          [] \<Rightarrow> Undefined
        | e # _ \<Rightarrow>
            if properties e AND prop \<noteq> 0
            then (let s = on_handles (set_handle (char_handle e)) s
                  in Return () (if notify then on_world (register_for_notify bt gif (remote_bda (profile s)) (char_handle e)) s else s))
            else Return () s))"

text \<open>The frame around the queries of one service: count its characteristics, allocate the array, query.\<close>

definition with_chars ::
    "'w bt \<Rightarrow> int \<Rightarrow> int \<Rightarrow> int \<Rightarrow> int \<Rightarrow> (nat \<Rightarrow> 'w ble \<Rightarrow> (unit, 'w ble) outcome) \<Rightarrow> 'w ble \<Rightarrow> (unit, 'w ble) outcome" where
  "with_chars bt gif conn first last_handle queries s =
     (let (count, w) = get_attr_count bt gif conn ESP_GATT_DB_CHARACTERISTIC first last_handle 0 0 (ble_world s) in
      if count > 0 then
        (let (ok, w) = bt_malloc bt count w in
         if ok then queries count (s\<lparr>ble_world := w\<rparr>) else Return () (s\<lparr>ble_world := w\<rparr>))
      else Return () (s\<lparr>ble_world := w\<rparr>))"

abbreviation NOTIFY_BIT :: byte where "NOTIFY_BIT \<equiv> 0x10"
abbreviation READ_BIT :: byte where "READ_BIT \<equiv> 0x02"

definition search_HTU21D :: "'w bt \<Rightarrow> int \<Rightarrow> int \<Rightarrow> 'w ble \<Rightarrow> (unit, 'w ble) outcome" where
  "search_HTU21D bt gif conn s =
     (let first = HTU21D_service_start_handle (handles s); last_handle = HTU21D_service_end_handle (handles s) in
      with_chars bt gif conn first last_handle (\<lambda>n s.
        andThen (find_char bt gif conn first last_handle HTU21D_data_char_uuid NOTIFY_BIT n (\<lambda>h d. d\<lparr>HTU21D_data_char_handle := h\<rparr>) True s) (\<lambda>_ s.
        find_char bt gif conn first last_handle HTU21D_status_char_uuid READ_BIT n (\<lambda>h d. d\<lparr>HTU21D_status_char_handle := h\<rparr>) False s)) s)"

definition search_MS5637 :: "'w bt \<Rightarrow> int \<Rightarrow> int \<Rightarrow> 'w ble \<Rightarrow> (unit, 'w ble) outcome" where
  "search_MS5637 bt gif conn s =
     (let first = MS5637_service_start_handle (handles s); last_handle = MS5637_service_end_handle (handles s) in
      with_chars bt gif conn first last_handle (\<lambda>n s.
        andThen (find_char bt gif conn first last_handle MS5637_data_char_uuid NOTIFY_BIT n (\<lambda>h d. d\<lparr>MS5637_data_char_handle := h\<rparr>) True s) (\<lambda>_ s.
        andThen (find_char bt gif conn first last_handle MS5637_calibration_char_uuid READ_BIT n (\<lambda>h d. d\<lparr>MS5637_calibration_char_handle := h\<rparr>) False s) (\<lambda>_ s.
        find_char bt gif conn first last_handle MS5637_status_char_uuid READ_BIT n (\<lambda>h d. d\<lparr>MS5637_status_char_handle := h\<rparr>) False s))) s)"

definition search_Battery :: "'w bt \<Rightarrow> int \<Rightarrow> int \<Rightarrow> 'w ble \<Rightarrow> (unit, 'w ble) outcome" where
  "search_Battery bt gif conn s =
     (let first = Battery_service_start_handle (handles s); last_handle = Battery_service_end_handle (handles s) in
      with_chars bt gif conn first last_handle (\<lambda>n s.
        find_char bt gif conn first last_handle Battery_data_char_uuid NOTIFY_BIT n (\<lambda>h d. d\<lparr>Battery_data_char_handle := h\<rparr>) True s) s)"

definition handle_search_cmpl :: "'w bt \<Rightarrow> int \<Rightarrow> int \<Rightarrow> int \<Rightarrow> 'w ble \<Rightarrow> (unit, 'w ble) outcome" where
  "handle_search_cmpl bt gif status conn s =
     (if status \<noteq> 0 then Return () s
      else if HTU21D_get_service (handles s) then search_HTU21D bt gif conn s
      else if MS5637_get_service (handles s) then search_MS5637 bt gif conn s
      else if Battery_get_service (handles s) then search_Battery bt gif conn s
      else Return () s)"

section \<open>Notifications and reads\<close>

text \<open>
  Switching notifications on for one of the three services: its descriptors are counted, fetched, and the first one is
  written if it is the client configuration.  \<open>notify_en\<close> is the \<open>uint16_t\<close> 1, sent as its two bytes.
\<close>

definition enable_notify :: "'w bt \<Rightarrow> int \<Rightarrow> int \<Rightarrow> int \<Rightarrow> int \<Rightarrow> int \<Rightarrow> 'w ble \<Rightarrow> (unit, 'w ble) outcome" where
  "enable_notify bt gif handle first last_handle data_handle s =
     (let conn = conn_id (profile s);
          (n, w) = get_attr_count bt gif conn ESP_GATT_DB_DESCRIPTOR first last_handle data_handle 0 (ble_world s) in
      if n > 0 then
        (let (ok, w) = bt_malloc bt n w in
         if \<not> ok then Return () (s\<lparr>ble_world := w\<rparr>)
         else (let (elems, count, w) = get_descr_by_char_handle bt gif conn handle notify_descr_char_uuid n w; s = s\<lparr>ble_world := w\<rparr> in
           if n < length elems then Undefined
           else if count = 0 then Return () s
           else (case elems of
               [] \<Rightarrow> Undefined
             | e # _ \<Rightarrow> Return () (if uu_len (descr_uuid e) = 2 \<and> take 2 (uu_bytes (descr_uuid e)) = uu_bytes notify_descr_char_uuid
                 then on_world (write_char_descr bt gif conn (descr_handle e) [1, 0]) s else s))))
      else Return () (s\<lparr>ble_world := w\<rparr>))"

definition handle_reg_for_notify :: "'w bt \<Rightarrow> int \<Rightarrow> int \<Rightarrow> int \<Rightarrow> 'w ble \<Rightarrow> (unit, 'w ble) outcome" where
  "handle_reg_for_notify bt gif status handle s =
     (let d = handles s in
      if status \<noteq> 0 then Return () s
      else if handle = HTU21D_data_char_handle d
      then enable_notify bt gif handle (HTU21D_service_start_handle d) (HTU21D_service_end_handle d) (HTU21D_data_char_handle d) s
      else if handle = MS5637_data_char_handle d
      then enable_notify bt gif handle (MS5637_service_start_handle d) (MS5637_service_end_handle d) (MS5637_data_char_handle d) s
      else if handle = Battery_data_char_handle d
      then enable_notify bt gif handle (Battery_service_start_handle d) (Battery_service_end_handle d) (Battery_data_char_handle d) s
      else Return () s)"

definition i16 :: "int \<Rightarrow> int" where
  "i16 x = (x + 32768) mod 65536 - 32768"

definition word_at :: "byte list \<Rightarrow> nat \<Rightarrow> int option" where
  "word_at v i = do { hi \<leftarrow> rd v i; lo \<leftarrow> rd v (i + 1); Some (256 * uint hi + uint lo) }"

definition triple_at :: "byte list \<Rightarrow> nat \<Rightarrow> int option" where
  "triple_at v i = do { a \<leftarrow> rd v i; b \<leftarrow> rd v (i + 1); c \<leftarrow> rd v (i + 2); Some (65536 * uint a + 256 * uint b + uint c) }"

text \<open>The conversions of the HTU21D, on the raw value as it is kept in an \<open>int16_t\<close>.\<close>

definition HTU21D_celsius :: "int \<Rightarrow> int option" where
  "HTU21D_celsius t = d_to_int 16 (dadd (fl (-(4685 / 100))) (ddiv (dmul (fl (17572 / 100)) (d_of_int t)) 65536))"

definition HTU21D_percent :: "int \<Rightarrow> int" where
  "HTU21D_percent h = i16 (-6 + cdiv (125 * h) 65536)"

definition read_interval :: int where "read_interval = 10"

definition notify_HTU21D :: "'w bt \<Rightarrow> int \<Rightarrow> byte list \<Rightarrow> 'w ble \<Rightarrow> (unit, 'w ble) outcome" where
  "notify_HTU21D bt gif v s =
     (case do { t \<leftarrow> word_at v 0; h \<leftarrow> word_at v 3; c \<leftarrow> HTU21D_celsius (i16 t); Some (c, HTU21D_percent (i16 h)) } of
        None \<Rightarrow> Undefined
      | Some (celsius, percent) \<Rightarrow>
         (let counter = (HTU21D_recived_notification_counter (BA5C_data s) + 1) mod 256;
              s = on_data (\<lambda>d. d\<lparr>HTU21D_temperature := celsius, HTU21D_humidity := percent, HTU21D_recived_notification_counter := counter\<rparr>) s in
          if counter \<ge> read_interval
          then Return () (on_data (\<lambda>d. d\<lparr>HTU21D_recived_notification_counter := 0\<rparr>)
            (on_world (\<lambda>w. read_char bt gif (conn_id (profile s)) (Battery_data_char_handle (handles s))
              (read_char bt gif (conn_id (profile s)) (HTU21D_status_char_handle (handles s)) w)) s))
          else Return () s))"

definition notify_MS5637 :: "'w bt \<Rightarrow> int \<Rightarrow> byte list \<Rightarrow> 'w ble \<Rightarrow> (unit, 'w ble) outcome" where
  "notify_MS5637 bt gif v s =
     (case do { d1 \<leftarrow> triple_at v 0; d2 \<leftarrow> triple_at v 3; Some (d1, d2) } of
        None \<Rightarrow> Undefined
      | Some (d1, d2) \<Rightarrow>
         (let counter = (MS5637_recived_notification_counter (BA5C_data s) + 1) mod 256;
              s = on_data (\<lambda>d. d\<lparr>MS5637_D1 := d1, MS5637_D2 := d2, MS5637_recived_notification_counter := counter\<rparr>) s in
          if counter \<ge> read_interval
          then Return () (on_data (\<lambda>d. d\<lparr>MS5637_recived_notification_counter := 0\<rparr>)
            (on_world (\<lambda>w. read_char bt gif (conn_id (profile s)) (MS5637_status_char_handle (handles s))
              (read_char bt gif (conn_id (profile s)) (MS5637_calibration_char_handle (handles s)) w)) s))
          else Return () s))"

definition store_battery :: "byte list \<Rightarrow> 'w ble \<Rightarrow> (unit, 'w ble) outcome" where
  "store_battery v s =
     (case do { l \<leftarrow> rd v 0; t \<leftarrow> rd v 1; Some (uint l, uint t) } of
        None \<Rightarrow> Undefined
      | Some (level, status) \<Rightarrow> Return () (on_data (\<lambda>d. d\<lparr>Battery_level := level, Battery_status := status\<rparr>) s))"

definition handle_notify :: "'w bt \<Rightarrow> int \<Rightarrow> int \<Rightarrow> byte list \<Rightarrow> 'w ble \<Rightarrow> (unit, 'w ble) outcome" where
  "handle_notify bt gif handle v s =
     (if handle = HTU21D_data_char_handle (handles s) then notify_HTU21D bt gif v s
      else if handle = MS5637_data_char_handle (handles s) then notify_MS5637 bt gif v s
      else if handle = Battery_data_char_handle (handles s) then store_battery v s
      else Return () s)"

text \<open>
  The compensation of the MS5637 with the calibration words \<open>C1\<close> to \<open>C6\<close>.  The products with \<open>dT\<close> are computed
  in 32-bit \<open>int\<close>: an overflow is undefined.
\<close>

definition MS5637_compensate :: "int \<Rightarrow> int \<Rightarrow> byte list \<Rightarrow> (int \<times> int) option" where
  "MS5637_compensate D1 D2 v = do {
     C5 \<leftarrow> word_at v 8;
     dT \<leftarrow> d_to_int 32 (dsub (d_of_int D2) (dmul (d_of_int C5) 256));
     C6 \<leftarrow> word_at v 10;
     dTC6 \<leftarrow> int32 (dT * C6);
     temperature \<leftarrow> d_to_int 32 (ddiv (dadd 2000 (ddiv (d_of_int dTC6) (2 ^ 23))) 100);
     C2 \<leftarrow> word_at v 2;
     C4 \<leftarrow> word_at v 6;
     C4dT \<leftarrow> int32 (C4 * dT);
     OFF \<leftarrow> d_to_int 64 (dadd (dmul (d_of_int C2) (2 ^ 17)) (ddiv (d_of_int C4dT) (2 ^ 6)));
     C1 \<leftarrow> word_at v 0;
     C3 \<leftarrow> word_at v 4;
     C3dT \<leftarrow> int32 (C3 * dT);
     SENS \<leftarrow> d_to_int 64 (dadd (dmul (d_of_int C1) (2 ^ 16)) (ddiv (d_of_int C3dT) (2 ^ 7)));
     prod \<leftarrow> (if - (2 ^ 63) \<le> D1 * SENS \<and> D1 * SENS < 2 ^ 63 then Some (D1 * SENS) else None);
     pressure \<leftarrow> d_to_int 32 (ddiv (ddiv (dsub (ddiv (d_of_int prod) (2 ^ 21)) (d_of_int OFF)) (2 ^ 15)) 100);
     Some (temperature, pressure) }"

definition read_calibration :: "byte list \<Rightarrow> 'w ble \<Rightarrow> (unit, 'w ble) outcome" where
  "read_calibration v s =
     (case MS5637_compensate (MS5637_D1 (BA5C_data s)) (MS5637_D2 (BA5C_data s)) v of
        None \<Rightarrow> Undefined
      | Some (t, p) \<Rightarrow> Return () (on_data (\<lambda>d. d\<lparr>MS5637_temperature := t, MS5637_pressure := p\<rparr>) s))"

definition store_status :: "(int \<Rightarrow> BA5C_data_t \<Rightarrow> BA5C_data_t) \<Rightarrow> byte list \<Rightarrow> 'w ble \<Rightarrow> (unit, 'w ble) outcome" where
  "store_status upd v s = (case rd v 0 of None \<Rightarrow> Undefined | Some b \<Rightarrow> Return () (on_data (upd (uint b)) s))"

definition handle_read_char :: "int \<Rightarrow> int \<Rightarrow> byte list \<Rightarrow> 'w ble \<Rightarrow> (unit, 'w ble) outcome" where
  "handle_read_char status handle v s =
     (if status \<noteq> 0 then Return () s
      else if handle = HTU21D_status_char_handle (handles s) then store_status (\<lambda>b d. d\<lparr>HTU21D_status := b\<rparr>) v s
      else if handle = MS5637_calibration_char_handle (handles s) then read_calibration v s
      else if handle = MS5637_status_char_handle (handles s) then store_status (\<lambda>b d. d\<lparr>MS5637_status := b\<rparr>) v s
      else if handle = Battery_data_char_handle (handles s) then store_battery v s
      else Return () s)"

definition handle_disconnect :: "'w bt \<Rightarrow> byte list \<Rightarrow> 'w ble \<Rightarrow> 'w ble" where
  "handle_disconnect bt bda s =
     (let s = start_scan bt s in
      if bda = remote_bda (profile s)
      then on_handles (\<lambda>d. d\<lparr>conn_device := False, HTU21D_get_service := False, MS5637_get_service := False, Battery_get_service := False\<rparr>) s
      else s)"

section \<open>The callbacks\<close>

primrec gattc_profile_BA5C_event_handler :: "'w bt \<Rightarrow> gattc_event \<Rightarrow> int \<Rightarrow> 'w ble \<Rightarrow> (unit, 'w ble) outcome" where
  "gattc_profile_BA5C_event_handler bt (REG_EVT status app) gif s = Return () (on_world (set_scan_params bt) s)"
| "gattc_profile_BA5C_event_handler bt CONNECT_EVT gif s = Return () s"
| "gattc_profile_BA5C_event_handler bt (OPEN_EVT status conn bda) gif s = Return () (handle_open bt gif status conn bda s)"
| "gattc_profile_BA5C_event_handler bt (CFG_MTU_EVT conn) gif s = Return () (handle_cfg_mtu bt gif conn s)"
| "gattc_profile_BA5C_event_handler bt (SEARCH_RES_EVT u first last_handle) gif s = Return () (handle_search_res u first last_handle s)"
| "gattc_profile_BA5C_event_handler bt (SEARCH_CMPL_EVT status conn) gif s = handle_search_cmpl bt gif status conn s"
| "gattc_profile_BA5C_event_handler bt (REG_FOR_NOTIFY_EVT status handle) gif s = handle_reg_for_notify bt gif status handle s"
| "gattc_profile_BA5C_event_handler bt (NOTIFY_EVT handle v) gif s = handle_notify bt gif handle v s"
| "gattc_profile_BA5C_event_handler bt (READ_CHAR_EVT status handle v) gif s = handle_read_char status handle v s"
| "gattc_profile_BA5C_event_handler bt QUEUE_FULL_EVT gif s = Return () s"
| "gattc_profile_BA5C_event_handler bt WRITE_DESCR_EVT gif s = Return () s"
| "gattc_profile_BA5C_event_handler bt WRITE_CHAR_EVT gif s = Return () (start_scan bt s)"
| "gattc_profile_BA5C_event_handler bt SRVC_CHG_EVT gif s = Return () s"
| "gattc_profile_BA5C_event_handler bt (DISCONNECT_EVT bda) gif s = Return () (handle_disconnect bt bda s)"
| "gattc_profile_BA5C_event_handler bt OTHER_EVT gif s = Return () s"

definition remote_device_name :: "byte list" where
  "remote_device_name = cs ''MEAS Tag BA5C''"

definition scan_result :: "'w bt \<Rightarrow> byte list \<Rightarrow> byte list \<Rightarrow> 'w ble \<Rightarrow> 'w ble" where
  "scan_result bt bda adv s =
     (if Isconnecting s then s
      else if conn_device (handles s) \<and> \<not> stop_scan_done s then on_world (stop_scanning bt) (s\<lparr>stop_scan_done := True\<rparr>)
      else if resolve_adv_data bt adv = Some remote_device_name \<and> \<not> conn_device (handles s)
      then (on_world (\<lambda>w. gattc_open bt (gattc_if (profile s)) bda (stop_scanning bt w)) (on_handles (\<lambda>d. d\<lparr>conn_device := True\<rparr>) s))\<lparr>Isconnecting := True\<rparr>
      else s)"

primrec esp_gap_cb :: "'w bt \<Rightarrow> gap_event \<Rightarrow> 'w ble \<Rightarrow> 'w ble" where
  "esp_gap_cb bt SCAN_PARAM_SET_COMPLETE s = on_world (start_scanning bt 30) s"
| "esp_gap_cb bt (SCAN_RESULT_INQ_RES bda adv) s = scan_result bt bda adv s"
| "esp_gap_cb bt OTHER_GAP_EVT s = s"

text \<open>\<open>esp_gattc_cb\<close>: an application number other than 0 is outside of \<open>gl_profile_tab\<close>.\<close>

definition call_profile :: "'w bt \<Rightarrow> gattc_event \<Rightarrow> int \<Rightarrow> 'w ble \<Rightarrow> (unit, 'w ble) outcome" where
  "call_profile bt ev gif s =
     (if gif = 255 \<or> gif = gattc_if (profile s) then gattc_profile_BA5C_event_handler bt ev gif s else Return () s)"

definition esp_gattc_cb :: "'w bt \<Rightarrow> gattc_event \<Rightarrow> int \<Rightarrow> 'w ble \<Rightarrow> (unit, 'w ble) outcome" where
  "esp_gattc_cb bt ev gif s =
     (case ev of
        REG_EVT status app \<Rightarrow>
          if status \<noteq> 0 then Return () s
          else if app \<noteq> 0 then Undefined
          else call_profile bt ev gif (s\<lparr>profile := (profile s)\<lparr>gattc_if := gif\<rparr>\<rparr>)
      | _ \<Rightarrow> call_profile bt ev gif s)"

text \<open>\<open>bluetooth_initialize\<close> over the start-up calls of the library, each with its result.  \<open>return;\<close> without a value after
  a failed registration leaves the result undefined.\<close>

record 'w bt_start =
  controller_mem_release :: "'w \<Rightarrow> int \<times> 'w"
  controller_init :: "'w \<Rightarrow> int \<times> 'w"
  controller_enable :: "'w \<Rightarrow> int \<times> 'w"
  bluedroid_init :: "'w \<Rightarrow> int \<times> 'w"
  bluedroid_enable :: "'w \<Rightarrow> int \<times> 'w"
  gap_register_callback :: "'w \<Rightarrow> int \<times> 'w"
  gattc_register_callback :: "'w \<Rightarrow> int \<times> 'w"
  gattc_app_register :: "'w \<Rightarrow> int \<times> 'w"
  set_local_mtu :: "'w \<Rightarrow> int \<times> 'w"

fun start_steps :: "('w \<Rightarrow> int \<times> 'w) list \<Rightarrow> 'w \<Rightarrow> int \<times> 'w" where
  "start_steps [] w = (0, w)"
| "start_steps (f # fs) w = (let (ret, w) = f w in if ret \<noteq> 0 then (ret, w) else start_steps fs w)"

definition bluetooth_initialize :: "'w bt_start \<Rightarrow> 'w \<Rightarrow> (int, 'w) outcome" where
  "bluetooth_initialize b w =
     (let (err, w) = controller_mem_release b w in
      andThen (ESP_ERROR_CHECK err w) (\<lambda>_ w.
        let (ret, w) = start_steps [controller_init b, controller_enable b, bluedroid_init b, bluedroid_enable b,
              gap_register_callback b, gattc_register_callback b] w in
        if ret \<noteq> 0 then Return ret w
        else (let (ret, w) = gattc_app_register b w in
          if ret \<noteq> 0 then Undefined
          else (let (_, w) = set_local_mtu b w in Return ret w))))"

section \<open>Numbers\<close>

lemma fl_error_small: "\<bar>x\<bar> \<le> 8388608 \<Longrightarrow> \<bar>fl x - x\<bar> \<le> 1 / 1073741824"
  using fl_error [of x] by (simp add: divide_right_mono)

lemma i16_bounds [simp]: "-32768 \<le> i16 x" "i16 x \<le> 32767"
  using pos_mod_sign [of 65536 "x + 32768"] pos_mod_bound [of 65536 "x + 32768"] by (simp_all add: i16_def)

lemma i16_id: "-32768 \<le> x \<Longrightarrow> x \<le> 32767 \<Longrightarrow> i16 x = x"
  by (simp add: i16_def)

lemma i16_high: "32768 \<le> x \<Longrightarrow> x < 65536 \<Longrightarrow> i16 x = x - 65536"
proof -
  assume x: "32768 \<le> x" "x < 65536"
  have "x + 32768 = x - 32768 + 65536" by simp
  then have "(x + 32768) mod 65536 = (x - 32768 + 65536) mod 65536" by (rule arg_cong)
  also have "\<dots> = x - 32768" using x by (simp only: mod_add_self2) simp
  finally show "i16 x = x - 65536" by (simp add: i16_def)
qed

text \<open>The temperature conversion has no value that is an integer, so rounding errors cannot change the truncated result.\<close>

lemma celsius_not_integer:
  assumes "-32768 \<le> t" and "t \<le> (32767 :: int)"
  shows "\<not> 1638400 dvd (4393 * t - 76759040)"
proof
  assume "1638400 dvd (4393 * t - 76759040)"
  then obtain k where k: "4393 * t - 76759040 = 1638400 * k" by (rule dvdE)
  have "t - 737280 = 1317657 * (4393 * t - 76759040) - 1638400 * (3533 * t - 61732230)" by simp
  then have "t - 737280 = 1638400 * (1317657 * k - 3533 * t + 61732230)" unfolding k by (simp add: algebra_simps)
  moreover define m where "m = 1317657 * k - 3533 * t + 61732230"
  ultimately have "t - 737280 = 1638400 * m" by (simp only:)
  moreover have "m \<le> -1 \<or> 0 \<le> m" by linarith
  ultimately show False using assms by (elim disjE) linarith+
qed

lemma HTU21D_celsius_exact:
  assumes "-32768 \<le> t" and "t \<le> 32767"
  shows "HTU21D_celsius t = Some (cdiv (17572 * t - 307036160) 6553600)"
proof -
  define c1 c2 p q z :: rat where "c1 = fl (-(4685 / 100))" and "c2 = fl (17572 / 100)" and "p = fl (c2 * of_int t)"
    and "q = fl (p / 65536)" and "z = fl (c1 + q)"
  let ?y = "of_int (4393 * t - 76759040) / of_int 1638400 :: rat" and ?T = "of_int t :: rat"
  have T: "\<bar>?T\<bar> \<le> 32768" using assms by (simp add: abs_le_iff)
  have c1: "\<bar>c1 + 4685 / 100\<bar> \<le> 1 / 1073741824" using fl_error_small [of "-(4685 / 100)"] by (simp add: c1_def)
  have "\<bar>c2 - 17572 / 100\<bar> \<le> (17572 / 100) / 2 ^ 53" using fl_error [of "17572 / 100"] by (simp add: c2_def)
  then have "\<bar>c2 - 17572 / 100\<bar> * \<bar>?T\<bar> \<le> (17572 / 100) / 2 ^ 53 * 32768" using T by (intro mult_mono) auto
  then have "\<bar>(c2 - 17572 / 100) * ?T\<bar> \<le> 1 / 1073741824" by (simp only: abs_mult) simp
  moreover define a where "a = c2 * ?T"
  ultimately have c2: "\<bar>a - 17572 / 100 * ?T\<bar> \<le> 1 / 1073741824" by (simp only: left_diff_distrib)
  then have "\<bar>a\<bar> \<le> 8388608" using T by linarith
  then have p: "\<bar>p - a\<bar> \<le> 1 / 1073741824" by (simp only: p_def a_def fl_error_small)
  then have pT: "\<bar>p - 17572 / 100 * ?T\<bar> \<le> 2 / 1073741824" using c2 by linarith
  then have p': "\<bar>p / 65536\<bar> \<le> 100" using T by linarith
  then have "\<bar>p / 65536\<bar> \<le> 8388608" by linarith
  then have q: "\<bar>q - p / 65536\<bar> \<le> 1 / 1073741824" by (simp only: q_def fl_error_small)
  have "\<bar>c1 + q\<bar> \<le> 8388608" using c1 q p' by linarith
  then have z: "\<bar>z - (c1 + q)\<bar> \<le> 1 / 1073741824" by (simp only: z_def fl_error_small)
  have y: "?y = 17572 / 100 * ?T / 65536 - 4685 / 100" by (simp add: field_simps)
  have "\<bar>z - ?y\<bar> < 1 / 1638400" unfolding y using z q c1 pT by linarith
  then have "d_to_int 16 z = d_to_int 16 ?y"
    using celsius_not_integer [OF assms] by (intro d_to_int_close [of 1638400 ?y "4393 * t - 76759040"]) auto
  moreover have "HTU21D_celsius t = d_to_int 16 z"
    using assms by (simp add: HTU21D_celsius_def dadd_def ddiv_def dmul_def d_of_int_exact z_def q_def p_def c1_def c2_def)
  moreover have "cdiv (17572 * t - 307036160) 6553600 = cdiv (4393 * t - 76759040) 1638400"
  proof -
    have "17572 * t - 307036160 = 4 * (4393 * t - 76759040)" by simp
    moreover have "cdiv (4 * a) (4 * b) = cdiv a b" if "0 < b" for a b using that by (simp add: cdiv_def abs_mult sgn_mult)
    from this [of 1638400] have "cdiv (4 * a) 6553600 = cdiv a 1638400" for a by simp
    ultimately show ?thesis by (simp only:)
  qed
  moreover have "- 32768 \<le> cdiv (4393 * t - 76759040) 1638400" "cdiv (4393 * t - 76759040) 1638400 < 32768"
    using assms by (auto simp: cdiv_def sgn_if abs_if)
  ultimately show ?thesis using d_to_int_cdiv [of 1638400 16 "4393 * t - 76759040"] by simp
qed

section \<open>The pressure sensor\<close>

definition cal :: "byte list \<Rightarrow> nat \<Rightarrow> int" where
  "cal v k = 256 * uint (v ! (2 * k)) + uint (v ! (2 * k + 1))"

lemma cal_bounds [simp]: "0 \<le> cal v k" "cal v k < 65536"
  using uint_byte_bounds [of "v ! (2 * k)"] uint_byte_bounds [of "v ! (2 * k + 1)"] unfolding cal_def by linarith+

lemma word_at_cal: "2 * k + 1 < length v \<Longrightarrow> word_at v (2 * k) = Some (cal v k)"
  by (simp add: word_at_def cal_def)

lemma d_to_int_of_int: "- (2 ^ (w - 1)) \<le> n \<Longrightarrow> n < 2 ^ (w - 1) \<Longrightarrow> d_to_int w (of_int n) = Some n"
  by (simp add: d_to_int_def Let_def)

lemma difference_exact:
  assumes "0 \<le> D2" and "D2 < 16777216" and "0 \<le> C" and "C < 65536"
  shows "d_to_int 32 (dsub (d_of_int D2) (dmul (d_of_int C) 256)) = Some (D2 - 256 * C)"
proof -
  have "dmul (d_of_int C) 256 = of_int (256 * C)"
    using assms fl_of_int [of "256 * C"] by (simp add: dmul_def d_of_int_exact mult.commute)
  moreover have "dsub (d_of_int D2) (of_int (256 * C)) = of_int (D2 - 256 * C)"
    using assms fl_of_int [of "D2 - 256 * C"] by (simp add: dsub_def d_of_int_exact)
  ultimately show ?thesis using assms by (simp only:) (rule d_to_int_of_int; simp)
qed

lemma temperature_exact:
  assumes "int32 P \<noteq> None"
  shows "d_to_int 32 (ddiv (dadd 2000 (ddiv (d_of_int P) (2 ^ 23))) 100) = Some (cdiv (16777216000 + P) 838860800)"
proof -
  have P: "-2147483648 \<le> P" "P < 2147483648" using assms by (auto simp: int32_def split: if_splits)
  have "ddiv (d_of_int P) (2 ^ 23) = of_int P / 2 ^ 23" using P fl_dyadic [of P 23] by (simp add: ddiv_def d_of_int_exact)
  moreover have "2000 + of_int P / 2 ^ 23 = (of_int (16777216000 + P) / 2 ^ 23 :: rat)" by simp
  moreover have "fl (of_int (16777216000 + P) / 2 ^ 23) = of_int (16777216000 + P) / 2 ^ 23" using P by (intro fl_dyadic) simp
  ultimately have "dadd 2000 (ddiv (d_of_int P) (2 ^ 23)) = of_int (16777216000 + P) / 2 ^ 23" by (simp only: dadd_def)
  then have "ddiv (dadd 2000 (ddiv (d_of_int P) (2 ^ 23))) 100 = fl (of_int (16777216000 + P) / 2 ^ 23 / 100)" by (simp only: ddiv_def [of _ 100])
  also have "\<dots> = fl (of_int (16777216000 + P) / of_int 838860800)" by simp
  finally have "ddiv (dadd 2000 (ddiv (d_of_int P) (2 ^ 23))) 100 = fl (of_int (16777216000 + P) / of_int 838860800)" .
  moreover have "0 \<le> cdiv (16777216000 + P) 838860800" "cdiv (16777216000 + P) 838860800 < 2147483648" using P by (simp_all add: cdiv_nonneg)
  ultimately show ?thesis using P d_to_int_frac [of 838860800 "16777216000 + P" 32] by simp
qed

lemma div_le_dividend_int: "0 \<le> x \<Longrightarrow> 0 < y \<Longrightarrow> x div y \<le> (x :: int)"
  using zdiv_mono2 [of x 1 y] by simp

lemma cdiv_abs_le: "0 < b \<Longrightarrow> \<bar>cdiv a b\<bar> \<le> \<bar>a\<bar> div b"
  by (auto simp: cdiv_def abs_mult sgn_if pos_imp_zdiv_nonneg_iff)

lemma linear_exact:
  assumes "0 \<le> C" and "C < 65536" and "int32 P \<noteq> None" and "a + b = 23"
  shows "d_to_int 64 (dadd (dmul (d_of_int C) (2 ^ a)) (ddiv (d_of_int P) (2 ^ b))) = Some (cdiv (8388608 * C + P) (2 ^ b))"
proof -
  have P: "-2147483648 \<le> P" "P < 2147483648" using assms by (auto simp: int32_def split: if_splits)
  have ab: "(2 :: int) ^ a * 2 ^ b = 8388608" "(2 :: rat) ^ a * 2 ^ b = 8388608" using assms(4) by (simp_all flip: power_add)
  have "(2 :: int) ^ a \<le> 2 ^ a * 2 ^ b" by simp
  then have "(2 :: int) ^ a \<le> 8388608" by (simp only: ab)
  then have "C * 2 ^ a \<le> 65536 * 8388608" using assms(1,2) by (intro mult_mono) auto
  then have C: "\<bar>C * 2 ^ a\<bar> < 2 ^ 53" using assms(1) by (simp add: abs_mult)
  have "dmul (d_of_int C) (2 ^ a) = of_int C * 2 ^ a" using fl_of_int [OF C] assms(1,2) by (simp add: dmul_def d_of_int_exact)
  moreover have "ddiv (d_of_int P) (2 ^ b) = of_int P / 2 ^ b" using P fl_dyadic [of P b] by (simp add: ddiv_def d_of_int_exact)
  moreover have "of_int C * 2 ^ a + of_int P / 2 ^ b = (of_int (8388608 * C + P) / 2 ^ b :: rat)" using ab(2) by (simp add: field_simps)
  moreover have "fl (of_int (8388608 * C + P) / 2 ^ b) = of_int (8388608 * C + P) / 2 ^ b" using P assms(1,2) by (intro fl_dyadic) simp
  ultimately have e: "dadd (dmul (d_of_int C) (2 ^ a)) (ddiv (d_of_int P) (2 ^ b)) = of_int (8388608 * C + P) / of_int (2 ^ b)"
    by (simp only: dadd_def) simp
  have "\<bar>cdiv (8388608 * C + P) (2 ^ b)\<bar> \<le> \<bar>8388608 * C + P\<bar> div 2 ^ b" by (rule cdiv_abs_le) simp
  also have "\<dots> \<le> \<bar>8388608 * C + P\<bar>" by (rule div_le_dividend_int) simp_all
  also have "\<dots> \<le> 1099511627776" using P assms(1,2) by linarith
  finally have "- (2 ^ 63) \<le> cdiv (8388608 * C + P) (2 ^ b) \<and> cdiv (8388608 * C + P) (2 ^ b) < 2 ^ 63" by (simp add: abs_le_iff)
  then show ?thesis unfolding e by (subst d_to_int_cdiv) simp_all
qed

lemma pressure_close:
  assumes "0 \<le> D1" and "D1 < 16777216" and "\<bar>SENS\<bar> \<le> 8589934592" and "\<bar>OFF\<bar> \<le> 17179869184"
  shows "\<exists>p. d_to_int 32 (ddiv (ddiv (dsub (ddiv (d_of_int (D1 * SENS)) (2 ^ 21)) (d_of_int OFF)) (2 ^ 15)) 100) = Some p \<and>
     \<bar>of_int p - (of_int (D1 * SENS) / 2 ^ 21 - of_int OFF) / 3276800\<bar> < (1001 / 1000 :: rat)"
proof -
  let ?A = "of_int (D1 * SENS) :: rat" and ?O = "of_int OFF :: rat"
  define x1 x2 x3 x4 x5 where "x1 = fl ?A" and "x2 = fl (x1 / 2 ^ 21)" and "x3 = fl (x2 - ?O)" and "x4 = fl (x3 / 2 ^ 15)" and "x5 = fl (x4 / 100)"
  have "\<bar>D1 * SENS\<bar> \<le> 16777216 * 8589934592" unfolding abs_mult using assms by (intro mult_mono) auto
  then have "\<bar>D1 * SENS\<bar> \<le> 144115188075855872" by simp
  then have "\<bar>?A\<bar> \<le> of_int 144115188075855872" unfolding of_int_abs [symmetric] by (simp only: of_int_le_iff)
  then have A: "\<bar>?A\<bar> \<le> 144115188075855872" by (simp only: of_int_numeral)
  have "\<bar>?O\<bar> \<le> of_int 17179869184" unfolding of_int_abs [symmetric] using assms(4) by (simp only: of_int_le_iff)
  then have O: "\<bar>?O\<bar> \<le> 17179869184" by (simp only: of_int_numeral)
  have err: "\<bar>fl x - x\<bar> \<le> M / 9007199254740992" if "\<bar>x\<bar> \<le> M" for x M :: rat
    by (rule order_trans [OF fl_error]) (use that in \<open>simp add: divide_right_mono\<close>)
  have 1: "\<bar>x1 - ?A\<bar> \<le> 16" using err [OF A] by (simp add: x1_def)
  then have "\<bar>x1\<bar> \<le> 288230376151711744" using A by linarith
  then have "\<bar>x1 / 2 ^ 21\<bar> \<le> 137438953472" by simp
  from err [OF this] have 2: "\<bar>x2 - x1 / 2 ^ 21\<bar> \<le> 1 / 1000" unfolding x2_def by simp
  then have "\<bar>x2 - ?O\<bar> \<le> 274877906944" using \<open>\<bar>x1 / 2 ^ 21\<bar> \<le> 137438953472\<close> O by linarith
  note M3 = this
  from err [OF this] have 3: "\<bar>x3 - (x2 - ?O)\<bar> \<le> 1 / 1000" unfolding x3_def by simp
  then have "\<bar>x3\<bar> \<le> 549755813888" using M3 by linarith
  then have "\<bar>x3 / 2 ^ 15\<bar> \<le> 16777216" by simp
  note M4 = this
  from err [OF this] have 4: "\<bar>x4 - x3 / 2 ^ 15\<bar> \<le> 1 / 10000" unfolding x4_def by simp
  then have M5: "\<bar>x4 / 100\<bar> \<le> 1677722" using M4 by linarith
  from err [OF this] have 5: "\<bar>x5 - x4 / 100\<bar> \<le> 1 / 10000" unfolding x5_def by simp
  have close: "\<bar>x5 - (?A / 2 ^ 21 - ?O) / 3276800\<bar> < 1 / 1000"
  proof -
    define a b where "a = ?A / 2097152" and "b = x1 / 2097152"
    have "\<bar>b - a\<bar> \<le> 16 / 2097152" using 1 by (simp add: a_def b_def flip: diff_divide_distrib)
    moreover have "\<bar>x2 - b\<bar> \<le> 1 / 1000" using 2 by (simp add: b_def)
    moreover have "\<bar>x4 - x3 / 32768\<bar> \<le> 1 / 10000" using 4 by simp
    moreover define y where "y = a - ?O"
    ultimately have "\<bar>x3 - y\<bar> \<le> 3 / 1000" "\<bar>x4 - x3 / 32768\<bar> \<le> 1 / 10000" using 3 by linarith+
    then have "\<bar>x4 - y / 32768\<bar> \<le> 2 / 10000" by linarith
    then have "\<bar>x5 - y / 3276800\<bar> < 1 / 1000" using 5 by linarith
    then have "\<bar>x5 - (a - ?O) / 3276800\<bar> < 1 / 1000" by (simp only: y_def)
    then show ?thesis by (simp add: a_def)
  qed
  have "\<bar>x5\<bar> \<le> 2000000" using M5 5 by linarith
  moreover define p where "p = (if 0 \<le> x5 then \<lfloor>x5\<rfloor> else \<lceil>x5\<rceil>)"
  ultimately have "d_to_int 32 x5 = Some p" by (simp add: d_to_int_def Let_def) linarith
  moreover have "\<bar>of_int p - x5\<bar> < 1" by (simp add: p_def split: if_splits) linarith
  then have "\<bar>of_int p - (?A / 2 ^ 21 - ?O) / 3276800\<bar> < 1001 / 1000" using close by linarith
  moreover have "ddiv (ddiv (dsub (ddiv (d_of_int (D1 * SENS)) (2 ^ 21)) (d_of_int OFF)) (2 ^ 15)) 100 = x5"
    using assms(4) by (simp add: ddiv_def dsub_def d_of_int_def [of "D1 * SENS"] d_of_int_exact x1_def x2_def x3_def x4_def x5_def)
  ultimately show ?thesis by (intro exI [of _ p]) (simp only:)
qed

section \<open>The invariant of the callbacks\<close>

text \<open>At most one service is being discovered, and the measurements are in the ranges of their sensors.\<close>

definition one_service :: "BA5C_handle_data_t \<Rightarrow> bool" where
  "one_service d \<longleftrightarrow> \<not> (HTU21D_get_service d \<and> MS5637_get_service d) \<and> \<not> (HTU21D_get_service d \<and> Battery_get_service d) \<and>
     \<not> (MS5637_get_service d \<and> Battery_get_service d)"

definition data_ok :: "BA5C_data_t \<Rightarrow> bool" where
  "data_ok d \<longleftrightarrow> HTU21D_recived_notification_counter d \<in> {0..<read_interval} \<and> MS5637_recived_notification_counter d \<in> {0..<read_interval} \<and>
     HTU21D_temperature d \<in> {-134..41} \<and> HTU21D_humidity d \<in> {-68..56} \<and> HTU21D_status d \<in> {0..<256} \<and>
     MS5637_D1 d \<in> {0..<16777216} \<and> MS5637_D2 d \<in> {0..<16777216} \<and> MS5637_temperature d \<in> {-2147483648..2147483647} \<and>
     MS5637_pressure d \<in> {-2147483648..2147483647} \<and> MS5637_status d \<in> {0..<256} \<and> Battery_level d \<in> {0..<256} \<and> Battery_status d \<in> {0..<256}"

definition ble_inv :: "'w ble \<Rightarrow> bool" where
  "ble_inv s \<longleftrightarrow> one_service (handles s) \<and> data_ok (BA5C_data s)"

text \<open>The state in which the firmware starts; the library may act on its world between two events.\<close>

definition ble0 :: "'w \<Rightarrow> 'w ble" where
  "ble0 w = \<lparr>profile = \<lparr>gattc_if = 255, conn_id = 0, remote_bda = replicate 6 0, BA5C_handle_data =
       \<lparr>conn_device = False, HTU21D_service_start_handle = 0, HTU21D_service_end_handle = 0, HTU21D_data_char_handle = 0, HTU21D_status_char_handle = 0,
        HTU21D_get_service = False, MS5637_service_start_handle = 0, MS5637_service_end_handle = 0, MS5637_data_char_handle = 0,
        MS5637_calibration_char_handle = 0, MS5637_status_char_handle = 0, MS5637_get_service = False, Battery_service_start_handle = 0,
        Battery_service_end_handle = 0, Battery_data_char_handle = 0, Battery_get_service = False\<rparr>\<rparr>,
     BA5C_data = \<lparr>HTU21D_recived_notification_counter = 0, HTU21D_temperature = 0, HTU21D_humidity = 0, HTU21D_status = 0,
        MS5637_recived_notification_counter = 0, MS5637_D1 = 0, MS5637_D2 = 0, MS5637_temperature = 0, MS5637_pressure = 0, MS5637_status = 0,
        Battery_level = 0, Battery_status = 0\<rparr>,
     Isconnecting = False, stop_scan_done = False, ble_world = w\<rparr>"

datatype 'w ble_event = Gattc gattc_event int | Gap gap_event | Library 'w

primrec ble_step :: "'w bt \<Rightarrow> 'w ble_event \<Rightarrow> 'w ble \<Rightarrow> (unit, 'w ble) outcome" where
  "ble_step bt (Gattc ev gif) s = esp_gattc_cb bt ev gif s"
| "ble_step bt (Gap ev) s = Return () (esp_gap_cb bt ev s)"
| "ble_step bt (Library w) s = Return () (s\<lparr>ble_world := w\<rparr>)"

primrec ble_run :: "'w bt \<Rightarrow> 'w ble_event list \<Rightarrow> 'w ble \<Rightarrow> (unit, 'w ble) outcome" where
  "ble_run bt [] s = Return () s"
| "ble_run bt (ev # evs) s = andThen (ble_step bt ev s) (\<lambda>_ s. ble_run bt evs s)"

inductive ble_reach :: "'w bt \<Rightarrow> 'w ble \<Rightarrow> bool" for bt where
  start: "ble_reach bt (ble0 w)"
| step: "ble_reach bt s \<Longrightarrow> ble_step bt ev s = Return () s' \<Longrightarrow> ble_reach bt s'"

named_theorems ble_simps \<comment> \<open>the parts of the state an update leaves alone\<close>

lemma handles_simps [ble_simps]:
  "handles (s\<lparr>ble_world := w\<rparr>) = handles s" "handles (s\<lparr>Isconnecting := b\<rparr>) = handles s" "handles (s\<lparr>stop_scan_done := b\<rparr>) = handles s"
  "handles (on_world f s) = handles s" "handles (on_data g s) = handles s" "handles (on_handles h s) = h (handles s)"
  "BA5C_data (on_world f s) = BA5C_data s" "BA5C_data (on_handles h s) = BA5C_data s" "BA5C_data (on_data g s) = g (BA5C_data s)"
  "handles (s\<lparr>profile := (profile s)\<lparr>gattc_if := i\<rparr>\<rparr>) = handles s"
  "handles (s\<lparr>profile := (profile s)\<lparr>remote_bda := r, conn_id := c\<rparr>\<rparr>) = handles s"
  by (simp_all add: handles_def on_world_def on_data_def on_handles_def)

lemma word_at_bounds: "word_at v i = Some x \<Longrightarrow> 0 \<le> x \<and> x < 65536"
proof -
  assume "word_at v i = Some x"
  then obtain a b :: byte where "x = 256 * uint a + uint b" by (auto simp: word_at_def split: bind_splits)
  then show "0 \<le> x \<and> x < 65536" using uint_byte_bounds [of a] uint_byte_bounds [of b] by linarith
qed

lemma triple_at_bounds: "triple_at v i = Some x \<Longrightarrow> 0 \<le> x \<and> x < 16777216"
proof -
  assume "triple_at v i = Some x"
  then obtain a b c :: byte where "x = 65536 * uint a + 256 * uint b + uint c" by (auto simp: triple_at_def split: bind_splits)
  then show "0 \<le> x \<and> x < 16777216" using uint_byte_bounds [of a] uint_byte_bounds [of b] uint_byte_bounds [of c] by linarith
qed

lemma sensor_ranges:
  assumes "-32768 \<le> t" and "t \<le> 32767"
  shows "-134 \<le> cdiv (17572 * t - 307036160) 6553600 \<and> cdiv (17572 * t - 307036160) 6553600 \<le> 41"
    and "-62 \<le> cdiv (125 * t) 65536 \<and> cdiv (125 * t) 65536 \<le> 62"
  using assms by (auto simp: cdiv_def sgn_if abs_if)

lemma celsius_range: "HTU21D_celsius (i16 t) = Some c \<Longrightarrow> -134 \<le> c \<and> c \<le> 41"
  using HTU21D_celsius_exact [OF i16_bounds, of t] sensor_ranges(1) [OF i16_bounds, of t] by simp

lemma percent_exact: "HTU21D_percent (i16 h) = -6 + cdiv (125 * i16 h) 65536"
  and percent_range: "-68 \<le> HTU21D_percent (i16 h)" "HTU21D_percent (i16 h) \<le> 56"
  using sensor_ranges(2) [OF i16_bounds, of h] by (simp_all add: HTU21D_percent_def i16_id)

lemma d_to_int_32: "d_to_int 32 q = Some n \<Longrightarrow> -2147483648 \<le> n \<and> n \<le> 2147483647"
  by (auto simp: d_to_int_def Let_def split: if_splits)

lemma compensate_range:
  "MS5637_compensate D1 D2 v = Some (t, p) \<Longrightarrow> -2147483648 \<le> t \<and> t \<le> 2147483647 \<and> -2147483648 \<le> p \<and> p \<le> 2147483647"
  unfolding MS5637_compensate_def by (auto split: bind_splits simp: d_to_int_32)

text \<open>
  Most events only move handles, measurements and the library's world.  A predicate that such moves keep is kept by
  discovery, notification and read events; the measurements they store are in range.
\<close>

definition same_control :: "BA5C_handle_data_t \<Rightarrow> BA5C_handle_data_t \<Rightarrow> bool" where
  "same_control d d' \<longleftrightarrow> conn_device d = conn_device d' \<and> HTU21D_get_service d = HTU21D_get_service d' \<and>
     MS5637_get_service d = MS5637_get_service d' \<and> Battery_get_service d = Battery_get_service d'"

locale ble_stable =
  fixes I :: "'w ble \<Rightarrow> bool"
  assumes world: "I s \<Longrightarrow> I (s\<lparr>ble_world := w\<rparr>)"
    and data: "I s \<Longrightarrow> (\<And>d. data_ok d \<Longrightarrow> data_ok (g d)) \<Longrightarrow> I (on_data g s)"
    and char: "I s \<Longrightarrow> (\<And>h. same_control (f h) h) \<Longrightarrow> I (on_handles f s)"
begin

lemma on_world: "I s \<Longrightarrow> I (on_world f s)"
  by (simp add: on_world_def world)

lemma on_data_merge: "on_data g (on_world f (on_data g' s)) = on_world f (on_data (\<lambda>d. g (g' d)) s)"
  by (simp add: on_data_def on_world_def)

lemma find_char_keeps:
  assumes "find_char bt gif conn first last_handle u prop n set_handle notify s = Return () s'" and "I s"
    and "\<And>h d. same_control (set_handle h d) d"
  shows "I s'"
  using assms by (auto simp: find_char_def Let_def split: prod.splits if_splits list.splits intro!: on_world char world)

lemma with_chars_keeps:
  assumes "with_chars bt gif conn first last_handle queries s = Return () s'" and "I s"
    and "\<And>n s s'. queries n s = Return () s' \<Longrightarrow> I s \<Longrightarrow> I s'"
  shows "I s'"
  using assms(1,3) world [OF assms(2)] by (auto simp: with_chars_def Let_def split: prod.splits if_splits)

lemma search_cmpl_keeps:
  assumes "handle_search_cmpl bt gif status conn s = Return () s'" and "I s"
  shows "I s'"
proof -
  have "I s'" if "search_HTU21D bt gif conn s = Return () s'"
    using that assms(2) unfolding search_HTU21D_def Let_def
    by (elim with_chars_keeps) (auto simp: andThen_Return_iff same_control_def elim!: find_char_keeps)
  moreover have "I s'" if "search_MS5637 bt gif conn s = Return () s'"
    using that assms(2) unfolding search_MS5637_def Let_def
    by (elim with_chars_keeps) (auto simp: andThen_Return_iff same_control_def elim!: find_char_keeps)
  moreover have "I s'" if "search_Battery bt gif conn s = Return () s'"
    using that assms(2) unfolding search_Battery_def Let_def
    by (elim with_chars_keeps) (auto simp: same_control_def elim!: find_char_keeps)
  ultimately show ?thesis using assms by (auto simp: handle_search_cmpl_def split: if_splits)
qed

lemma enable_notify_keeps:
  assumes "enable_notify bt gif handle first last_handle data_handle s = Return () s'" and "I s"
  shows "I s'"
  using assms by (auto simp: enable_notify_def Let_def split: prod.splits if_splits list.splits intro: on_world world)

lemma reg_for_notify_keeps:
  "handle_reg_for_notify bt gif status handle s = Return () s' \<Longrightarrow> I s \<Longrightarrow> I s'"
  by (auto simp: handle_reg_for_notify_def Let_def split: if_splits elim: enable_notify_keeps)

lemma store_battery_keeps: "store_battery v s = Return () s' \<Longrightarrow> I s \<Longrightarrow> I s'"
  by (auto simp: store_battery_def data_ok_def split: option.splits bind_splits intro!: data)

lemma notify_HTU21D_keeps:
  assumes "notify_HTU21D bt gif v s = Return () s'" and "I s" and "data_ok (BA5C_data s)"
  shows "I s'"
proof -
  obtain t h c where v: "word_at v 0 = Some t" "word_at v 3 = Some h" "HTU21D_celsius (i16 t) = Some c"
    using assms(1) by (auto simp: notify_HTU21D_def split: bind_splits option.splits)
  let ?c = "(HTU21D_recived_notification_counter (BA5C_data s) + 1) mod 256"
  let ?g = "\<lambda>k d. d\<lparr>HTU21D_temperature := c, HTU21D_humidity := HTU21D_percent (i16 h), HTU21D_recived_notification_counter := k\<rparr>"
  have g: "data_ok d \<Longrightarrow> data_ok (?g k d)" if "0 \<le> k" "k < 10" for k d
    using that celsius_range [OF v(3)] percent_range [of h] by (simp add: data_ok_def read_interval_def)
  have k: "0 \<le> ?c" using assms(3) by (simp add: data_ok_def)
  have "s' = on_data (?g ?c) s \<and> ?c < 10 \<or> (\<exists>f. s' = on_world f (on_data (?g 0) s))"
    using assms(1) v by (auto simp: notify_HTU21D_def Let_def read_interval_def on_data_merge split: if_splits)
  moreover have "I (on_data (?g k) s)" if "0 \<le> k" "k < 10" for k using data [OF assms(2) g [OF that]] .
  ultimately show ?thesis using k by (auto intro: on_world)
qed

lemma notify_MS5637_keeps:
  assumes "notify_MS5637 bt gif v s = Return () s'" and "I s" and "data_ok (BA5C_data s)"
  shows "I s'"
proof -
  obtain d1 d2 where v: "triple_at v 0 = Some d1" "triple_at v 3 = Some d2"
    using assms(1) by (auto simp: notify_MS5637_def split: bind_splits option.splits)
  let ?c = "(MS5637_recived_notification_counter (BA5C_data s) + 1) mod 256"
  let ?g = "\<lambda>k d. d\<lparr>MS5637_D1 := d1, MS5637_D2 := d2, MS5637_recived_notification_counter := k\<rparr>"
  have g: "data_ok d \<Longrightarrow> data_ok (?g k d)" if "0 \<le> k" "k < 10" for k d
    using that triple_at_bounds [OF v(1)] triple_at_bounds [OF v(2)] by (simp add: data_ok_def read_interval_def)
  have k: "0 \<le> ?c" using assms(3) by (simp add: data_ok_def)
  have "s' = on_data (?g ?c) s \<and> ?c < 10 \<or> (\<exists>f. s' = on_world f (on_data (?g 0) s))"
    using assms(1) v by (auto simp: notify_MS5637_def Let_def read_interval_def on_data_merge split: if_splits)
  moreover have "I (on_data (?g k) s)" if "0 \<le> k" "k < 10" for k using data [OF assms(2) g [OF that]] .
  ultimately show ?thesis using k by (auto intro: on_world)
qed

lemma notify_keeps: "handle_notify bt gif handle v s = Return () s' \<Longrightarrow> I s \<Longrightarrow> data_ok (BA5C_data s) \<Longrightarrow> I s'"
  by (auto simp: handle_notify_def split: if_splits elim: notify_HTU21D_keeps notify_MS5637_keeps store_battery_keeps)

lemma store_status_keeps:
  "store_status upd v s = Return () s' \<Longrightarrow> (\<And>b d. data_ok d \<Longrightarrow> data_ok (upd (uint (b :: byte)) d)) \<Longrightarrow> I s \<Longrightarrow> I s'"
  by (auto simp: store_status_def split: option.splits intro: data)

lemma read_calibration_keeps: "read_calibration v s = Return () s' \<Longrightarrow> I s \<Longrightarrow> I s'"
  by (auto simp: read_calibration_def data_ok_def dest: compensate_range split: option.splits intro!: data)

lemma read_char_keeps:
  assumes "handle_read_char status handle v s = Return () s'" and "I s"
  shows "I s'"
proof -
  have "data_ok d \<Longrightarrow> data_ok (d\<lparr>HTU21D_status := uint (b :: byte)\<rparr>)" "data_ok d \<Longrightarrow> data_ok (d\<lparr>MS5637_status := uint b\<rparr>)" for b d
    by (simp_all add: data_ok_def)
  then show ?thesis using assms unfolding handle_read_char_def
    by (auto split: if_splits elim: store_status_keeps read_calibration_keeps store_battery_keeps)
qed

text \<open>The events that may change more: opening, service results, disconnection and the scan restart after a write.\<close>

lemma handler_keeps:
  assumes "gattc_profile_BA5C_event_handler bt ev gif s = Return () s'" and "I s" and "data_ok (BA5C_data s)"
    and "\<And>st conn bda. ev = OPEN_EVT st conn bda \<Longrightarrow> I (handle_open bt gif st conn bda s)"
    and "\<And>u a b. ev = SEARCH_RES_EVT u a b \<Longrightarrow> I (handle_search_res u a b s)"
    and "\<And>bda. ev = DISCONNECT_EVT bda \<Longrightarrow> I (handle_disconnect bt bda s)" and "ev = WRITE_CHAR_EVT \<Longrightarrow> I (start_scan bt s)"
  shows "I s'"
  using assms
  by (cases ev) (auto simp: handle_cfg_mtu_def intro: on_world search_cmpl_keeps reg_for_notify_keeps notify_keeps read_char_keeps)

end

interpretation inv: ble_stable ble_inv
  by unfold_locales (auto simp: ble_inv_def ble_simps one_service_def same_control_def)

lemma handler_inv: "gattc_profile_BA5C_event_handler bt ev gif s = Return () s' \<Longrightarrow> ble_inv s \<Longrightarrow> ble_inv s'"
  by (erule inv.handler_keeps)
     (auto simp: ble_inv_def ble_simps handle_open_def handle_search_res_def handle_disconnect_def start_scan_def one_service_def Let_def)

lemma call_profile_inv: "call_profile bt ev gif s = Return () s' \<Longrightarrow> ble_inv s \<Longrightarrow> ble_inv s'"
  by (auto simp: call_profile_def split: if_splits elim: handler_inv)

lemma gattc_cb_inv: "esp_gattc_cb bt ev gif s = Return () s' \<Longrightarrow> ble_inv s \<Longrightarrow> ble_inv s'"
proof -
  assume a: "esp_gattc_cb bt ev gif s = Return () s'" "ble_inv s"
  have g: "ble_inv (s\<lparr>profile := (profile s)\<lparr>gattc_if := gif\<rparr>\<rparr>)" using a(2) by (simp add: ble_inv_def ble_simps)
  show "ble_inv s'" using a g unfolding esp_gattc_cb_def by (auto split: gattc_event.splits if_splits elim: call_profile_inv)
qed

lemma gap_cb_inv: "ble_inv s \<Longrightarrow> ble_inv (esp_gap_cb bt ev s)"
  by (cases ev) (auto simp: scan_result_def ble_inv_def ble_simps one_service_def)

lemma ble_step_inv: "ble_step bt ev s = Return () s' \<Longrightarrow> ble_inv s \<Longrightarrow> ble_inv s'"
  by (cases ev) (auto intro: gattc_cb_inv gap_cb_inv inv.world)

lemma ble_reach_inv: "ble_reach bt s \<Longrightarrow> ble_inv s"
proof (induction rule: ble_reach.induct)
  case (start w)
  show ?case by (simp add: ble_inv_def one_service_def data_ok_def read_interval_def handles_def ble0_def)
next
  case (step s ev s')
  then show ?case by (rule_tac ble_step_inv)
qed

text \<open>A connection attempt is under way as far as the code knows, but no device is connected.\<close>

definition blocked :: "'w ble \<Rightarrow> bool" where
  "blocked s \<longleftrightarrow> Isconnecting s \<and> \<not> conn_device (handles s) \<and> data_ok (BA5C_data s)"

lemma Isconnecting_simps [ble_simps]:
  "Isconnecting (on_world f s) = Isconnecting s" "Isconnecting (on_data g s) = Isconnecting s" "Isconnecting (on_handles h s) = Isconnecting s"
  by (simp_all add: on_world_def on_data_def on_handles_def)

interpretation blocked: ble_stable blocked
  by unfold_locales (auto simp: blocked_def ble_simps same_control_def)

primrec restarts_scan :: "'w ble_event \<Rightarrow> bool" where
  "restarts_scan (Gattc ev gif) \<longleftrightarrow> (case ev of DISCONNECT_EVT bda \<Rightarrow> True | WRITE_CHAR_EVT \<Rightarrow> True | _ \<Rightarrow> False)"
| "restarts_scan (Gap ev) \<longleftrightarrow> False"
| "restarts_scan (Library w) \<longleftrightarrow> False"

lemma blocked_gattc:
  assumes "esp_gattc_cb bt ev gif s = Return () s'" and "\<not> restarts_scan (Gattc ev gif)" and "blocked s"
  shows "blocked s'"
proof -
  have call: "blocked s'" if "call_profile bt ev gif t = Return () s'" "blocked t" for t
  proof (cases "gif = 255 \<or> gif = gattc_if (profile t)")
    case True
    then have "gattc_profile_BA5C_event_handler bt ev gif t = Return () s'" using that by (simp add: call_profile_def)
    then show ?thesis by (rule blocked.handler_keeps)
        (use that assms(2) in \<open>auto simp: blocked_def ble_simps handle_open_def handle_search_res_def\<close>)
  qed (use that in \<open>auto simp: call_profile_def\<close>)
  have "blocked (s\<lparr>profile := (profile s)\<lparr>gattc_if := gif\<rparr>\<rparr>)" using assms(3) by (simp add: blocked_def ble_simps)
  then show ?thesis using assms call unfolding esp_gattc_cb_def by (auto split: gattc_event.splits if_splits)
qed

lemma blocked_scan: "blocked s \<Longrightarrow> scan_result bt bda adv s = s"
  by (simp add: blocked_def scan_result_def)

lemma blocked_step:
  assumes "ble_step bt ev s = Return () s'" and "\<not> restarts_scan ev" and "blocked s"
  shows "blocked s'"
proof (cases ev)
  case (Gattc e gif)
  then show ?thesis using assms blocked_gattc by simp
next
  case (Gap e)
  then show ?thesis using assms by (cases e) (auto simp: blocked_scan intro: blocked.on_world)
next
  case (Library w)
  then show ?thesis using assms by (auto intro: blocked.world)
qed

lemma blocked_run:
  "ble_run bt evs s = Return () s' \<Longrightarrow> list_all (\<lambda>ev. \<not> restarts_scan ev) evs \<Longrightarrow> blocked s \<Longrightarrow> blocked s'"
  by (induction evs arbitrary: s) (auto simp: andThen_Return_iff dest: blocked_step)

section \<open>Properties\<close>

text \<open>C5: the callbacks keep their invariant.  In every state that any sequence of GATT and GAP events can reach, with
  the library doing what it likes in between and no event that is undefined behaviour, at most one service is being discovered, the notification
  counters are below the read interval, and every measurement is in the range of its sensor and of its C type.\<close>

theorem ble_reachable_invariant:
  assumes "ble_reach bt s"
  shows "one_service (BA5C_handle_data (profile s)) \<and> data_ok (BA5C_data s)"
  using ble_reach_inv [OF assms] by (simp add: ble_inv_def handles_def)

definition silent_bt :: "nat bt" where
  "silent_bt = \<lparr>bt_malloc = (\<lambda>n w. (True, w)), set_scan_params = id, start_scanning = (\<lambda>d. id), stop_scanning = id, gattc_open = (\<lambda>i b. Suc),
     send_mtu_req = (\<lambda>i c. id), search_service = (\<lambda>i c u. id), get_attr_count = (\<lambda>i c t a b h n w. (0, w)),
     get_char_by_uuid = (\<lambda>i c a b u n w. (0, [], 0, w)), get_descr_by_char_handle = (\<lambda>i c h u n w. ([], 0, w)),
     register_for_notify = (\<lambda>i b h. id), write_char_descr = (\<lambda>i c h v. id), read_char = (\<lambda>i c h. id), resolve_adv_data = Some\<rparr>"

lemma example_reach:
  "ble_reach silent_bt ((ble0 0)\<lparr>profile := (profile (ble0 (0 :: nat)))\<lparr>BA5C_handle_data :=
     (handles (ble0 (0 :: nat)))\<lparr>MS5637_get_service := True, MS5637_service_start_handle := 5, MS5637_service_end_handle := 9\<rparr>\<rparr>\<rparr>)"
  by (rule ble_reach.step [OF ble_reach.start, of _ "Gattc (SEARCH_RES_EVT MS5637_service_uuid 5 9) 255"])
     (simp add: esp_gattc_cb_def call_profile_def handle_search_res_def is_service_def HTU21D_service_uuid_def MS5637_service_uuid_def
       BA5C_base_def uuid128_def on_handles_def handles_def ble0_def)

theorem ble_reachable_invariant_witness:
  "one_service ((handles (ble0 (0 :: nat)))\<lparr>MS5637_get_service := True, MS5637_service_start_handle := 5, MS5637_service_end_handle := 9\<rparr>)"
  using ble_reachable_invariant [OF example_reach] by simp

text \<open>C28: the readings of the HTU21D.  From the two raw words of a notification the code computes the truncated values of the
  data sheet's formulas, rounding of the floating-point steps included, but on the words as signed 16-bit numbers: a humidity word from 32768 on, 56 percent and
  more, comes out negative, and so does the temperature come out wrong from 41 degrees on.\<close>

theorem HTU21D_readings:
  assumes "0 \<le> t" and "t < 65536" and "0 \<le> h" and "h < 65536"
  shows "HTU21D_celsius (i16 t) = Some (cdiv (17572 * (if t < 32768 then t else t - 65536) - 307036160) 6553600) \<and>
     HTU21D_percent (i16 h) = -6 + cdiv (125 * (if h < 32768 then h else h - 65536)) 65536 \<and>
     (if h < 32768 then -6 \<le> HTU21D_percent (i16 h) \<and> HTU21D_percent (i16 h) \<le> 56 else HTU21D_percent (i16 h) \<le> -6)"
proof -
  have t: "i16 t = (if t < 32768 then t else t - 65536)" and h: "i16 h = (if h < 32768 then h else h - 65536)"
    using assms i16_id [of t] i16_high [of t] i16_id [of h] i16_high [of h] by auto
  have "-6 \<le> HTU21D_percent (i16 h) \<and> HTU21D_percent (i16 h) \<le> 56" if "h < 32768"
    using that assms h percent_exact [of h] percent_range [of h] by (simp add: pos_imp_zdiv_nonneg_iff)
  moreover have "HTU21D_percent (i16 h) \<le> -6" if "\<not> h < 32768"
    using that assms h percent_exact [of h] by (simp add: cdiv_def sgn_if pos_imp_zdiv_nonneg_iff)
  ultimately show ?thesis using HTU21D_celsius_exact [OF i16_bounds, of t] percent_exact [of h] t h by simp
qed

theorem HTU21D_readings_witness:
  "HTU21D_celsius (i16 26000) = Some 22 \<and> HTU21D_percent (i16 30000) = 51 \<and> HTU21D_percent (i16 40000) = -54"
  using HTU21D_readings [of 26000 30000] HTU21D_readings [of 26000 40000] by (simp add: cdiv_def)

text \<open>C10: the compensation of the MS5637.  With a calibration value of 12 bytes and raw values of 24 bits, the code computes the truncated
  temperature of the data sheet's formula exactly, in spite of the floating-point steps, and a pressure within one unit (and a thousandth) of the formula, if
  the three products with \<open>dT\<close> fit 32 bits; otherwise its signed multiplication overflows, which is undefined.\<close>

theorem MS5637_compensate_correct:
  assumes "12 \<le> length v" and "0 \<le> D1" and "D1 < 16777216" and "0 \<le> D2" and "D2 < 16777216"
  shows "let dT = D2 - 256 * cal v 4; OFF = cdiv (8388608 * cal v 1 + cal v 3 * dT) 64; SENS = cdiv (8388608 * cal v 0 + cal v 2 * dT) 128 in
     if int32 (dT * cal v 5) \<noteq> None \<and> int32 (cal v 3 * dT) \<noteq> None \<and> int32 (cal v 2 * dT) \<noteq> None
     then \<exists>p. MS5637_compensate D1 D2 v = Some (cdiv (16777216000 + dT * cal v 5) 838860800, p) \<and>
       \<bar>of_int p - (of_int (D1 * SENS) / 2 ^ 21 - of_int OFF) / 3276800\<bar> < (1001 / 1000 :: rat)
     else MS5637_compensate D1 D2 v = None"
proof -
  define dT OFF SENS where "dT = D2 - 256 * cal v 4" and "OFF = cdiv (8388608 * cal v 1 + cal v 3 * dT) 64"
    and "SENS = cdiv (8388608 * cal v 0 + cal v 2 * dT) 128"
  have w: "word_at v 0 = Some (cal v 0)" "word_at v 2 = Some (cal v 1)" "word_at v 4 = Some (cal v 2)" "word_at v 6 = Some (cal v 3)"
      "word_at v 8 = Some (cal v 4)" "word_at v 10 = Some (cal v 5)"
    using word_at_cal [of 0 v] word_at_cal [of 1 v] word_at_cal [of 2 v] word_at_cal [of 3 v] word_at_cal [of 4 v] word_at_cal [of 5 v] assms(1)
    by simp_all
  have d: "d_to_int 32 (dsub (d_of_int D2) (dmul (d_of_int (cal v 4)) 256)) = Some dT"
    using difference_exact [OF assms(4,5), of "cal v 4"] by (simp add: dT_def)
  have fits: "int32 x = Some x \<and> -2147483648 \<le> x \<and> x < 2147483648" if "int32 x \<noteq> None" for x
    using that by (auto simp: int32_def split: if_splits)
  have "\<exists>p. MS5637_compensate D1 D2 v = Some (cdiv (16777216000 + dT * cal v 5) 838860800, p) \<and>
       \<bar>of_int p - (of_int (D1 * SENS) / 2 ^ 21 - of_int OFF) / 3276800\<bar> < (1001 / 1000 :: rat)"
    if f: "int32 (dT * cal v 5) \<noteq> None" "int32 (cal v 3 * dT) \<noteq> None" "int32 (cal v 2 * dT) \<noteq> None"
  proof -
    have O: "d_to_int 64 (dadd (dmul (d_of_int (cal v 1)) (2 ^ 17)) (ddiv (d_of_int (cal v 3 * dT)) (2 ^ 6))) = Some OFF"
      and S: "d_to_int 64 (dadd (dmul (d_of_int (cal v 0)) (2 ^ 16)) (ddiv (d_of_int (cal v 2 * dT)) (2 ^ 7))) = Some SENS"
      using linear_exact [of "cal v 1" "cal v 3 * dT" 17 6] linear_exact [of "cal v 0" "cal v 2 * dT" 16 7] f by (simp_all add: OFF_def SENS_def)
    have b: "\<bar>cdiv (8388608 * cal v k + x) y\<bar> \<le> 17179869184 * 64 div y" if "int32 x \<noteq> None" "0 < y" for k x y
    proof -
      have "\<bar>8388608 * cal v k + x\<bar> \<le> 17179869184 * 64" using fits [OF that(1)] cal_bounds [of v k] by linarith
      then have "\<bar>8388608 * cal v k + x\<bar> div y \<le> 17179869184 * 64 div y" using that(2) by (intro zdiv_mono1) simp_all
      then show ?thesis using cdiv_abs_le [OF that(2)] order_trans by blast
    qed
    have OS: "\<bar>OFF\<bar> \<le> 17179869184" "\<bar>SENS\<bar> \<le> 8589934592" using b [OF f(2), of 64 1] b [OF f(3), of 128 0] by (simp_all add: OFF_def SENS_def)
    have "\<bar>D1 * SENS\<bar> \<le> 16777216 * 8589934592" unfolding abs_mult using assms OS by (intro mult_mono) auto
    then have m: "- (2 ^ 63) \<le> D1 * SENS" "D1 * SENS < 2 ^ 63" by (simp_all add: abs_le_iff)
    show ?thesis using pressure_close [OF assms(2,3) OS(2,1)] temperature_exact [OF f(1)] fits [OF f(1)] fits [OF f(2)] fits [OF f(3)]
      by (auto simp only: MS5637_compensate_def w d O S m bind.bind_lunit if_True conj_absorb simp_thms)
  qed
  moreover have "MS5637_compensate D1 D2 v = None" if "\<not> (int32 (dT * cal v 5) \<noteq> None \<and> int32 (cal v 3 * dT) \<noteq> None \<and> int32 (cal v 2 * dT) \<noteq> None)"
    using that by (auto simp: MS5637_compensate_def w d split: bind_splits)
  ultimately show ?thesis by (simp only: Let_def dT_def OFF_def SENS_def if_split_eq1 split: if_split) blast
qed

text \<open>The typical calibration of the data sheet.\<close>

definition example_calibration :: "byte list" where
  "example_calibration = [0xB5, 0x24, 0xAB, 0xCD, 0x71, 0x83, 0x6C, 0xC2, 0x7B, 0x41, 0x6E, 0x05]"

lemma example_cal: "cal example_calibration 0 = 46372" "cal example_calibration (Suc 0) = 43981" "cal example_calibration 2 = 29059"
  "cal example_calibration 3 = 27842" "cal example_calibration 4 = 31553" "cal example_calibration 5 = 28165" "length example_calibration = 12"
  by (simp_all add: cal_def example_calibration_def)

theorem MS5637_compensate_witness:
  "(\<exists>p. MS5637_compensate 6465444 8077636 example_calibration = Some (20, p) \<and> \<bar>of_int p - (1100 :: rat)\<bar> < 2) \<and>
     MS5637_compensate 6465444 8237636 example_calibration = None"
proof -
  have "\<exists>p. MS5637_compensate 6465444 8077636 example_calibration = Some (20, p) \<and>
      \<bar>of_int p - (of_int (6465444 * 3039050829) / 2 ^ 21 - of_int 5764707214) / 3276800\<bar> < (1001 / 1000 :: rat)"
    using MS5637_compensate_correct [of example_calibration 6465444 8077636] by (simp add: example_cal int32_def cdiv_def)
  then obtain p where p: "MS5637_compensate 6465444 8077636 example_calibration = Some (20, p)"
      "\<bar>of_int p - (of_int (6465444 * 3039050829) / 2 ^ 21 - of_int 5764707214) / 3276800\<bar> < (1001 / 1000 :: rat)" by blast
  moreover have "(of_int (6465444 * 3039050829) / 2 ^ 21 - of_int 5764707214) / 3276800 = (1889836421199637 / 1717986918400 :: rat)" by simp
  ultimately have "\<bar>of_int p - (1889836421199637 / 1717986918400 :: rat)\<bar> < 1001 / 1000" by (simp only:)
  then have "\<bar>of_int p - (1100 :: rat)\<bar> < 2" unfolding abs_less_iff by linarith
  with p(1) show ?thesis
    using MS5637_compensate_correct [of example_calibration 6465444 8237636] by (simp add: example_cal int32_def)
qed

text \<open>C23: a failed connection is final.  When opening the tag fails after the scan found it, the code goes on believing that it is connecting: whatever
  events follow, until a disconnection or a characteristic write is reported, every scan result is ignored and no device is opened.\<close>

theorem failed_open_blocks_scanning:
  assumes "ble_reach bt s" and "Isconnecting s" and "status \<noteq> 0"
    and "ble_run bt evs (handle_open bt gif status conn bda s) = Return () s'" and "list_all (\<lambda>ev. \<not> restarts_scan ev) evs"
  shows "Isconnecting s' \<and> \<not> conn_device (BA5C_handle_data (profile s')) \<and> esp_gap_cb bt (SCAN_RESULT_INQ_RES addr adv) s' = s'"
proof -
  have "blocked (handle_open bt gif status conn bda s)"
    using ble_reach_inv [OF assms(1)] assms(2,3) by (simp add: blocked_def ble_inv_def handle_open_def ble_simps)
  then have b: "blocked s'" by (rule blocked_run [OF assms(4,5)])
  then show ?thesis using blocked_scan [OF b] by (simp add: blocked_def handles_def)
qed

definition found_tag :: "nat ble" where
  "found_tag = scan_result silent_bt [1, 2, 3, 4, 5, 6] remote_device_name (ble0 0)"

lemma found_tag_reach: "ble_reach silent_bt found_tag"
  by (rule ble_reach.step [OF ble_reach.start, of _ "Gap (SCAN_RESULT_INQ_RES [1, 2, 3, 4, 5, 6] remote_device_name)"]) (simp add: found_tag_def)

lemma found_tag_connecting: "Isconnecting found_tag" "ble_world found_tag = 1"
  by (simp_all add: found_tag_def scan_result_def ble0_def handles_def silent_bt_def on_world_def on_handles_def)

theorem failed_open_blocks_witness:
  "Isconnecting (handle_open silent_bt 3 133 0 [] found_tag) \<and>
     esp_gap_cb silent_bt (SCAN_RESULT_INQ_RES [1, 2, 3, 4, 5, 6] remote_device_name) (handle_open silent_bt 3 133 0 [] found_tag) =
       handle_open silent_bt 3 133 0 [] found_tag"
  using failed_open_blocks_scanning [OF found_tag_reach found_tag_connecting(1), of 133 "[]" 3 0 "[]"] by simp

text \<open>\<open>hexadecimalToDecimal\<close> gives the value of up to seven upper-case hexadecimal digits; eight digits or more overflow its \<open>int\<close>
  base, even when the value would fit.\<close>

definition hex_digit :: "byte \<Rightarrow> bool" where
  "hex_digit c \<longleftrightarrow> (48 \<le> uint c \<and> uint c \<le> 57) \<or> (65 \<le> uint c \<and> uint c \<le> 70)"

definition hex_value :: "byte \<Rightarrow> int" where
  "hex_value c = (if uint c \<le> 57 then uint c - 48 else uint c - 55)"

primrec hex_rev :: "byte list \<Rightarrow> int" where
  "hex_rev [] = 0"
| "hex_rev (c # ds) = hex_value c + 16 * hex_rev ds"

lemma hex_step:
  assumes "hex_digit c"
  shows "hex_loop (c # ds) base val = (do { d \<leftarrow> int32 (hex_value c * base); val \<leftarrow> int32 (val + d); base \<leftarrow> int32 (base * 16); hex_loop ds base val })"
    and "0 \<le> hex_value c \<and> hex_value c \<le> 15"
  using assms by (auto simp: hex_digit_def hex_value_def)

lemma hex_loop_value:
  assumes "list_all hex_digit ds" and "k + length ds \<le> 7" and "0 \<le> val" and "val < 16 ^ k"
  shows "hex_loop ds (16 ^ k) val = Some (val + 16 ^ k * hex_rev ds)"
  using assms
proof (induction ds arbitrary: k val)
  case (Cons c ds)
  have c: "hex_digit c" and v: "0 \<le> hex_value c" "hex_value c \<le> 15" using Cons.prems(1) hex_step(2) [of c] by simp_all
  have p: "(16 :: int) ^ Suc k \<le> 16 ^ 7" using Cons.prems(2) by (intro power_increasing) simp_all
  have m: "hex_value c * 16 ^ k \<le> 15 * 16 ^ k" "0 \<le> hex_value c * (16 :: int) ^ k" using v by (simp_all add: mult_right_mono)
  have s: "val + hex_value c * 16 ^ k < 16 ^ Suc k" using m(1) Cons.prems(4) unfolding power_Suc by linarith
  have "int32 (hex_value c * 16 ^ k) = Some (hex_value c * 16 ^ k)" "int32 (val + hex_value c * 16 ^ k) = Some (val + hex_value c * 16 ^ k)"
      "int32 (16 ^ k * 16) = Some (16 ^ Suc k)"
    using m s p Cons.prems(3) by (auto simp: int32_def)
  then show ?case
    using Cons.IH [of "Suc k" "val + hex_value c * 16 ^ k"] Cons.prems s m by (simp add: hex_step(1) [OF c] algebra_simps del: hex_loop.simps)
qed simp

lemma hex_loop_overflow:
  assumes "list_all hex_digit ds" and "7 < k + length ds" and "k \<le> 7"
  shows "hex_loop ds (16 ^ k) val = None"
  using assms
proof (induction ds arbitrary: k val)
  case (Cons c ds)
  have c: "hex_digit c" using Cons.prems(1) by simp
  show ?case
  proof (cases "k = 7")
    case True
    then have "int32 (16 ^ k * 16) = None" by (simp add: int32_def)
    then show ?thesis by (simp add: hex_step(1) [OF c] del: hex_loop.simps split: bind_splits)
  next
    case False
    then have "int32 (16 ^ k * 16) = Some (16 ^ Suc k) \<or> int32 (16 ^ k * 16) = None" by (auto simp: int32_def)
    then show ?thesis using Cons.IH [of "Suc k"] Cons.prems False by (auto simp: hex_step(1) [OF c] simp del: hex_loop.simps split: bind_splits)
  qed
qed simp

lemma hexadecimalToDecimal_correct:
  assumes "list_all hex_digit s"
  shows "hexadecimalToDecimal s = (if length s \<le> 7 then Some (foldl (\<lambda>v c. 16 * v + hex_value c) 0 s) else None)"
proof -
  have "hex_rev (rev s) = foldl (\<lambda>v c. 16 * v + hex_value c) 0 s" for s
    by (induction s rule: rev_induct) simp_all
  then show ?thesis using assms hex_loop_value [of "rev s" 0 0] hex_loop_overflow [of "rev s" 0 0] by (simp add: hexadecimalToDecimal_def)
qed

lemma hexadecimalToDecimal_witness:
  "hexadecimalToDecimal (cs ''2A'') = Some 42 \<and> hexadecimalToDecimal (cs ''00000001'') = None"
  using hexadecimalToDecimal_correct [of "cs ''2A''"] hexadecimalToDecimal_correct [of "cs ''00000001''"]
  by (simp add: hex_digit_def hex_value_def cs_def)

end
