(* ===== verification/CayenneClient.thy ===== *)
theory CayenneClient
  imports CayenneDataArray Bluetooth
begin

text \<open>
  \<^verbatim>\<open>main/src/CayenneMQTTClient/CayenneMQTTClient.c\<close> and \<^verbatim>\<open>main/src/Cayenne/esp32iot_cayenne.c\<close>: the Cayenne client
  over the MQTT client, and the firmware's publishing task.

  The only handler the MQTT client is ever given is \<open>MQTTMessageArrived\<close>, so its handler type is \<open>unit\<close>.  Custom
  handlers are application code: \<open>app\<close> is the parameter that runs one on a message; it acts on the world.  The
  arrays \<open>sendbuf\<close> and \<open>readbuf\<close> of the C struct are the buffers of the MQTT client after
  \<open>CayenneMQTTClientInit\<close>.  The global \<open>network\<close> of \<^verbatim>\<open>esp32iot_cayenne.h\<close> is the network of the client.
\<close>

section \<open>Data\<close>

record 'f CayenneMessageHandler =
  ch_clientID :: "byte list option"
  ch_topic :: CayenneTopic
  ch_channel :: int
  ch_fp :: "'f option"

record 'f CayenneMQTTClient =
  cy_mqttClient :: "unit MQTTClient"
  cy_username :: "byte list option"
  cy_password :: "byte list option"
  cy_clientID :: "byte list option"
  cy_sendbuf :: mem
  cy_readbuf :: mem
  cy_messageHandlers :: "'f CayenneMessageHandler list"
  cy_defaultMessageHandler :: "'f option"

text \<open>The message a handler is given; the pointers are the strings they point to.\<close>

record CayenneMessageData =
  cm_clientID :: "byte list"
  cm_topic :: CayenneTopic
  cm_channel :: int
  cm_id :: "byte list option"
  cm_type :: "byte list option"
  cm_values :: "(byte list option \<times> byte list option) list"
  cm_valueCount :: nat

type_synonym ('f, 'w) app = "'f \<Rightarrow> CayenneMessageData \<Rightarrow> 'w \<Rightarrow> 'w"

section \<open>A message arrives\<close>

text \<open>The handlers that the loop calls; \<open>strcmp\<close> on a null client id is undefined.\<close>

fun dispatch_loop :: "('f, 'w) app \<Rightarrow> 'f CayenneMessageHandler list \<Rightarrow> CayenneMessageData \<Rightarrow> int \<Rightarrow> 'w \<Rightarrow> (int \<times> 'w) option" where
  "dispatch_loop app [] m result w = Some (result, w)"
| "dispatch_loop app (h # hs) m result w =
     (case ch_fp h of
        None \<Rightarrow> dispatch_loop app hs m result w
      | Some fp \<Rightarrow>
          if ch_topic h = cm_topic m \<and> (ch_channel h = cm_channel m \<or> ch_channel h = CAYENNE_ALL_CHANNELS) then
            (case ch_clientID h of
               None \<Rightarrow> None
             | Some cid \<Rightarrow>
                 if cid = cm_clientID m then dispatch_loop app hs m MQTT_SUCCESS (app fp m w)
                 else dispatch_loop app hs m result w)
          else dispatch_loop app hs m result w)"

definition dispatch :: "('f, 'w) app \<Rightarrow> 'f CayenneMQTTClient \<Rightarrow> CayenneMessageData \<Rightarrow> 'w \<Rightarrow> 'w option" where
  "dispatch app client m w = do {
     (result, w) \<leftarrow> dispatch_loop app (cy_messageHandlers client) m MQTT_FAILURE w;
     (case cy_defaultMessageHandler client of
        Some fp \<Rightarrow> if result = MQTT_FAILURE then Some (app fp m w) else Some w
      | None \<Rightarrow> Some w) }"

text \<open>
  \<open>MQTTMessageArrived\<close>.  Topic and payload point into the read buffer of the MQTT client: their offsets are
  what is left in front of them, and the parsers cut the read buffer itself.
\<close>

definition MQTTMessageArrived ::
    "('f, 'w) app \<Rightarrow> 'f CayenneMQTTClient \<Rightarrow> MessageData \<Rightarrow> unit MQTTClient \<Rightarrow> 'w \<Rightarrow> (unit MQTTClient \<times> 'w) option" where
  "MQTTMessageArrived app client md c w = do {
     username \<leftarrow> cy_username client;
     data \<leftarrow> lenstring_data (fst md);
     let toff = length (readbuf c) - length data;
     (result, pt, data) \<leftarrow> CayenneParseTopic username data (lenstring_len (fst md));
     let c = c\<lparr>readbuf := take toff (readbuf c) @ data\<rparr>;
     (case pt of
        None \<Rightarrow> Some (c, w)
      | Some pt \<Rightarrow> do {
          payload0 \<leftarrow> msg_payload (snd md);
          payloadlen \<leftarrow> msg_payloadlen (snd md);
          let poff = length (readbuf c) - length payload0;
          payload \<leftarrow> (if payloadlen < 0 then None else wr (drop poff (readbuf c)) (nat payloadlen) 0);
          (result, pp, payload) \<leftarrow> CayenneParsePayload
             (replicate CAYENNE_MAX_MESSAGE_VALUES \<lparr>vp_unit = None, vp_value = None\<rparr>) CAYENNE_MAX_MESSAGE_VALUES (pt_topic pt) payload;
          let c = c\<lparr>readbuf := take poff (readbuf c) @ payload\<rparr>;
          if result \<noteq> CAYENNE_SUCCESS then Some (c, w)
          else do {
            cid \<leftarrow> cstr_at (readbuf c) (toff + pt_clientID pt);
            let m = \<lparr>cm_clientID = cid, cm_topic = pt_topic pt, cm_channel = pt_channel pt,
                     cm_id = deref payload (pp_id pp), cm_type = deref payload (pp_type pp),
                     cm_values = map (\<lambda>e. (deref payload (vp_unit e), deref payload (vp_value e))) (take (pp_count pp) (pp_values pp)),
                     cm_valueCount = pp_count pp\<rparr>;
            w \<leftarrow> dispatch app client m w;
            Some (c, w) } }) }"

text \<open>How the MQTT client calls it: \<open>userData\<close> is the Cayenne client; without it nothing is done.\<close>

definition arrived :: "('f, 'w) app \<Rightarrow> 'f CayenneMQTTClient \<Rightarrow> (unit, 'w) caller" where
  "arrived app client h md c w =
     (if userData c = None then Some (c, w) else MQTTMessageArrived app client md c w)"

section \<open>The client operations\<close>

definition no_handler :: "'f CayenneMessageHandler" where
  "no_handler = \<lparr>ch_clientID = None, ch_topic = UNDEFINED_TOPIC, ch_channel = CAYENNE_NO_CHANNEL, ch_fp = None\<rparr>"

definition CayenneMQTTClientInit ::
    "'f CayenneMQTTClient \<Rightarrow> Network \<Rightarrow> byte list option \<Rightarrow> byte list option \<Rightarrow> byte list option \<Rightarrow> 'f option \<Rightarrow> 'f CayenneMQTTClient" where
  "CayenneMQTTClientInit client network username password clientID defaultHandler =
     (let c = MQTTClientInit (cy_mqttClient client) network 30000 (cy_sendbuf client) (int CAYENNE_MAX_MESSAGE_SIZE)
                (cy_readbuf client) (int CAYENNE_MAX_MESSAGE_SIZE)
      in client\<lparr>cy_messageHandlers := replicate CAYENNE_MAX_MESSAGE_HANDLERS no_handler,
           cy_defaultMessageHandler := defaultHandler,
           cy_mqttClient := c\<lparr>defaultMessageHandler := Some (), userData := Some 0\<rparr>,
           cy_username := username, cy_password := password, cy_clientID := clientID\<rparr>)"

text \<open>An MQTT operation on the client inside the Cayenne client.\<close>

type_synonym ('f, 'w) cy_result = "(int \<times> 'f CayenneMQTTClient \<times> 'w) option"

definition lift_mqtt :: "'f CayenneMQTTClient \<Rightarrow> (unit, 'w) mqtt_result \<Rightarrow> ('f, 'w) cy_result" where
  "lift_mqtt client r = do { (rc, c, w) \<leftarrow> r; Some (rc, client\<lparr>cy_mqttClient := c\<rparr>, w) }"

definition cstring_of :: "byte list option \<Rightarrow> MQTTString" where
  "cstring_of s = MQTTString_initializer\<lparr>cstring := s\<rparr>"

definition connect_data :: "'f CayenneMQTTClient \<Rightarrow> MQTTPacket_connectData" where
  "connect_data client = MQTTPacket_connectData_initializer\<lparr>cd_MQTTVersion := 3, cd_clientID := cstring_of (cy_clientID client),
     cd_username := cstring_of (cy_username client), cd_password := cstring_of (cy_password client)\<rparr>"

definition CayenneMQTTConnect :: "'w os \<Rightarrow> ('f, 'w) app \<Rightarrow> 'f CayenneMQTTClient \<Rightarrow> 'w \<Rightarrow> ('f, 'w) cy_result" where
  "CayenneMQTTConnect os app client w =
     lift_mqtt client (MQTTConnect os (arrived app client) (cy_mqttClient client) (Some (connect_data client)) w)"

text \<open>\<open>clientID ? clientID : client->clientID\<close>.\<close>

definition or_own :: "byte list option \<Rightarrow> 'f CayenneMQTTClient \<Rightarrow> byte list option" where
  "or_own clientID client = (if clientID \<noteq> None then clientID else cy_clientID client)"

text \<open>
  The common tail of the two publishing functions: the payload is built behind the topic in the same
  buffer by \<open>build\<close>, and the message is published.
\<close>

definition publish_built ::
    "'w os \<Rightarrow> ('f, 'w) app \<Rightarrow> 'f CayenneMQTTClient \<Rightarrow> CayenneTopic \<Rightarrow> int \<Rightarrow> byte list option \<Rightarrow>
     (mem \<Rightarrow> nat \<Rightarrow> (int \<times> mem \<times> int) option) \<Rightarrow> int \<Rightarrow> int \<Rightarrow> 'w \<Rightarrow> ('f, 'w) cy_result" where
  "publish_built os app client topic channel clientID build qos retained w = do {
     let bufsize = CAYENNE_MAX_MESSAGE_SIZE + 1;
     (result, buffer) \<leftarrow> CayenneBuildTopic (replicate bufsize 0) bufsize (cy_username client) (or_own clientID client) topic channel;
     if result \<noteq> CAYENNE_SUCCESS then Some (result, client, w)
     else do {
       topicName \<leftarrow> cstr_at buffer 0;
       let size = length topicName;
       (result, payload, len) \<leftarrow> build (drop (size + 1) buffer) (bufsize - (size + 1));
       if result \<noteq> CAYENNE_SUCCESS then Some (result, client, w)
       else do {
         let message = \<lparr>msg_qos = qos, msg_retained = retained, msg_dup = 0, msg_id = None,
                        msg_payload = Some payload, msg_payloadlen = Some (i32 len)\<rparr>;
         (rc, _, c, w) \<leftarrow> MQTTPublish os (arrived app client) (cy_mqttClient client) topicName message w;
         Some (rc, client\<lparr>cy_mqttClient := c\<rparr>, w) } } }"

definition CayenneMQTTPublishDataArray ::
    "'w os \<Rightarrow> ('f, 'w) app \<Rightarrow> 'f CayenneMQTTClient \<Rightarrow> byte list option \<Rightarrow> CayenneTopic \<Rightarrow> int \<Rightarrow> byte list option \<Rightarrow>
     byte list CayenneValuePair list \<Rightarrow> nat \<Rightarrow> 'w \<Rightarrow> ('f, 'w) cy_result" where
  "CayenneMQTTPublishDataArray os app client clientID topic channel type values valueCount w =
     publish_built os app client topic channel clientID
       (\<lambda>payload size. CayenneBuildDataPayload payload size type values valueCount)
       0 (if topic \<noteq> COMMAND_TOPIC then 1 else 0) w"

definition CayenneMQTTPublishData ::
    "'w os \<Rightarrow> ('f, 'w) app \<Rightarrow> 'f CayenneMQTTClient \<Rightarrow> byte list option \<Rightarrow> CayenneTopic \<Rightarrow> int \<Rightarrow> byte list option \<Rightarrow>
     byte list option \<Rightarrow> byte list option \<Rightarrow> 'w \<Rightarrow> ('f, 'w) cy_result" where
  "CayenneMQTTPublishData os app client clientID topic channel type unit value w =
     CayenneMQTTPublishDataArray os app client clientID topic channel type [\<lparr>vp_unit = unit, vp_value = value\<rparr>] 1 w"

definition CayenneMQTTPublishDataInt ::
    "'w os \<Rightarrow> ('f, 'w) app \<Rightarrow> 'f CayenneMQTTClient \<Rightarrow> byte list option \<Rightarrow> CayenneTopic \<Rightarrow> int \<Rightarrow> byte list option \<Rightarrow>
     byte list option \<Rightarrow> int \<Rightarrow> 'w \<Rightarrow> ('f, 'w) cy_result" where
  "CayenneMQTTPublishDataInt os app client clientID topic channel type unit value w = do {
     str \<leftarrow> printed 34 (dec_int value); CayenneMQTTPublishData os app client clientID topic channel type unit (Some str) w }"

definition CayenneMQTTPublishDataUInt ::
    "'w os \<Rightarrow> ('f, 'w) app \<Rightarrow> 'f CayenneMQTTClient \<Rightarrow> byte list option \<Rightarrow> CayenneTopic \<Rightarrow> int \<Rightarrow> byte list option \<Rightarrow>
     byte list option \<Rightarrow> int \<Rightarrow> 'w \<Rightarrow> ('f, 'w) cy_result" where
  "CayenneMQTTPublishDataUInt os app client clientID topic channel type unit value w = do {
     str \<leftarrow> printed 33 (dec_int value); CayenneMQTTPublishData os app client clientID topic channel type unit (Some str) w }"

definition CayenneMQTTPublishDataLong ::
    "'w os \<Rightarrow> ('f, 'w) app \<Rightarrow> 'f CayenneMQTTClient \<Rightarrow> byte list option \<Rightarrow> CayenneTopic \<Rightarrow> int \<Rightarrow> byte list option \<Rightarrow>
     byte list option \<Rightarrow> int \<Rightarrow> 'w \<Rightarrow> ('f, 'w) cy_result" where
  "CayenneMQTTPublishDataLong os app client clientID topic channel type unit value w = do {
     str \<leftarrow> printed 34 (dec_int value); CayenneMQTTPublishData os app client clientID topic channel type unit (Some str) w }"

definition CayenneMQTTPublishDataULong ::
    "'w os \<Rightarrow> ('f, 'w) app \<Rightarrow> 'f CayenneMQTTClient \<Rightarrow> byte list option \<Rightarrow> CayenneTopic \<Rightarrow> int \<Rightarrow> byte list option \<Rightarrow>
     byte list option \<Rightarrow> int \<Rightarrow> 'w \<Rightarrow> ('f, 'w) cy_result" where
  "CayenneMQTTPublishDataULong os app client clientID topic channel type unit value w = do {
     str \<leftarrow> printed 33 (dec_int value); CayenneMQTTPublishData os app client clientID topic channel type unit (Some str) w }"

definition CayenneMQTTPublishDataDouble ::
    "('d \<Rightarrow> byte list) \<Rightarrow> 'w os \<Rightarrow> ('f, 'w) app \<Rightarrow> 'f CayenneMQTTClient \<Rightarrow> byte list option \<Rightarrow> CayenneTopic \<Rightarrow> int \<Rightarrow> byte list option \<Rightarrow>
     byte list option \<Rightarrow> 'd \<Rightarrow> 'w \<Rightarrow> ('f, 'w) cy_result" where
  "CayenneMQTTPublishDataDouble fmt os app client clientID topic channel type unit value w = do {
     str \<leftarrow> printed 33 (fmt value); CayenneMQTTPublishData os app client clientID topic channel type unit (Some str) w }"

definition CayenneMQTTPublishDataFloat ::
    "('d \<Rightarrow> byte list) \<Rightarrow> 'w os \<Rightarrow> ('f, 'w) app \<Rightarrow> 'f CayenneMQTTClient \<Rightarrow> byte list option \<Rightarrow> CayenneTopic \<Rightarrow> int \<Rightarrow> byte list option \<Rightarrow>
     byte list option \<Rightarrow> 'd \<Rightarrow> 'w \<Rightarrow> ('f, 'w) cy_result" where
  "CayenneMQTTPublishDataFloat fmt os app client clientID topic channel type unit value w = do {
     str \<leftarrow> printed 33 (fmt value); CayenneMQTTPublishData os app client clientID topic channel type unit (Some str) w }"

definition CayenneMQTTPublishResponse ::
    "'w os \<Rightarrow> ('f, 'w) app \<Rightarrow> 'f CayenneMQTTClient \<Rightarrow> byte list option \<Rightarrow> byte list option \<Rightarrow> byte list option \<Rightarrow> 'w \<Rightarrow> ('f, 'w) cy_result" where
  "CayenneMQTTPublishResponse os app client clientID id_str error w =
     publish_built os app client RESPONSE_TOPIC CAYENNE_NO_CHANNEL clientID
       (\<lambda>payload size. CayenneBuildResponsePayload payload size id_str error) 1 1 w"

fun cy_register :: "'f CayenneMessageHandler \<Rightarrow> 'f CayenneMessageHandler list \<Rightarrow> 'f CayenneMessageHandler list" where
  "cy_register new [] = []"
| "cy_register new (h # hs) = (if ch_fp h = None then new # hs else h # cy_register new hs)"

definition CayenneMQTTSubscribe ::
    "'w os \<Rightarrow> ('f, 'w) app \<Rightarrow> 'f CayenneMQTTClient \<Rightarrow> byte list option \<Rightarrow> CayenneTopic \<Rightarrow> int \<Rightarrow> 'f option \<Rightarrow> 'w \<Rightarrow> ('f, 'w) cy_result" where
  "CayenneMQTTSubscribe os app client clientID topic channel handler w = do {
     let bufsize = CAYENNE_MAX_MESSAGE_SIZE;
     (result, buffer) \<leftarrow> CayenneBuildTopic (replicate bufsize 0) bufsize (cy_username client) (or_own clientID client) topic channel;
     if result \<noteq> CAYENNE_SUCCESS then Some (result, client, w)
     else do {
       topicName \<leftarrow> cstr_at buffer 0;
       (result, client, w) \<leftarrow> lift_mqtt client (MQTTSubscribe os (arrived app client) (cy_mqttClient client) topicName 0 None w);
       if handler \<noteq> None \<and> result = 0
       then Some (result, client\<lparr>cy_messageHandlers := cy_register
              \<lparr>ch_clientID = clientID, ch_topic = topic, ch_channel = channel, ch_fp = handler\<rparr> (cy_messageHandlers client)\<rparr>, w)
       else Some (result, client, w) } }"

fun cy_unregister :: "byte list option \<Rightarrow> CayenneTopic \<Rightarrow> int \<Rightarrow> 'f CayenneMessageHandler list \<Rightarrow> 'f CayenneMessageHandler list option" where
  "cy_unregister cid topic channel [] = Some []"
| "cy_unregister cid topic channel (h # hs) = do {
     match \<leftarrow> (if ch_topic h = topic \<and> ch_channel h = channel
               then do { a \<leftarrow> cid; b \<leftarrow> ch_clientID h; Some (a = b) } else Some False);
     hs \<leftarrow> cy_unregister cid topic channel hs;
     Some ((if match then no_handler else h) # hs) }"

definition CayenneMQTTUnsubscribe ::
    "'w os \<Rightarrow> ('f, 'w) app \<Rightarrow> 'f CayenneMQTTClient \<Rightarrow> byte list option \<Rightarrow> CayenneTopic \<Rightarrow> int \<Rightarrow> 'w \<Rightarrow> ('f, 'w) cy_result" where
  "CayenneMQTTUnsubscribe os app client clientID topic channel w = do {
     let bufsize = CAYENNE_MAX_MESSAGE_SIZE;
     (result, buffer) \<leftarrow> CayenneBuildTopic (replicate bufsize 0) bufsize (cy_username client) (or_own clientID client) topic channel;
     if result \<noteq> CAYENNE_SUCCESS then Some (result, client, w)
     else do {
       topicName \<leftarrow> cstr_at buffer 0;
       (result, client, w) \<leftarrow> lift_mqtt client (MQTTUnsubscribe os (arrived app client) (cy_mqttClient client) topicName w);
       if result = MQTT_SUCCESS
       then do { hs \<leftarrow> cy_unregister (or_own clientID client) topic channel (cy_messageHandlers client);
                 Some (result, client\<lparr>cy_messageHandlers := hs\<rparr>, w) }
       else Some (result, client, w) } }"

definition CayenneMQTTDisconnect :: "'w os \<Rightarrow> 'f CayenneMQTTClient \<Rightarrow> 'w \<Rightarrow> ('f, 'w) cy_result" where
  "CayenneMQTTDisconnect os client w = lift_mqtt client (MQTTDisconnect os (cy_mqttClient client) w)"

definition CayenneMQTTConnected :: "'f CayenneMQTTClient \<Rightarrow> bool" where
  "CayenneMQTTConnected client = isconnected (cy_mqttClient client)"

definition CayenneMQTTYield :: "'w os \<Rightarrow> ('f, 'w) app \<Rightarrow> 'f CayenneMQTTClient \<Rightarrow> int \<Rightarrow> 'w \<Rightarrow> ('f, 'w) cy_result" where
  "CayenneMQTTYield os app client time w = lift_mqtt client (MQTTYield os (arrived app client) (cy_mqttClient client) time w)"

section \<open>The firmware's task\<close>

definition CayenneInit ::
    "'f CayenneMQTTClient \<Rightarrow> byte list option \<Rightarrow> byte list option \<Rightarrow> byte list option \<Rightarrow> 'f CayenneMQTTClient" where
  "CayenneInit client username password clientID = CayenneMQTTClientInit client NetworkInit username password clientID None"

definition set_network :: "Network \<Rightarrow> 'f CayenneMQTTClient \<Rightarrow> 'f CayenneMQTTClient" where
  "set_network net client = client\<lparr>cy_mqttClient := (cy_mqttClient client)\<lparr>ipstack := net\<rparr>\<rparr>"

definition connectClient :: "'w os \<Rightarrow> ('f, 'w) app \<Rightarrow> 'f CayenneMQTTClient \<Rightarrow> 'w \<Rightarrow> ('f, 'w) cy_result" where
  "connectClient os app client w = do {
     (error, net, w) \<leftarrow> NetworkConnect os (ipstack (cy_mqttClient client)) (cs ''mqtt.mydevices.com'') 1883 w;
     let client = set_network net client;
     if error \<noteq> 0 then Some (error, client, w)
     else do {
       (error, client, w) \<leftarrow> CayenneMQTTConnect os app client w;
       if error \<noteq> MQTT_SUCCESS
       then let (net, w) = NetworkDisconnect os (ipstack (cy_mqttClient client)) w in Some (error, set_network net client, w)
       else do {
         (_, client, w) \<leftarrow> CayenneMQTTPublishData os app client None SYS_VERSION_TOPIC CAYENNE_NO_CHANNEL None None (Some (cs ''v1'')) w;
         (_, client, w) \<leftarrow> CayenneMQTTPublishData os app client None SYS_MODEL_TOPIC CAYENNE_NO_CHANNEL None None (Some (cs ''esp32'')) w;
         Some (CAYENNE_SUCCESS, client, w) } } }"

text \<open>The measurements that the task publishes: channel, type, unit and value.\<close>

definition task_publications :: "BA5C_data_t \<Rightarrow> (int \<times> string \<times> string \<times> int) list" where
  "task_publications d =
     [(0, ''temp'', ''c'', HTU21D_temperature d), (1, ''rel_hum'', ''p'', HTU21D_humidity d), (2, ''digital'', ''d'', HTU21D_status d),
      (3, ''temp'', ''c'', MS5637_temperature d), (4, ''bp'', ''hpa'', MS5637_pressure d), (5, ''digital'', ''d'', MS5637_status d),
      (6, ''batt'', ''p'', Battery_level d), (7, ''digital'', ''d'', Battery_status d)]"

fun publish_all :: "'w os \<Rightarrow> ('f, 'w) app \<Rightarrow> (int \<times> string \<times> string \<times> int) list \<Rightarrow> 'f CayenneMQTTClient \<Rightarrow> 'w \<Rightarrow> ('f CayenneMQTTClient \<times> 'w) option" where
  "publish_all os app [] client w = Some (client, w)"
| "publish_all os app ((ch, type, unit, value) # ps) client w = do {
     (_, client, w) \<leftarrow> CayenneMQTTPublishDataInt os app client None DATA_TOPIC ch (Some (cs type)) (Some (cs unit)) value w;
     publish_all os app ps client w }"

text \<open>\<open>cayenne_task\<close>: \<open>delay\<close> is the platform's wait.\<close>

definition cayenne_task :: "'w os \<Rightarrow> (int \<Rightarrow> 'w \<Rightarrow> 'w) \<Rightarrow> ('f, 'w) app \<Rightarrow> BA5C_data_t \<Rightarrow> 'f CayenneMQTTClient \<Rightarrow> 'w \<Rightarrow> ('f CayenneMQTTClient \<times> 'w) option" where
  "cayenne_task os delay app d client w = publish_all os app (task_publications d) client (delay 1000 w)"

text \<open>
  \<open>cayenne_task_handler\<close> and the event handler of the WiFi repeat \<open>cayenne_task\<close> for ever.  These are its first rounds, one for each element of
  the list of what the global \<open>BA5C_data\<close> holds then: the Bluetooth callbacks change it between the rounds.
\<close>

fun cayenne_task_handler ::
    "'w os \<Rightarrow> (int \<Rightarrow> 'w \<Rightarrow> 'w) \<Rightarrow> ('f, 'w) app \<Rightarrow> BA5C_data_t list \<Rightarrow> 'f CayenneMQTTClient \<Rightarrow> 'w \<Rightarrow> ('f CayenneMQTTClient \<times> 'w) option" where
  "cayenne_task_handler os delay app [] client w = Some (client, w)"
| "cayenne_task_handler os delay app (d # ds) client w = do {
     (client, w) \<leftarrow> cayenne_task os delay app d client w; cayenne_task_handler os delay app ds client w }"

section \<open>Publishing over a working link\<close>

text \<open>A client that is connected and whose send buffer is as \<open>CayenneMQTTClientInit\<close> sets it up.\<close>

definition ready :: "unit MQTTClient \<Rightarrow> bool" where
  "ready c \<longleftrightarrow> isconnected c \<and> command_timeout_ms c = 30000 \<and> buf_size c = 134 \<and> length (buf c) = 135"

definition publication :: "int \<Rightarrow> byte list \<Rightarrow> byte list \<Rightarrow> byte list" where
  "publication retained topicName payload = packet (publish_header 0 0 retained) (publish_body 0 0 (topic_of topicName) payload)"

lemma length_publish_body: "length t < 65536 \<Longrightarrow> length (publish_body 0 0 (topic_of t) p) = 2 + length t + length p"
  using wf_cstring [of t] length_mqttstring_bytes [of "topic_of t"]
  by (simp add: publish_body_def topic_of_def MQTTstrlen_def MQTTString_initializer_def)

lemma publish_built_eq:
  assumes "CayenneBuildTopic (replicate 135 0) 135 (cy_username client) (or_own clientID client) topic channel = Some (0, buffer)"
    and "cstr_at buffer 0 = Some tn" and "build (drop (length tn + 1) buffer) (135 - (length tn + 1)) = Some (0, payload, len)"
    and "MQTTPublish os (arrived app client) (cy_mqttClient client) tn
           \<lparr>msg_qos = qos, msg_retained = retained, msg_dup = 0, msg_id = None, msg_payload = Some payload, msg_payloadlen = Some (i32 len)\<rparr> w =
         Some (rc, M, c', w')"
  shows "publish_built os app client topic channel clientID build qos retained w = Some (rc, client\<lparr>cy_mqttClient := c'\<rparr>, w')"
  using assms by (simp add: publish_built_def CAYENNE_MAX_MESSAGE_SIZE_def)

context mqtt_link
begin

lemma publish_plain:
  assumes "ready c" and "msg_qos m = 0" and "msg_payload m = Some src" and "msg_payloadlen m = Some (int n)" and "n \<le> length src"
    and "2 + length topic + n \<le> 131"
  shows "\<exists>c' w'. MQTTPublish os call c topic m w = Some (0, m, c', w') \<and> ready c' \<and>
     inbox w' = inbox w \<and> outbox w' = outbox w @ publication (msg_retained m) topic (take n src)"
proof -
  let ?body = "publish_body 0 0 (topic_of topic) (take n src)"
  let ?p = "packet (publish_header 0 0 (msg_retained m)) ?body"
  have lb: "length ?body = 2 + length topic + n" using length_publish_body [of topic "take n src"] assms(5,6) by simp
  then have small: "MQTTPacket_len (int (length ?body)) \<le> buf_size c" using assms(1,6) by (simp add: MQTTPacket_len_def ready_def Let_def)
  have wf: "wf_string (topic_of topic)" using assms(6) by (simp add: topic_of_def)
  have lt: "length ?body < 268435456" using lb assms(6) by simp
  have fits: "length ?p \<le> length (buf c)" "?p \<noteq> []"
    using packet_fits [OF lt small] assms(1) by (simp_all add: packet_def ready_def)
  note ser = serialized [OF serialize_publish_emit [OF wf refl assms(5) small, of "buf c" 0 "msg_retained m"] fits]
  obtain timer w1 where w1: "countdown_ms os (command_timeout_ms c) w = (timer, w1)" "live timer" "inbox w1 = inbox w" "outbox w1 = outbox w"
    using countdown_ms_live [of "command_timeout_ms c" w] assms(1) by (auto simp: ready_def)
  let ?c = "c\<lparr>buf := put 0 ?p (buf c)\<rparr>"
  obtain t w2 where w2: "sendPacket os ?c (int (length ?p)) timer w1 = Some (0, ?c\<lparr>ping_timer := t\<rparr>, w2)"
      "inbox w2 = inbox w1" "outbox w2 = outbox w1 @ ?p"
    using sendPacket_ok [OF w1(2), of "int (length ?p)" ?c w1] fits ser by auto
  have "MQTTPublish os call c topic m w = Some (0, m, ?c\<lparr>ping_timer := t\<rparr>, w2)"
    using assms(1-4) w1(1) w2(1) ser(1) fits by (simp add: MQTTPublish_def ready_def Let_def)
  moreover have "ready (?c\<lparr>ping_timer := t\<rparr>)" using assms(1) fits by (simp add: ready_def)
  ultimately show ?thesis using w1 w2 by (auto simp: publication_def)
qed

lemma publish_array_sent:
  assumes u_def: "cy_username client = Some u" and cid_def: "or_own clientID client = Some cid" and "ready (cy_mqttClient client)"
    and "text_ok u" and "text_ok cid" and "topicString topic \<noteq> None" and "0 \<le> channel"
    and "length (suffix_text topic channel) < 20"
    and "regular type vs" and "unit_texts type vs \<noteq> [] \<or> value_texts vs \<noteq> []"
    and "tn = topic_text u cid (suffix_text topic channel)" and "length tn + length (data_text type vs) \<le> 129"
  shows "\<exists>c' w'. CayenneMQTTPublishDataArray os app client clientID topic channel type vs (length vs) w =
       Some (0, client\<lparr>cy_mqttClient := c'\<rparr>, w') \<and> ready c' \<and> inbox w' = inbox w \<and>
     outbox w' = outbox w @ publication (if topic = COMMAND_TOPIC then 0 else 1) tn (data_text type vs)"
proof -
  let ?s = "suffix_text topic channel" and ?D = "data_text type vs"
  obtain str where str: "topicString topic = Some str" using assms(6) by auto
  have strok: "text_ok (cs str)" using str by (cases topic) (auto simp: cs_def)
  have sok: "text_ok ?s" using strok str by (simp add: suffix_text_def cs_def)
  have lT: "length tn = length u + length cid + length ?s + 12" by (simp add: assms(11) topic_text_def cs_def)
  have Tok: "text_ok tn" using assms(4,5) sok by (simp add: assms(11) topic_text_def cs_def)
  let ?r = "drop (length tn + 1) (replicate 135 0) :: mem"
  let ?payload = "?D @ 0 # drop (length ?D + 1) ?r" and ?retained = "if topic \<noteq> COMMAND_TOPIC then 1 else 0"
  have t: "CayenneBuildTopic (replicate 135 0) 135 (cy_username client) (or_own clientID client) topic channel = Some (0, tn @ 0 # ?r)"
    using buildSuffix_eq [OF str assms(7), of 20] assms(1,2,8,12) sok lT
      buildTopic_eq [OF assms(4,5) sok, of "replicate 135 0" 135]
    by (auto simp: CayenneBuildTopic_def text_ok_def assms(11))
  have n: "cstr_at (tn @ 0 # ?r) 0 = Some tn" using Tok by (simp add: text_ok_def)
  have b: "CayenneBuildDataPayload (drop (length tn + 1) (tn @ 0 # ?r)) (135 - (length tn + 1)) type vs (length vs) =
      Some (0, ?payload, int (length ?D))"
    using data_payload_eq [OF assms(9,10), of ?r "135 - (length tn + 1)"] assms(12) by simp
  have le: "length ?D \<le> length ?payload" and fit: "2 + length tn + length ?D \<le> 131" and i: "i32 (int (length ?D)) = int (length ?D)"
    using assms(12) by simp_all
  let ?m = "\<lparr>msg_qos = 0, msg_retained = ?retained, msg_dup = 0, msg_id = None,
          msg_payload = Some ?payload, msg_payloadlen = Some (i32 (int (length ?D)))\<rparr>"
  obtain c' w' where sent: "MQTTPublish os (arrived app client) (cy_mqttClient client) tn ?m w = Some (0, ?m, c', w')"
      "ready c'" "inbox w' = inbox w" "outbox w' = outbox w @ publication ?retained tn ?D"
    using publish_plain [OF assms(3) _ _ _ le fit, of ?m "arrived app client" w] i by auto
  show ?thesis
    using publish_built_eq [where build = "\<lambda>p z. CayenneBuildDataPayload p z type vs (length vs)", OF t n b sent(1)] sent(2-)
    by (auto simp: CayenneMQTTPublishDataArray_def)
qed

end

text \<open>One measurement of the task.\<close>

definition measurement_ok :: "int \<times> string \<times> string \<times> int \<Rightarrow> bool" where
  "measurement_ok p = (case p of (ch, type, unit, value) \<Rightarrow> 0 \<le> ch \<and> ch < 10 \<and> type \<noteq> [] \<and> unit \<noteq> [] \<and>
     text_ok (cs type) \<and> text_ok (cs unit) \<and> length type + length unit \<le> 8 \<and> - (2 ^ 31) \<le> value \<and> value < 2 ^ 32)"

definition measurement_packet :: "byte list \<Rightarrow> byte list \<Rightarrow> int \<times> string \<times> string \<times> int \<Rightarrow> byte list" where
  "measurement_packet u cid p = (case p of (ch, type, unit, value) \<Rightarrow>
     publication 1 (topic_text u cid (cs ''data/'' @ dec (nat ch))) (cs type @ cs '','' @ cs unit @ cs ''='' @ dec_int value))"

lemma length_cs [simp]: "length (cs s) = length s" and cs_eq_Nil [simp]: "cs s = [] \<longleftrightarrow> s = []"
  by (simp_all add: cs_def)

lemma suffix_data: "0 \<le> ch \<Longrightarrow> ch < 10 \<Longrightarrow> suffix_text DATA_TOPIC ch = cs ''data/'' @ dec (nat ch) \<and> length (dec (nat ch)) = 1"
  by (subst dec.simps) (simp add: suffix_text_def cs_def CAYENNE_NO_CHANNEL_def CAYENNE_ALL_CHANNELS_def)

lemma data_text_single:
  "data_text (Some t) [\<lparr>vp_unit = Some u, vp_value = Some v\<rparr>] = t @ cs '','' @ u @ cs ''='' @ v"
  by (simp add: data_text_def unit_texts_def value_texts_def cs_def)

context mqtt_link
begin

lemma publish_int_sent:
  assumes "cy_username client = Some u" and "cy_clientID client = Some cid" and "ready (cy_mqttClient client)"
    and "text_ok u" and "text_ok cid" and "length u + length cid \<le> 90" and "measurement_ok (ch, type, unit, value)"
  shows "\<exists>c' w'. CayenneMQTTPublishDataInt os app client None DATA_TOPIC ch (Some (cs type)) (Some (cs unit)) value w =
       Some (0, client\<lparr>cy_mqttClient := c'\<rparr>, w') \<and> ready c' \<and> inbox w' = inbox w \<and>
     outbox w' = outbox w @ measurement_packet u cid (ch, type, unit, value)"
proof -
  note ok = assms(7) [unfolded measurement_ok_def prod.case]
  have v: "length (dec_int value) \<le> 11" "text_ok (dec_int value)" using dec_int_32 [of "value"] ok by simp_all
  have s: "suffix_text DATA_TOPIC ch = cs ''data/'' @ dec (nat ch)" "length (dec (nat ch)) = 1" using suffix_data [of ch] ok by simp_all
  let ?vs = "[\<lparr>vp_unit = Some (cs unit), vp_value = Some (dec_int value)\<rparr>]"
  let ?tn = "topic_text u cid (suffix_text DATA_TOPIC ch)"
  have D: "data_text (Some (cs type)) ?vs = cs type @ cs '','' @ cs unit @ cs ''='' @ dec_int value" by (rule data_text_single)
  have reg: "regular (Some (cs type)) ?vs" "unit_texts (Some (cs type)) ?vs \<noteq> []"
    using ok v by (simp_all add: regular_def unit_texts_def)
  have "length ?tn + length (data_text (Some (cs type)) ?vs) \<le> 129" unfolding D using s ok v assms(6) by (simp add: topic_text_def)
  then show ?thesis
    using publish_array_sent [OF assms(1) _ assms(3-5) _ _ _ reg(1) disjI1 [OF reg(2)] refl,
        of None DATA_TOPIC ch app w]
      assms(2) ok s D printed_fits [of "dec_int value" 34] v
    by (simp add: CayenneMQTTPublishDataInt_def CayenneMQTTPublishData_def or_own_def measurement_packet_def)
qed

lemma publish_all_sent:
  assumes "cy_username client = Some u" and "cy_clientID client = Some cid" and "ready (cy_mqttClient client)"
    and "text_ok u" and "text_ok cid" and "length u + length cid \<le> 90" and "list_all measurement_ok ps"
  shows "\<exists>c' w'. publish_all os app ps client w = Some (client\<lparr>cy_mqttClient := c'\<rparr>, w') \<and> ready c' \<and> inbox w' = inbox w \<and>
     outbox w' = outbox w @ concat (map (measurement_packet u cid) ps)"
  using assms(1-3,7)
proof (induction ps arbitrary: client w)
  case Nil
  then show ?case by (auto intro!: exI [of _ "cy_mqttClient client"])
next
  case (Cons p ps)
  obtain ch ty un v where p: "p = (ch, ty, un, v)" by (cases p)
  obtain c1 w1 where 1: "CayenneMQTTPublishDataInt os app client None DATA_TOPIC ch (Some (cs ty)) (Some (cs un)) v w =
       Some (0, client\<lparr>cy_mqttClient := c1\<rparr>, w1)" "ready c1" "inbox w1 = inbox w" "outbox w1 = outbox w @ measurement_packet u cid p"
    using publish_int_sent [OF Cons.prems(1-3) assms(4-6), of ch ty un v app w] Cons.prems(4) p by auto
  show ?case using Cons.IH [of "client\<lparr>cy_mqttClient := c1\<rparr>" w1] Cons.prems 1 by (auto simp: p)
qed

end

end
