(* ===== verification/Storage.thy ===== *)
theory Storage
  imports Esp
begin

text \<open>
  \<^verbatim>\<open>main/src/Storage/esp32iot_storage.c\<close>: the settings in flash.

  The NVS library and \<open>malloc\<close> are the parameter \<open>nvs\<close>: a record of functions on a world \<open>'w\<close>, and \<open>nvs_code\<close>, the values of
  its error macros.  Every partition is opened read-write.  An out parameter of a call is both an
  argument and a result where the code relies on the value it keeps on failure.  Logging is left out.  A string out parameter of the storage
  functions is the object it points to.
\<close>

section \<open>The NVS library\<close>

datatype nvs_err = ESP_ERR_NVS_BASE | ESP_ERR_NVS_NOT_INITIALIZED | ESP_ERR_NVS_NOT_FOUND | ESP_ERR_NVS_TYPE_MISMATCH
  | ESP_ERR_NVS_READ_ONLY | ESP_ERR_NVS_NOT_ENOUGH_SPACE | ESP_ERR_NVS_INVALID_NAME | ESP_ERR_NVS_INVALID_HANDLE
  | ESP_ERR_NVS_REMOVE_FAILED | ESP_ERR_NVS_KEY_TOO_LONG | ESP_ERR_NVS_PAGE_FULL | ESP_ERR_NVS_INVALID_STATE
  | ESP_ERR_NVS_NO_FREE_PAGES | ESP_ERR_NVS_VALUE_TOO_LONG | ESP_ERR_NVS_PART_NOT_FOUND

record 'w nvs =
  nvs_code :: "nvs_err \<Rightarrow> int"
  nvs_flash_init :: "'w \<Rightarrow> int \<times> 'w"
  nvs_flash_erase :: "'w \<Rightarrow> int \<times> 'w"
  nvs_open :: "byte list \<Rightarrow> 'w \<Rightarrow> int \<times> int \<times> 'w"
  nvs_erase_all :: "int \<Rightarrow> 'w \<Rightarrow> int \<times> 'w"
  nvs_get_str_len :: "int \<Rightarrow> byte list \<Rightarrow> nat \<Rightarrow> 'w \<Rightarrow> int \<times> nat \<times> 'w" \<comment> \<open>\<open>nvs_get_str\<close> with a null buffer\<close>
  nvs_get_str :: "int \<Rightarrow> byte list \<Rightarrow> nat \<Rightarrow> 'w \<Rightarrow> int \<times> byte list \<times> 'w" \<comment> \<open>the bytes stored into the buffer\<close>
  nvs_set_str :: "int \<Rightarrow> byte list \<Rightarrow> byte list \<Rightarrow> 'w \<Rightarrow> int \<times> 'w"
  nvs_get_i32 :: "int \<Rightarrow> byte list \<Rightarrow> int \<Rightarrow> 'w \<Rightarrow> int \<times> int \<times> 'w"
  nvs_set_i32 :: "int \<Rightarrow> byte list \<Rightarrow> int \<Rightarrow> 'w \<Rightarrow> int \<times> 'w"
  nvs_commit :: "int \<Rightarrow> 'w \<Rightarrow> int \<times> 'w"
  nvs_close :: "int \<Rightarrow> 'w \<Rightarrow> 'w"
  heap_alloc :: "nat \<Rightarrow> 'w \<Rightarrow> bool \<times> 'w" \<comment> \<open>whether \<open>malloc\<close> gives memory\<close>

section \<open>Operations\<close>

definition GENERAL_STORAGE_NAMESPACE :: "byte list" where
  "GENERAL_STORAGE_NAMESPACE = cs ''general_storage''"

definition WIFI_SETTINGS_STORAGE_NAMESPACE :: "byte list" where
  "WIFI_SETTINGS_STORAGE_NAMESPACE = cs ''wifi_storage''"

text \<open>The cases of the switch, in their order, with the string each returns.\<close>

definition nvs_event_names :: "(nvs_err \<times> string) list" where
  "nvs_event_names =
    [(ESP_ERR_NVS_BASE, ''ESP_ERR_NVS_BASE''), (ESP_ERR_NVS_NOT_INITIALIZED, ''ESP_ERR_NVS_NOT_INITIALIZED''),
     (ESP_ERR_NVS_NOT_FOUND, ''ESP_ERR_NVS_NOT_FOUND''), (ESP_ERR_NVS_TYPE_MISMATCH, ''ESP_ERR_NVS_TYPE_MISMATCH''),
     (ESP_ERR_NVS_READ_ONLY, ''ESP_ERR_NVS_READ_ONLY''), (ESP_ERR_NVS_NOT_ENOUGH_SPACE, ''ESP_ERR_NVS_NOT_ENOUGH_SPACE''),
     (ESP_ERR_NVS_INVALID_NAME, ''ESP_ERR_NVS_INVALID_NAME''), (ESP_ERR_NVS_INVALID_HANDLE, ''ESP_ERR_NVS_INVALID_HANDLE''),
     (ESP_ERR_NVS_REMOVE_FAILED, ''ESP_ERR_NVS_REMOVE_FAILED''), (ESP_ERR_NVS_KEY_TOO_LONG, ''ESP_ERR_NVS_KEY_TOO_LONG''),
     (ESP_ERR_NVS_PAGE_FULL, ''ESP_ERR_NVS_PAGE_FULL''), (ESP_ERR_NVS_INVALID_STATE, ''ESP_ERR_NVS_INVALID_STATE''),
     (ESP_ERR_NVS_NO_FREE_PAGES, ''ESP_ERR_NVS_NO_FREE_PAGES''), (ESP_ERR_NVS_VALUE_TOO_LONG, ''ESP_ERR_NVS_VALUE_TOO_LONG''),
     (ESP_ERR_NVS_PART_NOT_FOUND, ''ESP_ERR_NVS_VALUE_TOO_LONG'')]"

definition nvs_event_to_string :: "(nvs_err \<Rightarrow> int) \<Rightarrow> int \<Rightarrow> byte list" where
  "nvs_event_to_string code ev =
     (case find (\<lambda>(c, s). code c = ev) nvs_event_names of
        Some (c, s) \<Rightarrow> cs s
      | None \<Rightarrow> cs ''Unknown event: '' @ dec_int ev)"

definition storage_init :: "'w nvs \<Rightarrow> 'w \<Rightarrow> (int, 'w) outcome" where
  "storage_init nvs w =
     (let (err, w) = nvs_flash_init nvs w in
      if err = nvs_code nvs ESP_ERR_NVS_NO_FREE_PAGES then
        (let (err, w) = nvs_flash_erase nvs w in
         unless_error err w
           (let (err, w) = nvs_flash_init nvs w in
            unless_error err w (Return err w)))
      else unless_error err w (Return err w))"

text \<open>\<open>err != ESP_OK && err != ESP_ERR_NVS_NOT_FOUND\<close> is the failure of a read.\<close>

definition read_error :: "'w nvs \<Rightarrow> int \<Rightarrow> int" where
  "read_error nvs err = (if err \<noteq> ESP_OK \<and> err \<noteq> nvs_code nvs ESP_ERR_NVS_NOT_FOUND then err else ESP_OK)"

definition erase_storage :: "'w nvs \<Rightarrow> 'w \<Rightarrow> (int, 'w) outcome" where
  "erase_storage nvs w =
     (let (err, h, w) = nvs_open nvs WIFI_SETTINGS_STORAGE_NAMESPACE w in
      andThen (ESP_ERROR_CHECK err w) (\<lambda>_ w. unless_error err w
        (let (err, w) = nvs_erase_all nvs h w in
         unless_error (read_error nvs err) w
           (Return ESP_OK (nvs_close nvs h w)))))"

text \<open>The block that writes one string: query its size, then set it.\<close>

definition write_str :: "'w nvs \<Rightarrow> int \<Rightarrow> byte list \<Rightarrow> byte list \<Rightarrow> 'w \<Rightarrow> ('w \<Rightarrow> (int, 'w) outcome) \<Rightarrow> (int, 'w) outcome" where
  "write_str nvs h key val w k =
     (let (err, required_size, w) = nvs_get_str_len nvs h key 0 w in
      unless_error (read_error nvs err) w
        (let (err, w) = nvs_set_str nvs h key val w in
         unless_error err w (k w)))"

text \<open>Commit and close, the end of every function that writes.\<close>

definition commit_close :: "'w nvs \<Rightarrow> int \<Rightarrow> 'w \<Rightarrow> (int, 'w) outcome" where
  "commit_close nvs h w =
     (let (err, w) = nvs_commit nvs h w in
      unless_error err w (Return ESP_OK (nvs_close nvs h w)))"

definition save_wifi :: "'w nvs \<Rightarrow> byte list \<Rightarrow> byte list \<Rightarrow> 'w \<Rightarrow> (int, 'w) outcome" where
  "save_wifi nvs ssid password w =
     (let (err, h, w) = nvs_open nvs WIFI_SETTINGS_STORAGE_NAMESPACE w in
      unless_error err w
        (write_str nvs h ssid password w (commit_close nvs h)))"

text \<open>
  The block that reads one string through a buffer of \<open>cap\<close> bytes on the stack into the object \<open>dst\<close>: \<open>nvs_get_str\<close>
  stores as many bytes as the value needs, whatever the size of the buffer is.
\<close>

definition found_str :: "byte list \<Rightarrow> nat \<Rightarrow> int \<Rightarrow> mem \<Rightarrow> 'w \<Rightarrow> (int \<times> mem, 'w) outcome" where
  "found_str found cap err dst w =
     (if length found > cap then Undefined
      else if err \<noteq> ESP_OK then andThen (ESP_ERROR_CHECK err w) (\<lambda>_ w. Return (err, dst) w)
      else (case cstr_at found 0 of
              None \<Rightarrow> Undefined
            | Some s \<Rightarrow> (case c_strcpy dst s of None \<Rightarrow> Undefined | Some dst \<Rightarrow> Return (ESP_OK, dst) w)))"

definition read_str :: "'w nvs \<Rightarrow> int \<Rightarrow> byte list \<Rightarrow> nat \<Rightarrow> mem \<Rightarrow> 'w \<Rightarrow> (int \<times> mem, 'w) outcome" where
  "read_str nvs h key cap dst w =
     (let (err, required_size, w) = nvs_get_str_len nvs h key 0 w in
      if read_error nvs err \<noteq> ESP_OK then andThen (ESP_ERROR_CHECK err w) (\<lambda>_ w. Return (err, dst) w)
      else if required_size = 0 then Return (ESP_OK, dst) w
      else (let (err, found, w) = nvs_get_str nvs h key required_size w in found_str found cap err dst w))"

text \<open>
  The same with a buffer of the required size from \<open>malloc\<close>.  With a null buffer \<open>nvs_get_str\<close> only tells the size, and
  \<open>strcpy\<close> from the null pointer is undefined.
\<close>

definition read_str_malloc :: "'w nvs \<Rightarrow> int \<Rightarrow> byte list \<Rightarrow> mem \<Rightarrow> 'w \<Rightarrow> (int \<times> mem, 'w) outcome" where
  "read_str_malloc nvs h key dst w =
     (let (err, required_size, w) = nvs_get_str_len nvs h key 0 w in
      if read_error nvs err \<noteq> ESP_OK then andThen (ESP_ERROR_CHECK err w) (\<lambda>_ w. Return (err, dst) w)
      else if required_size = 0 then Return (ESP_OK, dst) w
      else (let (ok, w) = heap_alloc nvs required_size w in
        if ok then (let (err, found, w) = nvs_get_str nvs h key required_size w in found_str found required_size err dst w)
        else (let (err, _, w) = nvs_get_str_len nvs h key required_size w in
          if err \<noteq> ESP_OK then andThen (ESP_ERROR_CHECK err w) (\<lambda>_ w. Return (err, dst) w) else Undefined)))"

definition get_wifi :: "'w nvs \<Rightarrow> byte list \<Rightarrow> mem \<Rightarrow> 'w \<Rightarrow> (int \<times> mem, 'w) outcome" where
  "get_wifi nvs ssid password w =
     (let (err, h, w) = nvs_open nvs WIFI_SETTINGS_STORAGE_NAMESPACE w in
      andThen (ESP_ERROR_CHECK err w) (\<lambda>_ w.
      andThen (read_str nvs h ssid 64 password w) (\<lambda>(err, password) w.
        if err \<noteq> ESP_OK then Return (err, password) w
        else Return (ESP_OK, password) (nvs_close nvs h w))))"

definition save_last_connected_wifi :: "'w nvs \<Rightarrow> byte list \<Rightarrow> byte list \<Rightarrow> 'w \<Rightarrow> (int, 'w) outcome" where
  "save_last_connected_wifi nvs ssid password w =
     (let (err, h, w) = nvs_open nvs WIFI_SETTINGS_STORAGE_NAMESPACE w in
      unless_error err w
        (write_str nvs h (cs ''last_ssid'') ssid w (\<lambda>w.
         write_str nvs h (cs ''last_password'') password w (commit_close nvs h))))"

definition get_last_connected_wifi :: "'w nvs \<Rightarrow> mem \<Rightarrow> mem \<Rightarrow> 'w \<Rightarrow> (int \<times> mem \<times> mem, 'w) outcome" where
  "get_last_connected_wifi nvs ssid password w =
     (let (err, h, w) = nvs_open nvs WIFI_SETTINGS_STORAGE_NAMESPACE w in
      andThen (ESP_ERROR_CHECK err w) (\<lambda>_ w.
      andThen (read_str nvs h (cs ''last_ssid'') 33 ssid w) (\<lambda>(err, ssid) w.
        if err \<noteq> ESP_OK then Return (err, ssid, password) w
        else andThen (read_str nvs h (cs ''last_password'') 64 password w) (\<lambda>(err, password) w.
          if err \<noteq> ESP_OK then Return (err, ssid, password) w
          else Return (ESP_OK, ssid, password) (nvs_close nvs h w)))))"

definition save_last_connected_mqtt :: "'w nvs \<Rightarrow> byte list \<Rightarrow> byte list \<Rightarrow> byte list \<Rightarrow> 'w \<Rightarrow> (int, 'w) outcome" where
  "save_last_connected_mqtt nvs username password clientID w =
     (let (err, h, w) = nvs_open nvs WIFI_SETTINGS_STORAGE_NAMESPACE w in
      unless_error err w
        (write_str nvs h (cs ''mqtt_user'') username w (\<lambda>w.
         write_str nvs h (cs ''mqtt_pass'') password w (\<lambda>w.
         write_str nvs h (cs ''mqtt_id'') clientID w (commit_close nvs h)))))"

definition get_last_connected_mqtt :: "'w nvs \<Rightarrow> mem \<Rightarrow> mem \<Rightarrow> mem \<Rightarrow> 'w \<Rightarrow> (int \<times> mem \<times> mem \<times> mem, 'w) outcome" where
  "get_last_connected_mqtt nvs username password clientID w =
     (let (err, h, w) = nvs_open nvs WIFI_SETTINGS_STORAGE_NAMESPACE w in
      andThen (ESP_ERROR_CHECK err w) (\<lambda>_ w.
      andThen (read_str_malloc nvs h (cs ''mqtt_user'') username w) (\<lambda>(err, username) w.
        if err \<noteq> ESP_OK then Return (err, username, password, clientID) w
        else andThen (read_str_malloc nvs h (cs ''mqtt_pass'') password w) (\<lambda>(err, password) w.
          if err \<noteq> ESP_OK then Return (err, username, password, clientID) w
          else andThen (read_str_malloc nvs h (cs ''mqtt_id'') clientID w) (\<lambda>(err, clientID) w.
            if err \<noteq> ESP_OK then Return (err, username, password, clientID) w
            else Return (ESP_OK, username, password, clientID) (nvs_close nvs h w))))))"

definition restart_key :: "byte list" where
  "restart_key = cs ''restart_counter''"

text \<open>\<open>restart_counter++\<close> on an \<open>int32_t\<close> at its maximum is undefined.\<close>

definition save_restart_counter :: "'w nvs \<Rightarrow> 'w \<Rightarrow> (int, 'w) outcome" where
  "save_restart_counter nvs w =
     (let (err, h, w) = nvs_open nvs GENERAL_STORAGE_NAMESPACE w in
      unless_error err w
        (let (err, restart_counter, w) = nvs_get_i32 nvs h restart_key 0 w in
         unless_error (read_error nvs err) w
           (if restart_counter = 2147483647 then Undefined
            else (let (err, w) = nvs_set_i32 nvs h restart_key (restart_counter + 1) w in
              unless_error err w (commit_close nvs h w)))))"

definition get_restart_counter :: "'w nvs \<Rightarrow> 'w \<Rightarrow> (int, 'w) outcome" where
  "get_restart_counter nvs w =
     (let (err, h, w) = nvs_open nvs GENERAL_STORAGE_NAMESPACE w in
      unless_error err w
        (let (err, restart_counter, w) = nvs_get_i32 nvs h restart_key 0 w in
         unless_error (read_error nvs err) w (Return ESP_OK (nvs_close nvs h w))))"

definition reset_restart_counter :: "'w nvs \<Rightarrow> 'w \<Rightarrow> (int, 'w) outcome" where
  "reset_restart_counter nvs w =
     (let (err, h, w) = nvs_open nvs GENERAL_STORAGE_NAMESPACE w in
      unless_error err w
        (let (err, w) = nvs_set_i32 nvs h restart_key 0 w in
         unless_error err w (commit_close nvs h w)))"

section \<open>A working store\<close>

text \<open>
  The contract of the NVS library as it is documented: an opened handle stands for its namespace, strings and integers
  are read back as they were set with the type they were set, keys have at most 15 characters, there is room for values of up to 1983 characters, and \<open>malloc\<close> gives memory.  \<open>strs\<close> and \<open>ints\<close> are
  the contents of the store, \<open>opened\<close> the namespaces of the handles.
\<close>

locale nvs_store =
  fixes nvs :: "'w nvs" and strs :: "'w \<Rightarrow> byte list \<Rightarrow> byte list \<Rightarrow> byte list option"
    and ints :: "'w \<Rightarrow> byte list \<Rightarrow> byte list \<Rightarrow> int option" and opened :: "'w \<Rightarrow> int \<Rightarrow> byte list option"
  assumes codes: "inj (nvs_code nvs)" "nvs_code nvs c \<noteq> 0"
    and open_ok: "\<exists>h w'. nvs_open nvs n w = (0, h, w') \<and> opened w' h = Some n \<and> strs w' = strs w \<and> ints w' = ints w"
    and len_none: "opened w h = Some n \<Longrightarrow> length k \<le> 15 \<Longrightarrow> strs w n k = None \<Longrightarrow>
      \<exists>w'. nvs_get_str_len nvs h k z w = (nvs_code nvs ESP_ERR_NVS_NOT_FOUND, z, w') \<and> strs w' = strs w \<and> ints w' = ints w \<and> opened w' = opened w"
    and len_some: "opened w h = Some n \<Longrightarrow> length k \<le> 15 \<Longrightarrow> strs w n k = Some v \<Longrightarrow>
      \<exists>w'. nvs_get_str_len nvs h k z w = (0, length v + 1, w') \<and> strs w' = strs w \<and> ints w' = ints w \<and> opened w' = opened w"
    and get_some: "opened w h = Some n \<Longrightarrow> length k \<le> 15 \<Longrightarrow> strs w n k = Some v \<Longrightarrow> length v + 1 \<le> z \<Longrightarrow>
      \<exists>w'. nvs_get_str nvs h k z w = (0, v @ [0], w') \<and> strs w' = strs w \<and> ints w' = ints w \<and> opened w' = opened w"
    and set_ok: "opened w h = Some n \<Longrightarrow> k \<noteq> [] \<Longrightarrow> length k \<le> 15 \<Longrightarrow> ints w n k = None \<Longrightarrow> 0 \<notin> set v \<Longrightarrow> length v < 1984 \<Longrightarrow>
      \<exists>w'. nvs_set_str nvs h k v w = (0, w') \<and> strs w' = (strs w)(n := (strs w n)(k \<mapsto> v)) \<and> ints w' = ints w \<and> opened w' = opened w"
    and long_key_get: "opened w h = Some n \<Longrightarrow> 15 < length k \<Longrightarrow>
      \<exists>e z' w'. nvs_get_str_len nvs h k z w = (e, z', w') \<and> (e = nvs_code nvs ESP_ERR_NVS_KEY_TOO_LONG \<or> e = nvs_code nvs ESP_ERR_NVS_NOT_FOUND) \<and>
        strs w' = strs w \<and> ints w' = ints w \<and> opened w' = opened w"
    and long_key_set: "opened w h = Some n \<Longrightarrow> 15 < length k \<Longrightarrow>
      \<exists>w'. nvs_set_str nvs h k v w = (nvs_code nvs ESP_ERR_NVS_KEY_TOO_LONG, w') \<and> strs w' = strs w \<and> ints w' = ints w"
    and i32_none: "opened w h = Some n \<Longrightarrow> length k \<le> 15 \<Longrightarrow> ints w n k = None \<Longrightarrow>
      \<exists>w'. nvs_get_i32 nvs h k d w = (nvs_code nvs ESP_ERR_NVS_NOT_FOUND, d, w') \<and> strs w' = strs w \<and> ints w' = ints w \<and> opened w' = opened w"
    and i32_some: "opened w h = Some n \<Longrightarrow> length k \<le> 15 \<Longrightarrow> ints w n k = Some i \<Longrightarrow>
      \<exists>w'. nvs_get_i32 nvs h k d w = (0, i, w') \<and> strs w' = strs w \<and> ints w' = ints w \<and> opened w' = opened w"
    and set_i32_ok: "opened w h = Some n \<Longrightarrow> length k \<le> 15 \<Longrightarrow> strs w n k = None \<Longrightarrow>
      \<exists>w'. nvs_set_i32 nvs h k i w = (0, w') \<and> ints w' = (ints w)(n := (ints w n)(k \<mapsto> i)) \<and> strs w' = strs w \<and> opened w' = opened w"
    and erase_ok: "opened w h = Some n \<Longrightarrow>
      \<exists>w'. nvs_erase_all nvs h w = (0, w') \<and> strs w' = (strs w)(n := \<lambda>_. None) \<and> ints w' = (ints w)(n := \<lambda>_. None)"
    and commit_ok: "opened w h = Some n \<Longrightarrow>
      \<exists>w'. nvs_commit nvs h w = (0, w') \<and> strs w' = strs w \<and> ints w' = ints w \<and> opened w' = opened w"
    and close_ok: "strs (nvs_close nvs h w) = strs w \<and> ints (nvs_close nvs h w) = ints w"
    and alloc_ok: "\<exists>w'. heap_alloc nvs z w = (True, w') \<and> strs w' = strs w \<and> ints w' = ints w \<and> opened w' = opened w"

begin

lemma read_error_simps [simp]:
  "read_error nvs 0 = 0" "read_error nvs (nvs_code nvs ESP_ERR_NVS_NOT_FOUND) = 0"
  "read_error nvs (nvs_code nvs ESP_ERR_NVS_KEY_TOO_LONG) = nvs_code nvs ESP_ERR_NVS_KEY_TOO_LONG"
  using codes by (auto simp: read_error_def inj_eq)

lemma len_ok:
  assumes "opened w h = Some n" and "length k \<le> 15"
  shows "\<exists>e w'. nvs_get_str_len nvs h k 0 w = (e, case strs w n k of None \<Rightarrow> 0 | Some v \<Rightarrow> length v + 1, w') \<and> read_error nvs e = 0 \<and>
     strs w' = strs w \<and> ints w' = ints w \<and> opened w' = opened w"
proof (cases "strs w n k")
  case None
  then show ?thesis using len_none [OF assms None, of 0] read_error_simps(2) by auto
next
  case (Some v)
  then show ?thesis using len_some [OF assms Some, of 0] read_error_simps(1) by auto
qed

lemma write_str_ok:
  assumes "opened w h = Some n" and "k \<noteq> []" and "length k \<le> 15" and "ints w n k = None" and "0 \<notin> set v" and "length v < 1984"
  shows "\<exists>w'. write_str nvs h k v w cont = cont w' \<and> strs w' = (strs w)(n := (strs w n)(k \<mapsto> v)) \<and> ints w' = ints w \<and> opened w' = opened w"
proof -
  obtain e z w1 where 1: "nvs_get_str_len nvs h k 0 w = (e, z, w1)" "read_error nvs e = 0" "strs w1 = strs w" "ints w1 = ints w" "opened w1 = opened w"
    using len_ok [OF assms(1,3)] by blast
  with assms set_ok [of w1 h n k v] show ?thesis by (auto simp: write_str_def)
qed

lemma commit_close_ok:
  assumes "opened w h = Some n"
  shows "\<exists>w'. commit_close nvs h w = Return 0 w' \<and> strs w' = strs w \<and> ints w' = ints w"
  using commit_ok [OF assms] close_ok by (auto simp: commit_close_def)

text \<open>Reading a string that fits the buffer and the destination; without a saved string the destination is kept.\<close>

lemma read_str_ok:
  assumes "opened w h = Some n" and "length k \<le> 15" and "\<And>v. strs w n k = Some v \<Longrightarrow> 0 \<notin> set v \<and> length v < length dst"
    and "\<And>v. strs w n k = Some v \<Longrightarrow> length v < cap"
  shows "\<exists>w'. read_str nvs h k cap dst w = Return (0, case strs w n k of None \<Rightarrow> dst | Some v \<Rightarrow> v @ 0 # drop (Suc (length v)) dst) w' \<and>
     strs w' = strs w \<and> ints w' = ints w \<and> opened w' = opened w"
proof (cases "strs w n k")
  case None
  then show ?thesis using len_none [OF assms(1,2) None, of 0] by (auto simp: read_str_def)
next
  case (Some v)
  obtain w1 where 1: "nvs_get_str_len nvs h k 0 w = (0, Suc (length v), w1)" "strs w1 = strs w" "ints w1 = ints w" "opened w1 = opened w"
    using len_some [OF assms(1,2) Some, of 0] by auto
  then show ?thesis using get_some [of w1 h n k v "Suc (length v)"] Some assms
    by (auto simp: read_str_def found_str_def c_strcpy_eq)
qed

lemma read_str_malloc_ok:
  assumes "opened w h = Some n" and "length k \<le> 15" and "\<And>v. strs w n k = Some v \<Longrightarrow> 0 \<notin> set v \<and> length v < length dst"
  shows "\<exists>w'. read_str_malloc nvs h k dst w = Return (0, case strs w n k of None \<Rightarrow> dst | Some v \<Rightarrow> v @ 0 # drop (Suc (length v)) dst) w' \<and>
     strs w' = strs w \<and> ints w' = ints w \<and> opened w' = opened w"
proof (cases "strs w n k")
  case None
  then show ?thesis using len_none [OF assms(1,2) None, of 0] by (auto simp: read_str_malloc_def)
next
  case (Some v)
  obtain w1 where 1: "nvs_get_str_len nvs h k 0 w = (0, Suc (length v), w1)" "strs w1 = strs w" "ints w1 = ints w" "opened w1 = opened w"
    using len_some [OF assms(1,2) Some, of 0] by auto
  obtain w2 where 2: "heap_alloc nvs (Suc (length v)) w1 = (True, w2)" "strs w2 = strs w" "ints w2 = ints w" "opened w2 = opened w"
    using alloc_ok [of "Suc (length v)" w1] 1 by auto
  then show ?thesis using get_some [of w2 h n k v "Suc (length v)"] 1 Some assms
    by (auto simp: read_str_malloc_def found_str_def c_strcpy_eq)
qed

text \<open>A string that does not fit the stack buffer of \<open>cap\<close> bytes is written past its end.\<close>

lemma read_str_overflow:
  assumes "opened w h = Some n" and "length k \<le> 15" and "strs w n k = Some v" and "cap \<le> length v"
  shows "read_str nvs h k cap dst w = Undefined"
proof -
  obtain w1 where 1: "nvs_get_str_len nvs h k 0 w = (0, Suc (length v), w1)" "strs w1 = strs w" "opened w1 = opened w"
    using len_some [OF assms(1-3), of 0] by auto
  then show ?thesis using get_some [of w1 h n k v "Suc (length v)"] assms
    by (auto simp: read_str_def found_str_def)
qed

end

section \<open>The settings, abstractly\<close>

text \<open>
  What the component promises: a table of strings and a restart counter.  All strings, the passwords by network name, the
  last network and the MQTT account, share one table.
\<close>

record settings =
  set_strs :: "byte list \<Rightarrow> byte list option"
  set_counter :: "int option"

datatype setting_op = Save_wifi "byte list" "byte list" | Save_last_wifi "byte list" "byte list"
  | Save_mqtt "byte list" "byte list" "byte list" | Count_restart | Reset_counter | Erase_storage

primrec run_op :: "'w nvs \<Rightarrow> setting_op \<Rightarrow> 'w \<Rightarrow> (int, 'w) outcome" where
  "run_op nvs (Save_wifi s p) w = save_wifi nvs s p w"
| "run_op nvs (Save_last_wifi s p) w = save_last_connected_wifi nvs s p w"
| "run_op nvs (Save_mqtt u p c) w = save_last_connected_mqtt nvs u p c w"
| "run_op nvs Count_restart w = save_restart_counter nvs w"
| "run_op nvs Reset_counter w = reset_restart_counter nvs w"
| "run_op nvs Erase_storage w = erase_storage nvs w"

primrec run_ops :: "'w nvs \<Rightarrow> setting_op list \<Rightarrow> 'w \<Rightarrow> (int, 'w) outcome" where
  "run_ops nvs [] w = Return ESP_OK w"
| "run_ops nvs (op # ops) w = andThen (run_op nvs op w) (\<lambda>_ w. run_ops nvs ops w)"

definition counter_of :: "settings \<Rightarrow> int" where
  "counter_of \<sigma> = (case set_counter \<sigma> of None \<Rightarrow> 0 | Some i \<Rightarrow> i)"

primrec apply_op :: "setting_op \<Rightarrow> settings \<Rightarrow> settings" where
  "apply_op (Save_wifi s p) \<sigma> = \<sigma>\<lparr>set_strs := (set_strs \<sigma>)(s \<mapsto> p)\<rparr>"
| "apply_op (Save_last_wifi s p) \<sigma> = \<sigma>\<lparr>set_strs := (set_strs \<sigma>)(cs ''last_ssid'' \<mapsto> s, cs ''last_password'' \<mapsto> p)\<rparr>"
| "apply_op (Save_mqtt u p c) \<sigma> = \<sigma>\<lparr>set_strs := (set_strs \<sigma>)(cs ''mqtt_user'' \<mapsto> u, cs ''mqtt_pass'' \<mapsto> p, cs ''mqtt_id'' \<mapsto> c)\<rparr>"
| "apply_op Count_restart \<sigma> = \<sigma>\<lparr>set_counter := Some (counter_of \<sigma> + 1)\<rparr>"
| "apply_op Reset_counter \<sigma> = \<sigma>\<lparr>set_counter := Some 0\<rparr>"
| "apply_op Erase_storage \<sigma> = \<sigma>\<lparr>set_strs := \<lambda>_. None\<rparr>"

definition storable :: "byte list \<Rightarrow> bool" where
  "storable v \<longleftrightarrow> 0 \<notin> set v \<and> length v < 1984"

primrec op_ok :: "setting_op \<Rightarrow> bool" where
  "op_ok (Save_wifi s p) \<longleftrightarrow> s \<noteq> [] \<and> length s \<le> 15 \<and> storable p"
| "op_ok (Save_last_wifi s p) \<longleftrightarrow> storable s \<and> storable p"
| "op_ok (Save_mqtt u p c) \<longleftrightarrow> storable u \<and> storable p \<and> storable c"
| "op_ok Count_restart \<longleftrightarrow> True"
| "op_ok Reset_counter \<longleftrightarrow> True"
| "op_ok Erase_storage \<longleftrightarrow> True"

text \<open>The abstraction, and the typing of the store: strings in the one namespace, integers in the other.\<close>

definition settings_of ::
    "('w \<Rightarrow> byte list \<Rightarrow> byte list \<Rightarrow> byte list option) \<Rightarrow> ('w \<Rightarrow> byte list \<Rightarrow> byte list \<Rightarrow> int option) \<Rightarrow> 'w \<Rightarrow> settings" where
  "settings_of strs ints w = \<lparr>set_strs = strs w WIFI_SETTINGS_STORAGE_NAMESPACE, set_counter = ints w GENERAL_STORAGE_NAMESPACE restart_key\<rparr>"

definition well_typed ::
    "('w \<Rightarrow> byte list \<Rightarrow> byte list \<Rightarrow> byte list option) \<Rightarrow> ('w \<Rightarrow> byte list \<Rightarrow> byte list \<Rightarrow> int option) \<Rightarrow> 'w \<Rightarrow> bool" where
  "well_typed strs ints w \<longleftrightarrow>
     (\<forall>k. ints w WIFI_SETTINGS_STORAGE_NAMESPACE k = None) \<and> (\<forall>k. strs w GENERAL_STORAGE_NAMESPACE k = None)"

lemma namespaces_differ [simp]:
  "WIFI_SETTINGS_STORAGE_NAMESPACE \<noteq> GENERAL_STORAGE_NAMESPACE" "GENERAL_STORAGE_NAMESPACE \<noteq> WIFI_SETTINGS_STORAGE_NAMESPACE"
  by (simp_all add: WIFI_SETTINGS_STORAGE_NAMESPACE_def GENERAL_STORAGE_NAMESPACE_def cs_def)

lemma keys_ok [simp]: "cs ''last_ssid'' \<noteq> []" "length (cs ''last_ssid'') \<le> 15" "cs ''last_password'' \<noteq> []" "length (cs ''last_password'') \<le> 15"
  "cs ''mqtt_user'' \<noteq> []" "length (cs ''mqtt_user'') \<le> 15" "cs ''mqtt_pass'' \<noteq> []" "length (cs ''mqtt_pass'') \<le> 15"
  "cs ''mqtt_id'' \<noteq> []" "length (cs ''mqtt_id'') \<le> 15" "length restart_key \<le> 15"
  by (simp_all add: cs_def restart_key_def)

lemma keys_distinct [simp]: "cs ''last_ssid'' \<noteq> cs ''last_password''" "cs ''last_password'' \<noteq> cs ''last_ssid''"
  "cs ''last_ssid'' \<noteq> cs ''mqtt_user''" "cs ''last_ssid'' \<noteq> cs ''mqtt_pass''" "cs ''last_ssid'' \<noteq> cs ''mqtt_id''"
  "cs ''last_password'' \<noteq> cs ''mqtt_user''" "cs ''last_password'' \<noteq> cs ''mqtt_pass''" "cs ''last_password'' \<noteq> cs ''mqtt_id''"
  by (simp_all add: cs_def)

context nvs_store
begin

lemma save_wifi_ok:
  assumes "op_ok (Save_wifi s p)" and "well_typed strs ints w"
  shows "\<exists>w'. save_wifi nvs s p w = Return 0 w' \<and> strs w' = (strs w)(WIFI_SETTINGS_STORAGE_NAMESPACE := (strs w WIFI_SETTINGS_STORAGE_NAMESPACE)(s \<mapsto> p)) \<and>
     ints w' = ints w"
proof -
  let ?n = WIFI_SETTINGS_STORAGE_NAMESPACE
  obtain h w1 where 1: "nvs_open nvs ?n w = (0, h, w1)" "opened w1 h = Some ?n" "strs w1 = strs w" "ints w1 = ints w"
    using open_ok [of ?n w] by blast
  obtain w2 where 2: "write_str nvs h s p w1 (commit_close nvs h) = commit_close nvs h w2" "strs w2 = (strs w1)(?n := (strs w1 ?n)(s \<mapsto> p))" "ints w2 = ints w1" "opened w2 h = Some ?n"
    using write_str_ok [OF 1(2), of s p "commit_close nvs h"] assms 1 by (auto simp: well_typed_def storable_def)
  show ?thesis using commit_close_ok [OF 2(4)] 1 2 by (auto simp: save_wifi_def)
qed

lemma save_last_connected_wifi_ok:
  assumes "storable s" and "storable p" and "well_typed strs ints w"
  shows "\<exists>w'. save_last_connected_wifi nvs s p w = Return 0 w' \<and> ints w' = ints w \<and>
     strs w' = (strs w)(WIFI_SETTINGS_STORAGE_NAMESPACE := (strs w WIFI_SETTINGS_STORAGE_NAMESPACE)(cs ''last_ssid'' \<mapsto> s, cs ''last_password'' \<mapsto> p))"
proof -
  let ?n = WIFI_SETTINGS_STORAGE_NAMESPACE
  obtain h w1 where 1: "nvs_open nvs ?n w = (0, h, w1)" "opened w1 h = Some ?n" "strs w1 = strs w" "ints w1 = ints w"
    using open_ok [of ?n w] by blast
  let ?k2 = "\<lambda>w. write_str nvs h (cs ''last_password'') p w (commit_close nvs h)"
  obtain w2 where 2: "write_str nvs h (cs ''last_ssid'') s w1 ?k2 = ?k2 w2" "strs w2 = (strs w1)(?n := (strs w1 ?n)(cs ''last_ssid'' \<mapsto> s))"
      "ints w2 = ints w1" "opened w2 h = Some ?n"
    using write_str_ok [OF 1(2), of "cs ''last_ssid''" s ?k2] assms 1 by (auto simp: well_typed_def storable_def)
  obtain w3 where 3: "?k2 w2 = commit_close nvs h w3" "strs w3 = (strs w2)(?n := (strs w2 ?n)(cs ''last_password'' \<mapsto> p))" "ints w3 = ints w2" "opened w3 h = Some ?n"
    using write_str_ok [OF 2(4), of "cs ''last_password''" p "commit_close nvs h"] assms 1 2 by (auto simp: well_typed_def storable_def)
  show ?thesis using commit_close_ok [OF 3(4)] 1 2 3 by (auto simp: save_last_connected_wifi_def)
qed

lemma save_last_connected_mqtt_ok:
  assumes "storable u" and "storable p" and "storable c" and "well_typed strs ints w"
  shows "\<exists>w'. save_last_connected_mqtt nvs u p c w = Return 0 w' \<and> ints w' = ints w \<and>
     strs w' = (strs w)(WIFI_SETTINGS_STORAGE_NAMESPACE := (strs w WIFI_SETTINGS_STORAGE_NAMESPACE)
       (cs ''mqtt_user'' \<mapsto> u, cs ''mqtt_pass'' \<mapsto> p, cs ''mqtt_id'' \<mapsto> c))"
proof -
  let ?n = WIFI_SETTINGS_STORAGE_NAMESPACE
  obtain h w1 where 1: "nvs_open nvs ?n w = (0, h, w1)" "opened w1 h = Some ?n" "strs w1 = strs w" "ints w1 = ints w"
    using open_ok [of ?n w] by blast
  let ?k3 = "\<lambda>w. write_str nvs h (cs ''mqtt_id'') c w (commit_close nvs h)"
  let ?k2 = "\<lambda>w. write_str nvs h (cs ''mqtt_pass'') p w ?k3"
  obtain w2 where 2: "write_str nvs h (cs ''mqtt_user'') u w1 ?k2 = ?k2 w2" "strs w2 = (strs w1)(?n := (strs w1 ?n)(cs ''mqtt_user'' \<mapsto> u))"
      "ints w2 = ints w1" "opened w2 h = Some ?n"
    using write_str_ok [OF 1(2), of "cs ''mqtt_user''" u ?k2] assms 1 by (auto simp: well_typed_def storable_def)
  obtain w3 where 3: "?k2 w2 = ?k3 w3" "strs w3 = (strs w2)(?n := (strs w2 ?n)(cs ''mqtt_pass'' \<mapsto> p))" "ints w3 = ints w2" "opened w3 h = Some ?n"
    using write_str_ok [OF 2(4), of "cs ''mqtt_pass''" p ?k3] assms 1 2 by (auto simp: well_typed_def storable_def)
  obtain w4 where 4: "?k3 w3 = commit_close nvs h w4" "strs w4 = (strs w3)(?n := (strs w3 ?n)(cs ''mqtt_id'' \<mapsto> c))" "ints w4 = ints w3" "opened w4 h = Some ?n"
    using write_str_ok [OF 3(4), of "cs ''mqtt_id''" c "commit_close nvs h"] assms 1 2 3 by (auto simp: well_typed_def storable_def)
  show ?thesis using commit_close_ok [OF 4(4)] 1 2 3 4 by (auto simp: save_last_connected_mqtt_def)
qed

lemma set_counter_ok:
  assumes "opened w h = Some GENERAL_STORAGE_NAMESPACE" and "well_typed strs ints w"
  shows "\<exists>w'. (let (err, w) = nvs_set_i32 nvs h restart_key i w in unless_error err w (commit_close nvs h w)) = Return 0 w' \<and>
     strs w' = strs w \<and> ints w' = (ints w)(GENERAL_STORAGE_NAMESPACE := (ints w GENERAL_STORAGE_NAMESPACE)(restart_key \<mapsto> i))"
proof -
  obtain w1 where 1: "nvs_set_i32 nvs h restart_key i w = (0, w1)" "ints w1 = (ints w)(GENERAL_STORAGE_NAMESPACE := (ints w GENERAL_STORAGE_NAMESPACE)(restart_key \<mapsto> i))"
      "strs w1 = strs w" "opened w1 h = Some GENERAL_STORAGE_NAMESPACE"
    using set_i32_ok [OF assms(1), of restart_key i] assms(1,2) by (auto simp: well_typed_def)
  show ?thesis using commit_close_ok [OF 1(4)] 1 by auto
qed

lemma save_restart_counter_ok:
  assumes "well_typed strs ints w" and "counter_of (settings_of strs ints w) \<noteq> 2147483647"
  shows "\<exists>w'. save_restart_counter nvs w = Return 0 w' \<and> strs w' = strs w \<and>
     ints w' = (ints w)(GENERAL_STORAGE_NAMESPACE := (ints w GENERAL_STORAGE_NAMESPACE)(restart_key \<mapsto> counter_of (settings_of strs ints w) + 1))"
proof -
  let ?n = GENERAL_STORAGE_NAMESPACE and ?c = "counter_of (settings_of strs ints w)"
  obtain h w1 where 1: "nvs_open nvs ?n w = (0, h, w1)" "opened w1 h = Some ?n" "strs w1 = strs w" "ints w1 = ints w"
    using open_ok [of ?n w] by blast
  obtain e w2 where 2: "nvs_get_i32 nvs h restart_key 0 w1 = (e, ?c, w2)" "read_error nvs e = 0" "strs w2 = strs w" "ints w2 = ints w" "opened w2 h = Some ?n"
    using i32_none [OF 1(2), of restart_key 0] i32_some [OF 1(2), of restart_key _ 0] 1 read_error_simps
    by (cases "ints w ?n restart_key") (auto simp: counter_of_def settings_of_def)
  have "well_typed strs ints w2" using assms(1) 2 by (simp add: well_typed_def)
  from set_counter_ok [OF 2(5) this, of "?c + 1"] show ?thesis using 1 2 assms(2) by (auto simp: save_restart_counter_def)
qed

lemma reset_restart_counter_ok:
  assumes "well_typed strs ints w"
  shows "\<exists>w'. reset_restart_counter nvs w = Return 0 w' \<and> strs w' = strs w \<and>
     ints w' = (ints w)(GENERAL_STORAGE_NAMESPACE := (ints w GENERAL_STORAGE_NAMESPACE)(restart_key \<mapsto> 0))"
proof -
  let ?n = GENERAL_STORAGE_NAMESPACE
  obtain h w1 where 1: "nvs_open nvs ?n w = (0, h, w1)" "opened w1 h = Some ?n" "strs w1 = strs w" "ints w1 = ints w"
    using open_ok [of ?n w] by blast
  have "well_typed strs ints w1" using assms(1) 1 by (simp add: well_typed_def)
  from set_counter_ok [OF 1(2) this, of 0] show ?thesis using 1 by (auto simp: reset_restart_counter_def)
qed

lemma erase_storage_ok:
  "\<exists>w'. erase_storage nvs w = Return 0 w' \<and> strs w' = (strs w)(WIFI_SETTINGS_STORAGE_NAMESPACE := \<lambda>_. None) \<and>
     ints w' = (ints w)(WIFI_SETTINGS_STORAGE_NAMESPACE := \<lambda>_. None)"
proof -
  let ?n = WIFI_SETTINGS_STORAGE_NAMESPACE
  obtain h w1 where 1: "nvs_open nvs ?n w = (0, h, w1)" "opened w1 h = Some ?n" "strs w1 = strs w" "ints w1 = ints w"
    using open_ok [of ?n w] by blast
  show ?thesis using erase_ok [OF 1(2)] 1 close_ok by (auto simp: erase_storage_def)
qed

lemma run_op_ok:
  assumes "op_ok op" and "well_typed strs ints w" and "counter_of (settings_of strs ints w) < 2147483647"
  shows "\<exists>w'. run_op nvs op w = Return 0 w' \<and> settings_of strs ints w' = apply_op op (settings_of strs ints w) \<and> well_typed strs ints w'"
proof (cases op)
  case (Save_wifi s p)
  then show ?thesis using save_wifi_ok [of s p w] assms by (auto simp: settings_of_def well_typed_def)
next
  case (Save_last_wifi s p)
  then show ?thesis using save_last_connected_wifi_ok [of s p w] assms by (auto simp: settings_of_def well_typed_def)
next
  case (Save_mqtt u p c)
  then show ?thesis using save_last_connected_mqtt_ok [of u p c w] assms by (auto simp: settings_of_def well_typed_def)
next
  case Count_restart
  then show ?thesis using save_restart_counter_ok [of w] assms by (auto simp: settings_of_def well_typed_def)
next
  case Reset_counter
  then show ?thesis using reset_restart_counter_ok [of w] assms by (auto simp: settings_of_def well_typed_def)
next
  case Erase_storage
  then show ?thesis using erase_storage_ok [of w] assms by (auto simp: settings_of_def well_typed_def)
qed

lemma apply_op_counter: "0 \<le> counter_of \<sigma> \<Longrightarrow> 0 \<le> counter_of (apply_op op \<sigma>) \<and> counter_of (apply_op op \<sigma>) \<le> counter_of \<sigma> + 1"
  by (cases op) (auto simp: counter_of_def split: option.splits)

lemma run_ops_refine:
  assumes "list_all op_ok ops" and "well_typed strs ints w"
    and "0 \<le> counter_of (settings_of strs ints w)" and "counter_of (settings_of strs ints w) + int (length ops) < 2147483648"
  shows "\<exists>w'. run_ops nvs ops w = Return 0 w' \<and> settings_of strs ints w' = fold apply_op ops (settings_of strs ints w) \<and> well_typed strs ints w'"
  using assms
proof (induction ops arbitrary: w)
  case (Cons op ops)
  let ?\<sigma> = "settings_of strs ints w"
  obtain w1 where 1: "run_op nvs op w = Return 0 w1" "settings_of strs ints w1 = apply_op op ?\<sigma>" "well_typed strs ints w1"
    using run_op_ok [of op w] Cons.prems by auto
  show ?case using Cons.IH [of w1] Cons.prems 1 apply_op_counter [of ?\<sigma> op] by auto
qed simp

lemma get_last_connected_wifi_ok:
  assumes "strs w WIFI_SETTINGS_STORAGE_NAMESPACE (cs ''last_ssid'') = Some s" and "strs w WIFI_SETTINGS_STORAGE_NAMESPACE (cs ''last_password'') = Some p"
    and "0 \<notin> set s" and "0 \<notin> set p" and "length s \<le> 32" and "length p \<le> 63" and "length ssid = 33" and "length password = 64"
  shows "\<exists>w'. get_last_connected_wifi nvs ssid password w =
     Return (0, s @ 0 # drop (Suc (length s)) ssid, p @ 0 # drop (Suc (length p)) password) w' \<and> strs w' = strs w \<and> ints w' = ints w"
proof -
  let ?n = WIFI_SETTINGS_STORAGE_NAMESPACE
  obtain h w1 where 1: "nvs_open nvs ?n w = (0, h, w1)" "opened w1 h = Some ?n" "strs w1 = strs w" "ints w1 = ints w"
    using open_ok [of ?n w] by blast
  obtain w2 where 2: "read_str nvs h (cs ''last_ssid'') 33 ssid w1 = Return (0, s @ 0 # drop (Suc (length s)) ssid) w2" "strs w2 = strs w" "ints w2 = ints w" "opened w2 h = Some ?n"
    using read_str_ok [OF 1(2), of "cs ''last_ssid''" ssid 33] assms 1 by auto
  obtain w3 where 3: "read_str nvs h (cs ''last_password'') 64 password w2 = Return (0, p @ 0 # drop (Suc (length p)) password) w3" "strs w3 = strs w" "ints w3 = ints w"
    using read_str_ok [OF 2(4), of "cs ''last_password''" password 64] assms 2 by auto
  show ?thesis using 1 2 3 close_ok [of h w3] by (simp add: get_last_connected_wifi_def)
qed

lemma get_last_connected_wifi_overflow:
  assumes "strs w WIFI_SETTINGS_STORAGE_NAMESPACE (cs ''last_ssid'') = Some s" and "33 \<le> length s"
  shows "get_last_connected_wifi nvs ssid password w = Undefined"
proof -
  let ?n = WIFI_SETTINGS_STORAGE_NAMESPACE
  obtain h w1 where 1: "nvs_open nvs ?n w = (0, h, w1)" "opened w1 h = Some ?n" "strs w1 = strs w"
    using open_ok [of ?n w] by blast
  show ?thesis using read_str_overflow [OF 1(2), of "cs ''last_ssid''" s 33] assms 1 by (simp add: get_last_connected_wifi_def)
qed

lemma save_wifi_long:
  assumes "15 < length s"
  shows "\<exists>w'. save_wifi nvs s p w = Abort (nvs_code nvs ESP_ERR_NVS_KEY_TOO_LONG) w'"
proof -
  let ?n = WIFI_SETTINGS_STORAGE_NAMESPACE and ?E = "nvs_code nvs ESP_ERR_NVS_KEY_TOO_LONG"
  obtain h w1 where 1: "nvs_open nvs ?n w = (0, h, w1)" "opened w1 h = Some ?n" using open_ok [of ?n w] by blast
  obtain e z w2 where 2: "nvs_get_str_len nvs h s 0 w1 = (e, z, w2)" "e = ?E \<or> e = nvs_code nvs ESP_ERR_NVS_NOT_FOUND" "opened w2 h = Some ?n"
    using long_key_get [OF 1(2) assms, of 0] 1 by auto
  obtain w3 where 3: "nvs_set_str nvs h s p w2 = (?E, w3)" using long_key_set [OF 2(3) assms, of p] by blast
  show ?thesis using 1 2 3 codes(2) by (auto simp: save_wifi_def write_str_def)
qed

end

context nvs_store
begin

lemma get_last_connected_mqtt_ok:
  assumes "strs w WIFI_SETTINGS_STORAGE_NAMESPACE (cs ''mqtt_user'') = Some u" and "strs w WIFI_SETTINGS_STORAGE_NAMESPACE (cs ''mqtt_pass'') = Some p"
    and "strs w WIFI_SETTINGS_STORAGE_NAMESPACE (cs ''mqtt_id'') = Some c" and "0 \<notin> set u" and "0 \<notin> set p" and "0 \<notin> set c"
    and "length u < length username" and "length p < length password" and "length c < length clientID"
  shows "\<exists>w'. get_last_connected_mqtt nvs username password clientID w =
     Return (0, u @ 0 # drop (Suc (length u)) username, p @ 0 # drop (Suc (length p)) password, c @ 0 # drop (Suc (length c)) clientID) w' \<and>
     strs w' = strs w \<and> ints w' = ints w"
proof -
  let ?n = WIFI_SETTINGS_STORAGE_NAMESPACE
  obtain h w1 where 1: "nvs_open nvs ?n w = (0, h, w1)" "opened w1 h = Some ?n" "strs w1 = strs w" "ints w1 = ints w"
    using open_ok [of ?n w] by blast
  obtain w2 where 2: "read_str_malloc nvs h (cs ''mqtt_user'') username w1 = Return (0, u @ 0 # drop (Suc (length u)) username) w2" "strs w2 = strs w" "ints w2 = ints w" "opened w2 h = Some ?n"
    using read_str_malloc_ok [OF 1(2), of "cs ''mqtt_user''" username] assms 1 by auto
  obtain w3 where 3: "read_str_malloc nvs h (cs ''mqtt_pass'') password w2 = Return (0, p @ 0 # drop (Suc (length p)) password) w3" "strs w3 = strs w" "ints w3 = ints w" "opened w3 h = Some ?n"
    using read_str_malloc_ok [OF 2(4), of "cs ''mqtt_pass''" password] assms 2 by auto
  obtain w4 where 4: "read_str_malloc nvs h (cs ''mqtt_id'') clientID w3 = Return (0, c @ 0 # drop (Suc (length c)) clientID) w4" "strs w4 = strs w" "ints w4 = ints w"
    using read_str_malloc_ok [OF 3(4), of "cs ''mqtt_id''" clientID] assms 3 by auto
  show ?thesis using 1 2 3 4 close_ok [of h w4] by (simp add: get_last_connected_mqtt_def)
qed

end

section \<open>A store in memory\<close>

text \<open>An NVS library that meets the contract, with the error numbers of \<^verbatim>\<open>nvs.h\<close>.\<close>

record 'l flash =
  fl_strs :: "byte list \<Rightarrow> byte list \<Rightarrow> byte list option"
  fl_ints :: "byte list \<Rightarrow> byte list \<Rightarrow> int option"
  fl_open :: "int \<Rightarrow> byte list option"
  fl_rest :: 'l \<comment> \<open>the rest of the world\<close>

primrec nvs_number :: "nvs_err \<Rightarrow> int" where
  "nvs_number ESP_ERR_NVS_BASE = 4352"
| "nvs_number ESP_ERR_NVS_NOT_INITIALIZED = 4353"
| "nvs_number ESP_ERR_NVS_NOT_FOUND = 4354"
| "nvs_number ESP_ERR_NVS_TYPE_MISMATCH = 4355"
| "nvs_number ESP_ERR_NVS_READ_ONLY = 4356"
| "nvs_number ESP_ERR_NVS_NOT_ENOUGH_SPACE = 4357"
| "nvs_number ESP_ERR_NVS_INVALID_NAME = 4358"
| "nvs_number ESP_ERR_NVS_INVALID_HANDLE = 4359"
| "nvs_number ESP_ERR_NVS_REMOVE_FAILED = 4360"
| "nvs_number ESP_ERR_NVS_KEY_TOO_LONG = 4361"
| "nvs_number ESP_ERR_NVS_PAGE_FULL = 4362"
| "nvs_number ESP_ERR_NVS_INVALID_STATE = 4363"
| "nvs_number ESP_ERR_NVS_NO_FREE_PAGES = 4365"
| "nvs_number ESP_ERR_NVS_VALUE_TOO_LONG = 4366"
| "nvs_number ESP_ERR_NVS_PART_NOT_FOUND = 4367"

definition flash_nvs :: "('l, 'x) flash_scheme nvs" where
  "flash_nvs = \<lparr>nvs_code = nvs_number, nvs_flash_init = (\<lambda>w. (0, w)),
     nvs_flash_erase = (\<lambda>w. (0, w\<lparr>fl_strs := \<lambda>_ _. None, fl_ints := \<lambda>_ _. None\<rparr>)),
     nvs_open = (\<lambda>n w. (0, 1, w\<lparr>fl_open := (fl_open w)(1 \<mapsto> n)\<rparr>)),
     nvs_erase_all = (\<lambda>h w. case fl_open w h of None \<Rightarrow> (4359, w)
        | Some n \<Rightarrow> (0, w\<lparr>fl_strs := (fl_strs w)(n := \<lambda>_. None), fl_ints := (fl_ints w)(n := \<lambda>_. None)\<rparr>)),
     nvs_get_str_len = (\<lambda>h k z w. case fl_open w h of None \<Rightarrow> (4359, z, w)
        | Some n \<Rightarrow> if 15 < length k then (4361, z, w)
            else (case fl_strs w n k of None \<Rightarrow> (4354, z, w) | Some v \<Rightarrow> (0, length v + 1, w))),
     nvs_get_str = (\<lambda>h k z w. case fl_open w h of None \<Rightarrow> (4359, [], w)
        | Some n \<Rightarrow> (case fl_strs w n k of None \<Rightarrow> (4354, [], w) | Some v \<Rightarrow> if z < length v + 1 then (4364, [], w) else (0, v @ [0], w))),
     nvs_set_str = (\<lambda>h k v w. case fl_open w h of None \<Rightarrow> (4359, w)
        | Some n \<Rightarrow> if 15 < length k then (4361, w) else (0, w\<lparr>fl_strs := (fl_strs w)(n := (fl_strs w n)(k \<mapsto> v))\<rparr>)),
     nvs_get_i32 = (\<lambda>h k d w. case fl_open w h of None \<Rightarrow> (4359, d, w)
        | Some n \<Rightarrow> (case fl_ints w n k of None \<Rightarrow> (4354, d, w) | Some i \<Rightarrow> (0, i, w))),
     nvs_set_i32 = (\<lambda>h k i w. case fl_open w h of None \<Rightarrow> (4359, w)
        | Some n \<Rightarrow> (0, w\<lparr>fl_ints := (fl_ints w)(n := (fl_ints w n)(k \<mapsto> i))\<rparr>)),
     nvs_commit = (\<lambda>h w. (0, w)), nvs_close = (\<lambda>h w. w\<lparr>fl_open := (fl_open w)(h := None)\<rparr>),
     heap_alloc = (\<lambda>z w. (True, w))\<rparr>"

interpretation flash: nvs_store flash_nvs fl_strs fl_ints fl_open
proof (unfold_locales, goal_cases)
  case 1
  then show ?case by (auto simp: flash_nvs_def inj_def split: nvs_err.splits) (case_tac x; case_tac y; simp)+
next
  case (2 c)
  then show ?case by (cases c) (simp_all add: flash_nvs_def)
qed (auto simp: flash_nvs_def)

definition flash0 :: "'l \<Rightarrow> 'l flash" where
  "flash0 x = \<lparr>fl_strs = \<lambda>_ _. None, fl_ints = \<lambda>_ _. None, fl_open = \<lambda>_. None, fl_rest = x\<rparr>"

lemma flash0_settings [simp]: "well_typed fl_strs fl_ints (flash0 x)" "settings_of fl_strs fl_ints (flash0 x) = \<lparr>set_strs = \<lambda>_. None, set_counter = None\<rparr>"
  by (simp_all add: flash0_def well_typed_def settings_of_def)

section \<open>Properties\<close>

text \<open>Operations that leave the last network as it is; storing the password of a network is one unless the network has the
  name of one of the two keys.\<close>

primrec keeps_wifi :: "setting_op \<Rightarrow> bool" where
  "keeps_wifi (Save_wifi s p) \<longleftrightarrow> s \<noteq> cs ''last_ssid'' \<and> s \<noteq> cs ''last_password''"
| "keeps_wifi (Save_last_wifi s p) \<longleftrightarrow> False"
| "keeps_wifi (Save_mqtt u p c) \<longleftrightarrow> True"
| "keeps_wifi Count_restart \<longleftrightarrow> True"
| "keeps_wifi Reset_counter \<longleftrightarrow> True"
| "keeps_wifi Erase_storage \<longleftrightarrow> False"

lemma keeps_wifi_fold:
  assumes "list_all keeps_wifi ops"
  shows "set_strs (fold apply_op ops \<sigma>) (cs ''last_ssid'') = set_strs \<sigma> (cs ''last_ssid'') \<and>
     set_strs (fold apply_op ops \<sigma>) (cs ''last_password'') = set_strs \<sigma> (cs ''last_password'')"
  using assms
proof (induction ops arbitrary: \<sigma>)
  case (Cons op ops)
  then have "set_strs (apply_op op \<sigma>) (cs ''last_ssid'') = set_strs \<sigma> (cs ''last_ssid'') \<and>
      set_strs (apply_op op \<sigma>) (cs ''last_password'') = set_strs \<sigma> (cs ''last_password'')"
    by (cases op) auto
  with Cons show ?case by simp
qed simp

text \<open>C3: refinement.  On a working store every sequence of saves, restart counts, resets and erasures runs to its end
  without an abort or undefined behaviour, and acts on the store as the abstract operations act on the table of settings
  and the counter, as long as the counter stays in its 32 bits.  The typing of the two namespaces is kept.\<close>

theorem storage_refines_settings:
  assumes "nvs_store nvs strs ints opened" and "list_all op_ok ops" and "well_typed strs ints w"
    and "0 \<le> counter_of (settings_of strs ints w)" and "counter_of (settings_of strs ints w) + int (length ops) < 2147483648"
  shows "\<exists>w'. run_ops nvs ops w = Return 0 w' \<and> settings_of strs ints w' = fold apply_op ops (settings_of strs ints w) \<and> well_typed strs ints w'"
  using nvs_store.run_ops_refine [OF assms] .

theorem storage_refines_settings_witness:
  "\<exists>w'. run_ops flash_nvs [Count_restart, Save_wifi [97] [98], Count_restart, Erase_storage, Save_mqtt [1] [2] [3]] (flash0 ()) = Return 0 w' \<and>
     counter_of (settings_of fl_strs fl_ints w') = 2 \<and> set_strs (settings_of fl_strs fl_ints w') [97] = None"
  using storage_refines_settings [OF flash.nvs_store_axioms, of "[Count_restart, Save_wifi [97] [98], Count_restart, Erase_storage, Save_mqtt [1] [2] [3]]" "flash0 ()"]
  by (auto simp: storable_def counter_of_def cs_def)

text \<open>C25: the credentials of the last network survive.  On a working store, after they were saved and any operations followed that do
  not save others, erase, or store a network under one of the two keys, \<open>get_last_connected_wifi\<close> puts them into the buffers of 33 and 64 bytes.  A saved
  name of more than 32 characters makes it write past its stack buffer instead.\<close>

theorem last_connected_wifi_roundtrip:
  assumes "nvs_store nvs strs ints opened" and "well_typed strs ints w" and "storable s" and "storable p" and "list_all op_ok ops" and "list_all keeps_wifi ops"
    and "0 \<le> counter_of (settings_of strs ints w)" and "counter_of (settings_of strs ints w) + int (length ops) < 2147483647"
    and "length p \<le> 63" and "length ssid = 33" and "length password = 64"
  shows "\<exists>w'. run_ops nvs (Save_last_wifi s p # ops) w = Return 0 w' \<and>
     (if length s \<le> 32
      then \<exists>w''. get_last_connected_wifi nvs ssid password w' =
        Return (0, s @ 0 # drop (Suc (length s)) ssid, p @ 0 # drop (Suc (length p)) password) w''
      else get_last_connected_wifi nvs ssid password w' = Undefined)"
proof -
  let ?\<sigma> = "settings_of strs ints w"
  obtain w' where w': "run_ops nvs (Save_last_wifi s p # ops) w = Return 0 w'"
      "settings_of strs ints w' = fold apply_op (Save_last_wifi s p # ops) ?\<sigma>"
    using nvs_store.run_ops_refine [OF assms(1), of "Save_last_wifi s p # ops" w] assms(2-8) by auto
  have "set_strs (settings_of strs ints w') (cs ''last_ssid'') = Some s \<and> set_strs (settings_of strs ints w') (cs ''last_password'') = Some p"
    using keeps_wifi_fold [OF assms(6), of "apply_op (Save_last_wifi s p) ?\<sigma>"] by (simp add: w'(2))
  then have "strs w' WIFI_SETTINGS_STORAGE_NAMESPACE (cs ''last_ssid'') = Some s" "strs w' WIFI_SETTINGS_STORAGE_NAMESPACE (cs ''last_password'') = Some p"
    by (simp_all add: settings_of_def)
  then show ?thesis
    using w'(1) assms nvs_store.get_last_connected_wifi_ok [OF assms(1), of w' s p ssid password]
      nvs_store.get_last_connected_wifi_overflow [OF assms(1), of w' s ssid password]
    by (auto simp: storable_def)
qed

theorem last_connected_wifi_roundtrip_witness:
  "(\<exists>w' w''. run_ops flash_nvs [Save_last_wifi [97] [98], Count_restart] (flash0 ()) = Return 0 w' \<and>
      get_last_connected_wifi flash_nvs (replicate 33 7) (replicate 64 7) w' = Return (0, 97 # 0 # replicate 31 7, 98 # 0 # replicate 62 7) w'') \<and>
   (\<exists>w'. run_ops flash_nvs [Save_last_wifi (replicate 33 97) [98]] (flash0 ()) = Return 0 w' \<and>
      get_last_connected_wifi flash_nvs (replicate 33 7) (replicate 64 7) w' = Undefined)"
  using last_connected_wifi_roundtrip [OF flash.nvs_store_axioms, of "flash0 ()" "[97]" "[98]" "[Count_restart]" "replicate 33 7" "replicate 64 7"]
    last_connected_wifi_roundtrip [OF flash.nvs_store_axioms, of "flash0 ()" "replicate 33 97" "[98]" "[]" "replicate 33 7" "replicate 64 7"]
  by (auto simp: storable_def counter_of_def)

text \<open>A network name longer than 15 characters is no key of the store, so \<open>save_wifi\<close> aborts the firmware with
  \<^verbatim>\<open>ESP_ERR_NVS_KEY_TOO_LONG\<close>, whatever the store holds; names of up to 32 characters are legal.\<close>

lemma save_wifi_long_ssid_aborts:
  assumes "nvs_store nvs strs ints opened" and "15 < length ssid"
  shows "\<exists>w'. save_wifi nvs ssid password w = Abort (nvs_code nvs ESP_ERR_NVS_KEY_TOO_LONG) w'"
  using nvs_store.save_wifi_long [OF assms] .

lemma save_wifi_long_ssid_witness:
  "\<exists>w'. save_wifi flash_nvs (replicate 20 97) [98] (flash0 ()) = Abort 4361 w'"
  using save_wifi_long_ssid_aborts [OF flash.nvs_store_axioms, of "replicate 20 97" "[98]" "flash0 ()"] by (simp add: flash_nvs_def)

end
