(* ===== verification/WiFi.thy ===== *)
theory WiFi
  imports CayenneClient Storage
begin

text \<open>
  \<^verbatim>\<open>main/src/WiFi/esp32iot_wifi.c\<close>: start-up as station or access point, and the WiFi event handler that connects the
  Cayenne client.

  The WiFi driver, the network adapter and the scheduler are the parameter \<open>wifi\<close>; with the store, the sockets, the Bluetooth start-up calls and the
  application's message handlers they make up the \<open>env\<close>.  The globals \<open>actual_wifi\<close> and \<open>mqttClient\<close> and the world are the
  record \<open>device\<close>.  Strings given to the Cayenne client are values: the lifetime of the arrays they live in is not modelled.  A call of the Cayenne client that is \<open>None\<close>
  (undefined, or no return) is \<open>Undefined\<close> here.
\<close>

section \<open>Data\<close>

datatype wifi_err = ESP_ERR_WIFI_OK | ESP_ERR_WIFI_FAIL | ESP_ERR_WIFI_NO_MEM | ESP_ERR_WIFI_ARG | ESP_ERR_WIFI_NOT_SUPPORT
  | ESP_ERR_WIFI_NOT_INIT | ESP_ERR_WIFI_NOT_STARTED | ESP_ERR_WIFI_NOT_STOPPED | ESP_ERR_WIFI_IF | ESP_ERR_WIFI_MODE
  | ESP_ERR_WIFI_STATE | ESP_ERR_WIFI_CONN | ESP_ERR_WIFI_NVS | ESP_ERR_WIFI_MAC | ESP_ERR_WIFI_SSID | ESP_ERR_WIFI_PASSWORD
  | ESP_ERR_WIFI_TIMEOUT | ESP_ERR_WIFI_WAKE_FAIL | ESP_ERR_WIFI_WOULD_BLOCK | ESP_ERR_WIFI_NOT_CONNECT

datatype wifi_mode = WIFI_MODE_STA | WIFI_MODE_AP | WIFI_MODE_APSTA

record ap_config =
  ap_ssid :: "byte list"
  ap_password :: "byte list"
  ap_channel :: int
  ap_wpa2 :: bool
  ap_hidden :: bool
  ap_max_connection :: int
  ap_beacon_interval :: int

record sta_config =
  sta_ssid :: mem
  sta_password :: mem
  sta_bssid_set :: bool
  sta_channel :: int

datatype wifi_config = AP_config ap_config | STA_config sta_config

record 'w wifi =
  wf_scan_start :: "'w \<Rightarrow> int \<times> 'w"
  wf_scan_get_ap_num :: "'w \<Rightarrow> nat \<times> 'w"
  wf_malloc :: "nat \<Rightarrow> 'w \<Rightarrow> bool \<times> 'w"
  wf_scan_get_ap_records :: "nat \<Rightarrow> 'w \<Rightarrow> int \<times> 'w"
  wf_connect :: "'w \<Rightarrow> int \<times> 'w"
  wf_start :: "'w \<Rightarrow> int \<times> 'w"
  wf_set_mode :: "wifi_mode \<Rightarrow> 'w \<Rightarrow> int \<times> 'w"
  wf_set_config :: "wifi_config \<Rightarrow> 'w \<Rightarrow> int \<times> 'w"
  wf_adapter_init :: "'w \<Rightarrow> 'w"
  wf_dhcps_stop :: "'w \<Rightarrow> int \<times> 'w"
  wf_set_ip_info :: "nat list \<Rightarrow> nat list \<Rightarrow> nat list \<Rightarrow> 'w \<Rightarrow> int \<times> 'w" \<comment> \<open>address, gateway, netmask\<close>
  wf_dhcps_start :: "'w \<Rightarrow> int \<times> 'w"
  wf_event_loop_init :: "'w \<Rightarrow> int \<times> 'w"
  wf_init :: "'w \<Rightarrow> int \<times> 'w"
  wf_set_storage_ram :: "'w \<Rightarrow> int \<times> 'w"
  wf_delay :: "int \<Rightarrow> 'w \<Rightarrow> 'w"
  wf_task_create :: "'w \<Rightarrow> 'w"

record ('f, 'w) env =
  env_nvs :: "'w nvs"
  env_wifi :: "'w wifi"
  env_os :: "'w os"
  env_bt :: "'w bt_start"
  env_app :: "('f, 'w) app"

record ('f, 'w) device =
  actual_ssid :: mem
  actual_password :: mem
  mqttClient :: "'f CayenneMQTTClient"
  world :: 'w

datatype system_event = WIFI_READY | SCAN_DONE | STA_START | STA_STOP | STA_CONNECTED | STA_DISCONNECTED | STA_AUTHMODE_CHANGE | STA_GOT_IP
  | STA_LOST_IP | STA_WPS_ER_SUCCESS | STA_WPS_ER_FAILED | STA_WPS_ER_TIMEOUT | STA_WPS_ER_PIN | AP_START | AP_STOP | AP_STACONNECTED
  | AP_STADISCONNECTED | AP_PROBEREQRECVED | GOT_IP6 | ETH_START | ETH_STOP | ETH_CONNECTED | ETH_DISCONNECTED | ETH_GOT_IP | EVENT_MAX

section \<open>Operations\<close>

definition wifi_err_names :: "(wifi_err \<times> string) list" where
  "wifi_err_names =
    [(ESP_ERR_WIFI_OK, ''ESP_ERR_WIFI_OK''), (ESP_ERR_WIFI_FAIL, ''ESP_ERR_WIFI_FAIL''), (ESP_ERR_WIFI_NO_MEM, ''ESP_ERR_WIFI_NO_MEM''),
     (ESP_ERR_WIFI_ARG, ''ESP_ERR_WIFI_ARG''), (ESP_ERR_WIFI_NOT_SUPPORT, ''ESP_ERR_WIFI_NOT_SUPPORT''), (ESP_ERR_WIFI_NOT_INIT, ''ESP_ERR_WIFI_NOT_INIT''),
     (ESP_ERR_WIFI_NOT_STARTED, ''ESP_ERR_WIFI_NOT_STARTED''), (ESP_ERR_WIFI_NOT_STOPPED, ''ESP_ERR_WIFI_NOT_STOPPED''), (ESP_ERR_WIFI_IF, ''ESP_ERR_WIFI_IF''),
     (ESP_ERR_WIFI_MODE, ''ESP_ERR_WIFI_MODE''), (ESP_ERR_WIFI_STATE, ''ESP_ERR_WIFI_STATE''), (ESP_ERR_WIFI_CONN, ''ESP_ERR_WIFI_CONN''),
     (ESP_ERR_WIFI_NVS, ''ESP_ERR_WIFI_NVS''), (ESP_ERR_WIFI_MAC, ''ESP_ERR_WIFI_MAC''), (ESP_ERR_WIFI_SSID, ''ESP_ERR_WIFI_SSID''),
     (ESP_ERR_WIFI_PASSWORD, ''ESP_ERR_WIFI_PASSWORD''), (ESP_ERR_WIFI_TIMEOUT, ''ESP_ERR_WIFI_TIMEOUT''), (ESP_ERR_WIFI_WAKE_FAIL, ''ESP_ERR_WIFI_WAKE_FAIL''),
     (ESP_ERR_WIFI_WOULD_BLOCK, ''ESP_ERR_WIFI_WOULD_BLOCK''), (ESP_ERR_WIFI_NOT_CONNECT, ''ESP_ERR_WIFI_NOT_CONNECT'')]"

definition wifi_err_to_string :: "(wifi_err \<Rightarrow> int) \<Rightarrow> int \<Rightarrow> byte list" where
  "wifi_err_to_string code ev =
     (case find (\<lambda>(c, s). code c = ev) wifi_err_names of Some (c, s) \<Rightarrow> cs s | None \<Rightarrow> cs ''Unknown event: '' @ dec_int ev)"

text \<open>\<open>ESP_ERROR_CHECK(f())\<close>.\<close>

definition checked :: "('w \<Rightarrow> int \<times> 'w) \<Rightarrow> 'w \<Rightarrow> (unit, 'w) outcome" where
  "checked f w = (let (err, w) = f w in ESP_ERROR_CHECK err w)"

definition wifi_scan_start :: "'w wifi \<Rightarrow> 'w \<Rightarrow> (int, 'w) outcome" where
  "wifi_scan_start wd w = andThen (checked (wf_scan_start wd) w) (\<lambda>_ w. Return ESP_OK w)"

text \<open>6 and 7 are the function's own error numbers.\<close>

definition wifi_scan_get :: "'w wifi \<Rightarrow> 'w \<Rightarrow> (int, 'w) outcome" where
  "wifi_scan_get wd w =
     (let (apCount, w) = wf_scan_get_ap_num wd w in
      if apCount = 0 then Return 6 w
      else (let (ok, w) = wf_malloc wd apCount w in
        if \<not> ok then Return 7 w
        else andThen (checked (wf_scan_get_ap_records wd apCount) w) (\<lambda>_ w. Return ESP_OK w)))"

definition wifi_initialize :: "'w wifi \<Rightarrow> 'w \<Rightarrow> (int, 'w) outcome" where
  "wifi_initialize wd w =
     andThen (checked (wf_dhcps_stop wd) (wf_adapter_init wd w)) (\<lambda>_ w.
     andThen (checked (wf_set_ip_info wd [192, 168, 4, 1] [192, 168, 4, 1] [255, 255, 255, 0]) w) (\<lambda>_ w.
     andThen (checked (wf_dhcps_start wd) w) (\<lambda>_ w.
     andThen (checked (wf_event_loop_init wd) w) (\<lambda>_ w.
     andThen (checked (wf_init wd) w) (\<lambda>_ w.
     andThen (checked (wf_set_storage_ram wd) w) (\<lambda>_ w. Return ESP_OK w))))))"

definition default_ap :: ap_config where
  "default_ap = \<lparr>ap_ssid = cs ''S/M/H_Beacon'', ap_password = cs ''smh_322aq'', ap_channel = 0, ap_wpa2 = True, ap_hidden = False,
     ap_max_connection = 4, ap_beacon_interval = 100\<rparr>"

definition wifi_ap_configure :: "'w wifi \<Rightarrow> 'w \<Rightarrow> (int, 'w) outcome" where
  "wifi_ap_configure wd w =
     andThen (checked (wf_set_mode wd WIFI_MODE_AP) w) (\<lambda>_ w.
     andThen (checked (wf_set_config wd (AP_config default_ap)) w) (\<lambda>_ w. Return ESP_OK w))"

text \<open>
  The two loops that copy a string with its NUL into a member of the configuration; the name has 32 bytes there and the
  password 64.  \<open>wifi_config_t\<close> is a union, so that of the two initialisers of \<open>wifi_apsta_configure\<close> the last, the station's, holds.
\<close>

definition copy_string :: "mem \<Rightarrow> byte list \<Rightarrow> mem option" where
  "copy_string dst s = map_option fst (emit (s @ [0]) (dst, 0))"

definition station :: "byte list \<Rightarrow> byte list \<Rightarrow> sta_config option" where
  "station ssid password = do {
     s \<leftarrow> copy_string (replicate 32 0) ssid;
     p \<leftarrow> copy_string (replicate 64 0) password;
     Some \<lparr>sta_ssid = s, sta_password = p, sta_bssid_set = False, sta_channel = 1\<rparr> }"

definition configure_station :: "wifi_mode \<Rightarrow> 'w wifi \<Rightarrow> byte list \<Rightarrow> byte list \<Rightarrow> 'w \<Rightarrow> (int, 'w) outcome" where
  "configure_station mode wd ssid password w =
     andThen (checked (wf_set_mode wd mode) w) (\<lambda>_ w.
       case station ssid password of
         None \<Rightarrow> Undefined
       | Some c \<Rightarrow> andThen (checked (wf_set_config wd (STA_config c)) w) (\<lambda>_ w. Return ESP_OK w))"

definition wifi_sta_configure :: "'w wifi \<Rightarrow> byte list \<Rightarrow> byte list \<Rightarrow> 'w \<Rightarrow> (int, 'w) outcome" where
  "wifi_sta_configure = configure_station WIFI_MODE_STA"

definition wifi_apsta_configure :: "'w wifi \<Rightarrow> byte list \<Rightarrow> byte list \<Rightarrow> 'w \<Rightarrow> (int, 'w) outcome" where
  "wifi_apsta_configure = configure_station WIFI_MODE_APSTA"

definition on_device :: "('w \<Rightarrow> ('a, 'w) outcome) \<Rightarrow> ('f, 'w) device \<Rightarrow> ('a, ('f, 'w) device) outcome" where
  "on_device f d = lift_outcome (\<lambda>w. d\<lparr>world := w\<rparr>) (f (world d))"

text \<open>\<open>err = f(); if (err != ESP_OK) { log; ESP_ERROR_CHECK(err); } else { ESP_ERROR_CHECK(esp_wifi_start()); }\<close>\<close>

definition then_start :: "'w wifi \<Rightarrow> (int, 'w) outcome \<Rightarrow> (unit, 'w) outcome" where
  "then_start wd r = andThen r (\<lambda>err w. if err \<noteq> ESP_OK then ESP_ERROR_CHECK err w else checked (wf_start wd) w)"

text \<open>\<open>wifi_start\<close>: \<open>strcmp\<close> needs a string in each of the two globals.\<close>

definition wifi_start :: "('f, 'w) env \<Rightarrow> ('f, 'w) device \<Rightarrow> (int, ('f, 'w) device) outcome" where
  "wifi_start env d =
     andThen (on_device (wifi_initialize (env_wifi env)) d) (\<lambda>err d.
     andThen (lift_outcome (\<lambda>w. d\<lparr>world := w\<rparr>) (ESP_ERROR_CHECK err (world d))) (\<lambda>_ d.
     andThen (on_device (get_last_connected_wifi (env_nvs env) (actual_ssid d) (actual_password d)) d) (\<lambda>(err, ssid, password) d.
       let d = d\<lparr>actual_ssid := ssid, actual_password := password\<rparr> in
       if err \<noteq> ESP_OK then andThen (lift_outcome (\<lambda>w. d\<lparr>world := w\<rparr>) (ESP_ERROR_CHECK err (world d))) (\<lambda>_ d. Return ESP_OK d)
       else (case (cstr_at (actual_ssid d) 0, cstr_at (actual_password d) 0) of
           (Some s, Some p) \<Rightarrow>
             andThen (on_device (\<lambda>w. then_start (env_wifi env)
                 (if s \<noteq> [] \<and> p \<noteq> [] then wifi_sta_configure (env_wifi env) s p w else wifi_ap_configure (env_wifi env) w)) d)
               (\<lambda>_ d. Return ESP_OK d)
         | _ \<Rightarrow> Undefined))))"

section \<open>The event handler\<close>

text \<open>The loop \<open>while (connectClient() != CAYENNE_SUCCESS) delay(2000);\<close> ends when a connection succeeds.\<close>

partial_function (option) connect_retry ::
    "'w os \<Rightarrow> (int \<Rightarrow> 'w \<Rightarrow> 'w) \<Rightarrow> ('f, 'w) app \<Rightarrow> 'f CayenneMQTTClient \<Rightarrow> 'w \<Rightarrow> ('f CayenneMQTTClient \<times> 'w) option" where
  "connect_retry os delay app client w = do {
     (rc, client, w) \<leftarrow> connectClient os app client w;
     if rc \<noteq> CAYENNE_SUCCESS then connect_retry os delay app client (delay 2000 w) else Some (client, w) }"

text \<open>\<open>SYSTEM_EVENT_STA_CONNECTED\<close>: the results of the two calls are not looked at.\<close>

definition on_sta_connected :: "('f, 'w) env \<Rightarrow> ('f, 'w) device \<Rightarrow> (unit, ('f, 'w) device) outcome" where
  "on_sta_connected env d =
     (case (cstr_at (actual_ssid d) 0, cstr_at (actual_password d) 0) of
        (Some s, Some p) \<Rightarrow>
          andThen (on_device (save_last_connected_wifi (env_nvs env) s p) d) (\<lambda>_ d.
          andThen (on_device (save_wifi (env_nvs env) s p) d) (\<lambda>_ d. Return () d))
      | _ \<Rightarrow> Undefined)"

text \<open>
  The connection part of \<open>SYSTEM_EVENT_STA_GOT_IP\<close>, with the account found: \<open>wf_task_create\<close> starts the task that publishes
  for ever; after a connection at the first attempt Bluetooth is started and the handler itself publishes for ever.
\<close>

definition connect_account ::
    "('f, 'w) env \<Rightarrow> byte list \<Rightarrow> byte list \<Rightarrow> byte list \<Rightarrow> ('f, 'w) device \<Rightarrow> (unit, ('f, 'w) device) outcome" where
  "connect_account env u p c d =
     (let wd = env_wifi env;
          client = CayenneInit (mqttClient d) (Some u) (Some p) (Some c);
          w = wf_delay wd 1000 (world d) in
      if \<not> CayenneMQTTConnected client then
        (case connectClient (env_os env) (env_app env) client w of
           None \<Rightarrow> Undefined
         | Some (err, client, w) \<Rightarrow>
             if err \<noteq> CAYENNE_SUCCESS then
               (case connect_retry (env_os env) (wf_delay wd) (env_app env) client w of
                  None \<Rightarrow> Undefined
                | Some (client, w) \<Rightarrow> Return () (d\<lparr>mqttClient := client, world := wf_task_create wd w\<rparr>))
             else
               andThen (on_device (bluetooth_initialize (env_bt env)) (d\<lparr>mqttClient := client, world := w\<rparr>)) (\<lambda>err d.
               andThen (lift_outcome (\<lambda>w. d\<lparr>world := w\<rparr>) (ESP_ERROR_CHECK err (world d))) (\<lambda>_ d. Forever d)))
      else Return () (d\<lparr>mqttClient := client, world := wf_task_create wd w\<rparr>))"

text \<open>
  \<open>SYSTEM_EVENT_STA_GOT_IP\<close>.  The three arrays of 100 bytes are not initialised: \<open>junk\<close> is what they hold.
\<close>

definition on_got_ip :: "('f, 'w) env \<Rightarrow> mem \<times> mem \<times> mem \<Rightarrow> ('f, 'w) device \<Rightarrow> (unit, ('f, 'w) device) outcome" where
  "on_got_ip env junk d =
     (let (u0, p0, c0) = junk in
      andThen (on_device (get_last_connected_mqtt (env_nvs env) u0 p0 c0) d) (\<lambda>(err, username, password, clientID) d.
        if err \<noteq> ESP_OK then lift_outcome (\<lambda>w. d\<lparr>world := w\<rparr>) (ESP_ERROR_CHECK err (world d))
        else (case (cstr_at username 0, cstr_at password 0, cstr_at clientID 0) of
            (Some u, Some p, Some c) \<Rightarrow> if u \<noteq> [] \<and> p \<noteq> [] \<and> c \<noteq> [] then connect_account env u p c d else Return () d
          | _ \<Rightarrow> Undefined)))"

primrec wifi_event_handler ::
    "('f, 'w) env \<Rightarrow> mem \<times> mem \<times> mem \<Rightarrow> system_event \<Rightarrow> ('f, 'w) device \<Rightarrow> (unit, ('f, 'w) device) outcome" where
  "wifi_event_handler env junk WIFI_READY d = Return () d"
| "wifi_event_handler env junk SCAN_DONE d =
     andThen (on_device (wifi_scan_get (env_wifi env)) d) (\<lambda>err d. lift_outcome (\<lambda>w. d\<lparr>world := w\<rparr>) (ESP_ERROR_CHECK err (world d)))"
| "wifi_event_handler env junk STA_START d = on_device (checked (wf_connect (env_wifi env))) d"
| "wifi_event_handler env junk STA_STOP d = Return () d"
| "wifi_event_handler env junk STA_CONNECTED d = on_sta_connected env d"
| "wifi_event_handler env junk STA_DISCONNECTED d = on_device (\<lambda>w. then_start (env_wifi env) (wifi_ap_configure (env_wifi env) w)) d"
| "wifi_event_handler env junk STA_AUTHMODE_CHANGE d = Return () d"
| "wifi_event_handler env junk STA_GOT_IP d = on_got_ip env junk d"
| "wifi_event_handler env junk STA_LOST_IP d = Return () d"
| "wifi_event_handler env junk STA_WPS_ER_SUCCESS d = Return () d"
| "wifi_event_handler env junk STA_WPS_ER_FAILED d = Return () d"
| "wifi_event_handler env junk STA_WPS_ER_TIMEOUT d = Return () d"
| "wifi_event_handler env junk STA_WPS_ER_PIN d = Return () d"
| "wifi_event_handler env junk AP_START d = Return () d"
| "wifi_event_handler env junk AP_STOP d = Return () d"
| "wifi_event_handler env junk AP_STACONNECTED d = Return () d"
| "wifi_event_handler env junk AP_STADISCONNECTED d = Return () d"
| "wifi_event_handler env junk AP_PROBEREQRECVED d = Return () d"
| "wifi_event_handler env junk GOT_IP6 d = Return () d"
| "wifi_event_handler env junk ETH_START d = Return () d"
| "wifi_event_handler env junk ETH_STOP d = Return () d"
| "wifi_event_handler env junk ETH_CONNECTED d = Return () d"
| "wifi_event_handler env junk ETH_DISCONNECTED d = Return () d"
| "wifi_event_handler env junk ETH_GOT_IP d = Return () d"
| "wifi_event_handler env junk EVENT_MAX d = Return () d"

section \<open>The retry loop\<close>

text \<open>At most \<open>n + 1\<close> attempts.\<close>

primrec connect_tries ::
    "nat \<Rightarrow> 'w os \<Rightarrow> (int \<Rightarrow> 'w \<Rightarrow> 'w) \<Rightarrow> ('f, 'w) app \<Rightarrow> 'f CayenneMQTTClient \<Rightarrow> 'w \<Rightarrow> ('f CayenneMQTTClient \<times> 'w) option" where
  "connect_tries 0 os delay app client w = do {
     (rc, client, w) \<leftarrow> connectClient os app client w; if rc \<noteq> CAYENNE_SUCCESS then None else Some (client, w) }"
| "connect_tries (Suc n) os delay app client w = do {
     (rc, client, w) \<leftarrow> connectClient os app client w;
     if rc \<noteq> CAYENNE_SUCCESS then connect_tries n os delay app client (delay 2000 w) else Some (client, w) }"

lemma connect_tries_retry: "connect_tries n os delay app client w = Some r \<Longrightarrow> connect_retry os delay app client w = Some r"
  by (induction n arbitrary: client w) (subst connect_retry.simps, force split: bind_splits if_splits)+

lemma connect_retry_tries:
  assumes run: "connect_retry os delay app client w = Some r"
  shows "\<exists>n. connect_tries n os delay app client w = Some r"
proof (rule connect_retry.raw_induct [of "\<lambda>os delay app client w r. \<exists>n. connect_tries n os delay app client w = Some r", OF _ run], goal_cases)
  case (1 f os delay app client w r)
  note IH = 1(1)
  from 1(2) obtain rc c1 w1 where c: "connectClient os app client w = Some (rc, c1, w1)"
      and r: "(if rc \<noteq> CAYENNE_SUCCESS then f os delay app c1 (delay 2000 w1) else Some (c1, w1)) = Some r" by (auto split: bind_splits)
  show "\<exists>n. connect_tries n os delay app client w = Some r"
  proof (cases "rc = CAYENNE_SUCCESS")
    case True
    then show ?thesis using c r by (intro exI [of _ 0]) simp
  next
    case False
    then obtain n where "connect_tries n os delay app c1 (delay 2000 w1) = Some r" using IH [of os delay app c1 "delay 2000 w1" r] r by auto
    then show ?thesis using c False by (intro exI [of _ "Suc n"]) simp
  qed
qed

section \<open>A working driver\<close>

text \<open>
  The contract of the WiFi driver over a working store: every call succeeds, the driver does not touch the settings, and
  the calls that select the mode, set a configuration, start and connect are recorded in \<open>calls\<close>.
\<close>

datatype wifi_call = Set_mode wifi_mode | Set_config wifi_config | Start | Connect

locale wifi_device = nvs_store nvs strs ints opened for nvs :: "'w nvs" and strs ints opened +
  fixes wd :: "'w wifi" and calls :: "'w \<Rightarrow> wifi_call list"
  assumes mode_ok: "\<exists>w'. wf_set_mode wd m w = (0, w') \<and> calls w' = calls w @ [Set_mode m] \<and> strs w' = strs w \<and> ints w' = ints w"
    and config_ok: "\<exists>w'. wf_set_config wd c w = (0, w') \<and> calls w' = calls w @ [Set_config c] \<and> strs w' = strs w \<and> ints w' = ints w"
    and start_ok: "\<exists>w'. wf_start wd w = (0, w') \<and> calls w' = calls w @ [Start] \<and> strs w' = strs w \<and> ints w' = ints w"
    and connect_ok: "\<exists>w'. wf_connect wd w = (0, w') \<and> calls w' = calls w @ [Connect] \<and> strs w' = strs w \<and> ints w' = ints w"
    and adapter_ok: "strs (wf_adapter_init wd w) = strs w \<and> ints (wf_adapter_init wd w) = ints w"
    and init_ok: "f \<in> {wf_dhcps_stop wd, wf_set_ip_info wd a g mask4, wf_dhcps_start wd, wf_event_loop_init wd, wf_init wd, wf_set_storage_ram wd} \<Longrightarrow>
      \<exists>w'. f w = (0, w') \<and> strs w' = strs w \<and> ints w' = ints w"
begin

lemma checked_init:
  assumes "f \<in> {wf_dhcps_stop wd, wf_set_ip_info wd a g mask4, wf_dhcps_start wd, wf_event_loop_init wd, wf_init wd, wf_set_storage_ram wd}"
  shows "\<exists>w'. checked f w = Return () w' \<and> strs w' = strs w \<and> ints w' = ints w"
  using init_ok [OF assms, of w] by (auto simp: checked_def)

lemma wifi_initialize_ok: "\<exists>w'. wifi_initialize wd w = Return 0 w' \<and> strs w' = strs w \<and> ints w' = ints w"
proof -
  let ?ip = "wf_set_ip_info wd [192, 168, 4, 1] [192, 168, 4, 1] [255, 255, 255, 0]"
  obtain w1 where 1: "checked (wf_dhcps_stop wd) (wf_adapter_init wd w) = Return () w1" "strs w1 = strs w" "ints w1 = ints w"
    using checked_init [of "wf_dhcps_stop wd"] adapter_ok by fastforce
  obtain w2 where 2: "checked ?ip w1 = Return () w2" "strs w2 = strs w" "ints w2 = ints w"
    using checked_init [of ?ip "[192, 168, 4, 1]" "[192, 168, 4, 1]" "[255, 255, 255, 0]" w1] 1 by auto
  obtain w3 where 3: "checked (wf_dhcps_start wd) w2 = Return () w3" "strs w3 = strs w" "ints w3 = ints w"
    using checked_init [of "wf_dhcps_start wd" _ _ _ w2] 2 by auto
  obtain w4 where 4: "checked (wf_event_loop_init wd) w3 = Return () w4" "strs w4 = strs w" "ints w4 = ints w"
    using checked_init [of "wf_event_loop_init wd" _ _ _ w3] 3 by auto
  obtain w5 where 5: "checked (wf_init wd) w4 = Return () w5" "strs w5 = strs w" "ints w5 = ints w"
    using checked_init [of "wf_init wd" _ _ _ w4] 4 by auto
  obtain w6 where 6: "checked (wf_set_storage_ram wd) w5 = Return () w6" "strs w6 = strs w" "ints w6 = ints w"
    using checked_init [of "wf_set_storage_ram wd" _ _ _ w5] 5 by auto
  show ?thesis using 1 2 3 4 5 6 by (simp add: wifi_initialize_def)
qed

lemma configured:
  "\<exists>w'. andThen (checked (wf_set_mode wd m) w) (\<lambda>_ w. andThen (checked (wf_set_config wd c) w) (\<lambda>_ w. Return ESP_OK w)) = Return 0 w' \<and>
     calls w' = calls w @ [Set_mode m, Set_config c] \<and> strs w' = strs w \<and> ints w' = ints w"
proof -
  obtain w1 where 1: "wf_set_mode wd m w = (0, w1)" "calls w1 = calls w @ [Set_mode m]" "strs w1 = strs w" "ints w1 = ints w" using mode_ok [of m w] by blast
  obtain w2 where 2: "wf_set_config wd c w1 = (0, w2)" "calls w2 = calls w1 @ [Set_config c]" "strs w2 = strs w1" "ints w2 = ints w1" using config_ok [of c w1] by blast
  show ?thesis using 1 2 by (simp add: checked_def)
qed

lemma then_start_ok:
  assumes "r = Return 0 w"
  shows "\<exists>w'. then_start wd r = Return () w' \<and> calls w' = calls w @ [Start] \<and> strs w' = strs w \<and> ints w' = ints w"
  using start_ok [of w] assms by (auto simp: then_start_def checked_def)

lemma start_access_point:
  "\<exists>w'. then_start wd (wifi_ap_configure wd w) = Return () w' \<and>
     calls w' = calls w @ [Set_mode WIFI_MODE_AP, Set_config (AP_config default_ap), Start] \<and> strs w' = strs w \<and> ints w' = ints w"
proof -
  obtain w1 where 1: "wifi_ap_configure wd w = Return 0 w1" "calls w1 = calls w @ [Set_mode WIFI_MODE_AP, Set_config (AP_config default_ap)]"
      "strs w1 = strs w" "ints w1 = ints w"
    using configured [of WIFI_MODE_AP w "AP_config default_ap"] unfolding wifi_ap_configure_def by blast
  show ?thesis using then_start_ok [OF 1(1)] 1 by auto
qed

lemma start_station:
  assumes "station s p = Some c"
  shows "\<exists>w'. then_start wd (wifi_sta_configure wd s p w) = Return () w' \<and>
     calls w' = calls w @ [Set_mode WIFI_MODE_STA, Set_config (STA_config c), Start] \<and> strs w' = strs w \<and> ints w' = ints w"
proof -
  obtain w1 where 1: "wifi_sta_configure wd s p w = Return 0 w1" "calls w1 = calls w @ [Set_mode WIFI_MODE_STA, Set_config (STA_config c)]"
      "strs w1 = strs w" "ints w1 = ints w"
    using configured [of WIFI_MODE_STA w "STA_config c"] assms unfolding wifi_sta_configure_def configure_station_def by auto
  show ?thesis using then_start_ok [OF 1(1)] 1 by auto
qed

text \<open>\<open>wifi_start\<close> is decided by the strings that \<open>get_last_connected_wifi\<close> leaves in the globals.\<close>

lemma wifi_start_eq:
  assumes "env_nvs env = nvs" and "env_wifi env = wd"
    and get: "\<And>w. strs w = strs (world d) \<Longrightarrow> \<exists>w'. get_last_connected_wifi nvs (actual_ssid d) (actual_password d) w = Return (0, S, P) w' \<and>
        strs w' = strs w \<and> ints w' = ints w"
    and "cstr_at S 0 = Some s" and "cstr_at P 0 = Some p"
  shows "\<exists>w. strs w = strs (world d) \<and> ints w = ints (world d) \<and> wifi_start env d =
     andThen (on_device (\<lambda>w. then_start wd (if s \<noteq> [] \<and> p \<noteq> [] then wifi_sta_configure wd s p w else wifi_ap_configure wd w))
       (d\<lparr>actual_ssid := S, actual_password := P, world := w\<rparr>)) (\<lambda>_ d. Return ESP_OK d)"
proof -
  obtain w1 where 1: "wifi_initialize wd (world d) = Return 0 w1" "strs w1 = strs (world d)" "ints w1 = ints (world d)"
    using wifi_initialize_ok by blast
  obtain w2 where 2: "get_last_connected_wifi nvs (actual_ssid d) (actual_password d) w1 = Return (0, S, P) w2" "strs w2 = strs w1" "ints w2 = ints w1"
    using get [OF 1(2)] by blast
  show ?thesis using 1 2 assms(1,2,4,5) by (intro exI [of _ w2]) (simp add: wifi_start_def on_device_def)
qed

end

text \<open>A driver that records its calls beside the store.\<close>

definition log_wifi :: "(wifi_call list, 'x) flash_scheme wifi" where
  "log_wifi = (let ok = \<lambda>w. (0, w); call = \<lambda>c w. (0, w\<lparr>fl_rest := fl_rest w @ [c]\<rparr>) in
     \<lparr>wf_scan_start = ok, wf_scan_get_ap_num = (\<lambda>w. (0, w)), wf_malloc = (\<lambda>n w. (True, w)), wf_scan_get_ap_records = (\<lambda>n. ok), wf_connect = call Connect,
      wf_start = call Start, wf_set_mode = (\<lambda>m. call (Set_mode m)), wf_set_config = (\<lambda>c. call (Set_config c)), wf_adapter_init = id,
      wf_dhcps_stop = ok, wf_set_ip_info = (\<lambda>a g m. ok), wf_dhcps_start = ok, wf_event_loop_init = ok, wf_init = ok, wf_set_storage_ram = ok,
      wf_delay = (\<lambda>t w. w), wf_task_create = id\<rparr>)"

interpretation logged: wifi_device flash_nvs fl_strs fl_ints fl_open log_wifi fl_rest
  by unfold_locales (auto simp: log_wifi_def Let_def)

section \<open>Properties\<close>


lemma copy_string_eq: "copy_string dst s = (if length s < length dst then Some (s @ 0 # drop (Suc (length s)) dst) else None)"
  by (auto simp: copy_string_def emit_eq put_0)

lemma station_eq:
  "length s \<le> 31 \<Longrightarrow> length p \<le> 63 \<Longrightarrow> station s p =
     Some \<lparr>sta_ssid = s @ replicate (32 - length s) 0, sta_password = p @ replicate (64 - length p) 0, sta_bssid_set = False, sta_channel = 1\<rparr>"
  by (simp add: station_def copy_string_eq flip: replicate_Suc) arith

lemma station_overflow: "32 \<le> length s \<Longrightarrow> station s p = None"
  by (simp add: station_def copy_string_eq)


lemma cstr_at_pad: "0 \<notin> set s \<Longrightarrow> 0 < n \<Longrightarrow> cstr_at (s @ replicate n 0) 0 = Some s"
  by (cases n) simp_all

context wifi_device
begin

lemma get_nothing:
  assumes "strs w WIFI_SETTINGS_STORAGE_NAMESPACE (cs ''last_ssid'') = None" and "strs w WIFI_SETTINGS_STORAGE_NAMESPACE (cs ''last_password'') = None"
  shows "\<exists>w'. get_last_connected_wifi nvs ssid password w = Return (0, ssid, password) w' \<and> strs w' = strs w \<and> ints w' = ints w"
proof -
  let ?n = WIFI_SETTINGS_STORAGE_NAMESPACE
  obtain h w1 where 1: "nvs_open nvs ?n w = (0, h, w1)" "opened w1 h = Some ?n" "strs w1 = strs w" "ints w1 = ints w"
    using open_ok [of ?n w] by blast
  obtain w2 where 2: "read_str nvs h (cs ''last_ssid'') 33 ssid w1 = Return (0, ssid) w2" "strs w2 = strs w" "ints w2 = ints w" "opened w2 h = Some ?n"
    using read_str_ok [OF 1(2), of "cs ''last_ssid''" ssid 33] assms 1 by auto
  obtain w3 where 3: "read_str nvs h (cs ''last_password'') 64 password w2 = Return (0, password) w3" "strs w3 = strs w" "ints w3 = ints w"
    using read_str_ok [OF 2(4), of "cs ''last_password''" password 64] assms 2 by auto
  show ?thesis using 1 2 3 close_ok [of h w3] by (simp add: get_last_connected_wifi_def)
qed

lemma wifi_start_ap:
  assumes "env_nvs env = nvs" and "env_wifi env = wd" and "actual_ssid d = replicate 33 0" and "actual_password d = replicate 64 0"
    and "strs (world d) WIFI_SETTINGS_STORAGE_NAMESPACE (cs ''last_ssid'') = None" and "strs (world d) WIFI_SETTINGS_STORAGE_NAMESPACE (cs ''last_password'') = None"
  shows "\<exists>d' pre. wifi_start env d = Return 0 d' \<and> calls (world d') = pre @ [Set_mode WIFI_MODE_AP, Set_config (AP_config default_ap), Start] \<and>
     strs (world d') = strs (world d) \<and> ints (world d') = ints (world d)"
proof -
  have z: "cstr_at (replicate 33 0) 0 = Some []" "cstr_at (replicate 64 0) 0 = Some []" by (simp_all add: cstr_at_def numeral_eq_Suc)
  have get: "\<exists>w'. get_last_connected_wifi nvs (actual_ssid d) (actual_password d) w = Return (0, replicate 33 0, replicate 64 0) w' \<and> strs w' = strs w \<and> ints w' = ints w"
    if "strs w = strs (world d)" for w
    using get_nothing [of w "replicate 33 0" "replicate 64 0"] assms that by simp
  obtain w where w: "strs w = strs (world d)" "ints w = ints (world d)" "wifi_start env d =
      andThen (on_device (\<lambda>w. then_start wd (wifi_ap_configure wd w)) (d\<lparr>actual_ssid := replicate 33 0, actual_password := replicate 64 0, world := w\<rparr>)) (\<lambda>_ d. Return ESP_OK d)"
    using wifi_start_eq [OF assms(1,2) get z] by auto
  obtain w' where "then_start wd (wifi_ap_configure wd w) = Return () w'"
      "calls w' = calls w @ [Set_mode WIFI_MODE_AP, Set_config (AP_config default_ap), Start]" "strs w' = strs w" "ints w' = ints w"
    using start_access_point by blast
  then show ?thesis using w by (simp add: on_device_def)
qed

lemma wifi_start_saved:
  assumes "env_nvs env = nvs" and "env_wifi env = wd" and "length (actual_ssid d) = 33" and "length (actual_password d) = 64"
    and "strs (world d) WIFI_SETTINGS_STORAGE_NAMESPACE (cs ''last_ssid'') = Some s" and "strs (world d) WIFI_SETTINGS_STORAGE_NAMESPACE (cs ''last_password'') = Some p"
    and "0 \<notin> set s" and "0 \<notin> set p" and "s \<noteq> []" and "p \<noteq> []" and "length s \<le> 32" and "length p \<le> 63"
  shows "if length s \<le> 31
     then \<exists>d' pre. wifi_start env d = Return 0 d' \<and> calls (world d') = pre @ [Set_mode WIFI_MODE_STA, Set_config (STA_config (the (station s p))), Start] \<and>
       strs (world d') = strs (world d) \<and> ints (world d') = ints (world d)
     else wifi_start env d = Undefined"
proof -
  let ?S = "s @ 0 # drop (Suc (length s)) (actual_ssid d)" and ?P = "p @ 0 # drop (Suc (length p)) (actual_password d)"
  have z: "cstr_at ?S 0 = Some s" "cstr_at ?P 0 = Some p" using assms(7,8) by simp_all
  have get: "\<exists>w'. get_last_connected_wifi nvs (actual_ssid d) (actual_password d) w = Return (0, ?S, ?P) w' \<and> strs w' = strs w \<and> ints w' = ints w"
    if "strs w = strs (world d)" for w
    using get_last_connected_wifi_ok [of w s p "actual_ssid d" "actual_password d"] assms that by simp
  obtain w where w: "strs w = strs (world d)" "ints w = ints (world d)" "wifi_start env d =
      andThen (on_device (\<lambda>w. then_start wd (wifi_sta_configure wd s p w)) (d\<lparr>actual_ssid := ?S, actual_password := ?P, world := w\<rparr>)) (\<lambda>_ d. Return ESP_OK d)"
    using wifi_start_eq [OF assms(1,2) get z] assms(9,10) by auto
  show ?thesis
  proof (cases "length s \<le> 31")
    case True
    obtain c where c: "station s p = Some c" using station_eq [OF True assms(12)] by blast
    obtain w' where "then_start wd (wifi_sta_configure wd s p w) = Return () w'"
        "calls w' = calls w @ [Set_mode WIFI_MODE_STA, Set_config (STA_config c), Start]" "strs w' = strs w" "ints w' = ints w"
      using start_station [OF c] by blast
    then show ?thesis using w True c by (simp add: on_device_def)
  next
    case False
    obtain w1 where "checked (wf_set_mode wd WIFI_MODE_STA) w = Return () w1" using mode_ok [of WIFI_MODE_STA w] by (auto simp: checked_def)
    then show ?thesis using False w station_overflow [of s p]
      by (simp add: wifi_sta_configure_def configure_station_def on_device_def then_start_def)
  qed
qed

lemma on_sta_connected_saves:
  assumes "env_nvs env = nvs" and "well_typed strs ints (world d)" and "cstr_at (actual_ssid d) 0 = Some s" and "cstr_at (actual_password d) 0 = Some p"
    and "storable s" and "storable p" and "s \<noteq> []"
  shows "\<exists>d'. (if length s \<le> 15 then on_sta_connected env d = Return () d' else on_sta_connected env d = Abort (nvs_code nvs ESP_ERR_NVS_KEY_TOO_LONG) d') \<and>
     (length s \<le> 15 \<longrightarrow> s \<noteq> cs ''last_ssid'' \<longrightarrow> s \<noteq> cs ''last_password'' \<longrightarrow>
       strs (world d') WIFI_SETTINGS_STORAGE_NAMESPACE (cs ''last_ssid'') = Some s \<and> strs (world d') WIFI_SETTINGS_STORAGE_NAMESPACE (cs ''last_password'') = Some p)"
proof -
  obtain w1 where 1: "save_last_connected_wifi nvs s p (world d) = Return 0 w1" "ints w1 = ints (world d)"
      "strs w1 = (strs (world d))(WIFI_SETTINGS_STORAGE_NAMESPACE := (strs (world d) WIFI_SETTINGS_STORAGE_NAMESPACE)(cs ''last_ssid'' \<mapsto> s, cs ''last_password'' \<mapsto> p))"
    using save_last_connected_wifi_ok [OF assms(5,6,2)] by blast
  have wt: "well_typed strs ints w1" using assms(2) 1(2,3) by (simp add: well_typed_def)
  show ?thesis
  proof (cases "length s \<le> 15")
    case True
    obtain w2 where "save_wifi nvs s p w1 = Return 0 w2"
        "strs w2 = (strs w1)(WIFI_SETTINGS_STORAGE_NAMESPACE := (strs w1 WIFI_SETTINGS_STORAGE_NAMESPACE)(s \<mapsto> p))"
      using save_wifi_ok [of s p w1] wt assms(6,7) True by auto
    then show ?thesis using 1 True assms(1,3,4) by (intro exI [of _ "d\<lparr>world := w2\<rparr>"]) (simp add: on_sta_connected_def on_device_def)
  next
    case False
    then obtain w2 where "save_wifi nvs s p w1 = Abort (nvs_code nvs ESP_ERR_NVS_KEY_TOO_LONG) w2" using save_wifi_long [of s p w1] by auto
    then show ?thesis using 1 False assms(1,3,4) by (intro exI [of _ "d\<lparr>world := w2\<rparr>"]) (simp add: on_sta_connected_def on_device_def)
  qed
qed

lemma sta_connected_rejoins:
  assumes "env_nvs env = nvs" and "env_wifi env = wd" and "well_typed strs ints (world d)"
    and "cstr_at (actual_ssid d) 0 = Some s" and "cstr_at (actual_password d) 0 = Some p"
    and "0 \<notin> set s" and "0 \<notin> set p" and "s \<noteq> []" and "p \<noteq> []" and "length s \<le> 32" and "length p \<le> 63"
    and "s \<noteq> cs ''last_ssid''" and "s \<noteq> cs ''last_password''"
  shows "if length s \<le> 15
     then \<exists>d' d'' pre. wifi_event_handler env junk STA_CONNECTED d = Return () d' \<and>
       wifi_start env (d'\<lparr>actual_ssid := replicate 33 0, actual_password := replicate 64 0\<rparr>) = Return 0 d'' \<and>
       calls (world d'') = pre @ [Set_mode WIFI_MODE_STA, Set_config (STA_config
          \<lparr>sta_ssid = s @ replicate (32 - length s) 0, sta_password = p @ replicate (64 - length p) 0, sta_bssid_set = False, sta_channel = 1\<rparr>), Start]
     else \<exists>d'. wifi_event_handler env junk STA_CONNECTED d = Abort (nvs_code nvs ESP_ERR_NVS_KEY_TOO_LONG) d'"
proof -
  have "storable s" "storable p" using assms(6,7,10,11) by (simp_all add: storable_def)
  note saved = on_sta_connected_saves [OF assms(1,3-5) this assms(8)]
  show ?thesis
  proof (cases "length s \<le> 15")
    case True
    then obtain d' where d': "on_sta_connected env d = Return () d'"
        "strs (world d') WIFI_SETTINGS_STORAGE_NAMESPACE (cs ''last_ssid'') = Some s" "strs (world d') WIFI_SETTINGS_STORAGE_NAMESPACE (cs ''last_password'') = Some p"
      using saved assms(12,13) by auto
    let ?d = "d'\<lparr>actual_ssid := replicate 33 0, actual_password := replicate 64 0\<rparr>"
    show ?thesis using wifi_start_saved [OF assms(1,2), of ?d s p] d' assms(6-11) station_eq [of s p] True by auto
  qed (use saved in auto)
qed

end


definition example_env :: "(unit, wifi_call list flash) env" where
  "example_env = \<lparr>env_nvs = flash_nvs, env_wifi = log_wifi, env_os = undefined, env_bt = undefined, env_app = \<lambda>f m w. w\<rparr>"

definition example_device :: "(byte list \<times> byte list) option \<Rightarrow> (unit, wifi_call list flash) device" where
  "example_device saved = \<lparr>actual_ssid = replicate 33 0, actual_password = replicate 64 0, mqttClient = undefined,
     world = (flash0 [])\<lparr>fl_strs := \<lambda>n k. if k = cs ''last_ssid'' then map_option fst saved else if k = cs ''last_password'' then map_option snd saved else None\<rparr>\<rparr>"




end
