(* ===== verification/HttpServer.thy ===== *)
theory HttpServer
  imports WiFi
begin

text \<open>
  \<^verbatim>\<open>main/src/HttpServer/esp32iot_http_server.c\<close>: the web server for the settings, and \<^verbatim>\<open>main/main.c\<close>: the start of the firmware.

  The connection API of lwIP and the scheduler are the parameter \<open>http\<close>.  A received buffer is the list of its bytes; the string functions need a NUL
  in it.  The pages of \<^verbatim>\<open>web_root\<close> are the values of \<open>page\<close>.  \<open>err_t\<close> has 8 bits, \<open>err8\<close>.

  The parsers build arrays of exactly the length of a text and store a NUL behind their end.  \<open>slack\<close> is the number of bytes that may
  be written there: 0 is the C standard, where this is undefined; a compiler that pads the arrays gives more.
\<close>

section \<open>Parsing a request\<close>

fun c_strstr :: "byte list \<Rightarrow> byte list \<Rightarrow> nat option" where
  "c_strstr [] key = (if key = [] then Some 0 else None)"
| "c_strstr (x # s) key = (if take (length key) (x # s) = key then Some 0 else map_option Suc (c_strstr s key))"

definition contains :: "byte list \<Rightarrow> string \<Rightarrow> bool" where
  "contains s key \<longleftrightarrow> c_strstr s (cs key) \<noteq> None"

text \<open>
  The common body of the two parsers: \<open>Some None\<close> without the key, \<open>Some (Some v)\<close> with the characters behind the key and one more
  character, up to an ampersand or the end.  Without a character behind the key the size of the second array wraps around.
\<close>

definition http_param :: "nat \<Rightarrow> byte list \<Rightarrow> byte list \<Rightarrow> byte list option option" where
  "http_param slack request key =
     (case c_strstr request key of
        None \<Rightarrow> Some None
      | Some i \<Rightarrow>
         (let param_start = drop i request;
              n = (case find_index 38 param_start of Some k \<Rightarrow> k | None \<Rightarrow> length param_start);
              tmp_param = take n param_start in
          if slack = 0 then None
          else if n < length key + 1 then None
          else Some (Some (drop (length key + 1) tmp_param))))"

text \<open>\<open>parse_http_request\<close> into an array of \<open>cap\<close> bytes: the error and what was stored.\<close>

definition parse_http_request :: "nat \<Rightarrow> byte list \<Rightarrow> byte list \<Rightarrow> nat \<Rightarrow> (int \<times> byte list option) option" where
  "parse_http_request slack request key cap = do {
     r \<leftarrow> http_param slack request key;
     (case r of
        None \<Rightarrow> Some (1, None)
      | Some v \<Rightarrow> if length v < cap then Some (0, Some v) else None) }"

record 'w http =
  nc_recv :: "'w \<Rightarrow> int \<times> mem \<times> 'w"
  nc_header :: "nat \<Rightarrow> 'w \<Rightarrow> 'w"
  nc_page :: "nat \<Rightarrow> 'w \<Rightarrow> int \<times> 'w"
  nc_close :: "'w \<Rightarrow> 'w"
  nc_buf_delete :: "'w \<Rightarrow> 'w"
  nc_new_listen :: "'w \<Rightarrow> 'w"
  nc_accept :: "'w \<Rightarrow> int \<times> 'w"
  nc_conn_delete :: "'w \<Rightarrow> 'w"
  nc_malloc :: "nat \<Rightarrow> 'w \<Rightarrow> bool \<times> 'w"
  nc_create_server :: "'w \<Rightarrow> 'w"

text \<open>\<open>parse_http_request2\<close> into memory from \<open>malloc\<close>, whose failure is not noticed: \<open>sprintf\<close> to the null pointer is undefined.\<close>

definition parse_http_request2 :: "'w http \<Rightarrow> nat \<Rightarrow> byte list \<Rightarrow> byte list \<Rightarrow> byte list \<Rightarrow> 'w \<Rightarrow> (byte list, 'w) outcome" where
  "parse_http_request2 hc slack request key old w =
     (case http_param slack request key of
        None \<Rightarrow> Undefined
      | Some None \<Rightarrow> Return old w
      | Some (Some v) \<Rightarrow> (let (ok, w) = nc_malloc hc (length v + 1) w in if ok then Return v w else Undefined))"

section \<open>Serving a request\<close>

datatype page = Index | Wifi_setup | Mqtt_setup | Not_found | Success | Empty_field

primrec page_number :: "page \<Rightarrow> nat" where
  "page_number Index = 0"
| "page_number Wifi_setup = 1"
| "page_number Mqtt_setup = 2"
| "page_number Not_found = 3"
| "page_number Success = 4"
| "page_number Empty_field = 5"

text \<open>The globals of the server: the device and the three strings of the account form.\<close>

record ('f, 'w) server =
  srv_device :: "('f, 'w) device"
  srv_username :: "byte list"
  srv_password :: "byte list"
  srv_clientID :: "byte list"

definition err8 :: "int \<Rightarrow> int" where
  "err8 x = (x + 128) mod 256 - 128"

definition srv_world :: "('f, 'w) server \<Rightarrow> 'w" where
  "srv_world s = world (srv_device s)"

definition with_world :: "('f, 'w) server \<Rightarrow> 'w \<Rightarrow> ('f, 'w) server" where
  "with_world s w = s\<lparr>srv_device := (srv_device s)\<lparr>world := w\<rparr>\<rparr>"

definition on_srv :: "('w \<Rightarrow> ('a, 'w) outcome) \<Rightarrow> ('f, 'w) server \<Rightarrow> ('a, ('f, 'w) server) outcome" where
  "on_srv f s = lift_outcome (with_world s) (f (srv_world s))"

text \<open>The header, whose result is ignored, and the page; \<open>if (err != ESP_OK) { log; ESP_ERROR_CHECK(err); }\<close>.\<close>

definition send_page :: "'w http \<Rightarrow> page \<Rightarrow> ('f, 'w) server \<Rightarrow> (unit, ('f, 'w) server) outcome" where
  "send_page hc p s = on_srv (\<lambda>w. let (err, w) = nc_page hc (page_number p) (nc_header hc (page_number p) w) in ESP_ERROR_CHECK err w) s"

definition close_conn :: "'w http \<Rightarrow> ('f, 'w) server \<Rightarrow> ('f, 'w) server" where
  "close_conn hc s = with_world s (nc_buf_delete hc (nc_close hc (srv_world s)))"

definition get_route :: "byte list \<Rightarrow> page" where
  "get_route req =
     (if contains req ''/ '' then Index
      else if contains req ''/index '' then Index
      else if contains req ''/wifi-setup-menu '' then Wifi_setup
      else if contains req ''/mqtt-setup-menu '' then Mqtt_setup
      else Not_found)"

text \<open>A form handler says whether it has closed the connection itself.\<close>

definition post_wifi_setup :: "('f, 'w) env \<Rightarrow> 'w http \<Rightarrow> nat \<Rightarrow> byte list \<Rightarrow> ('f, 'w) server \<Rightarrow> (bool, ('f, 'w) server) outcome" where
  "post_wifi_setup env hc slack req s =
     (case parse_http_request slack req (cs ''ssid'') 33 of
        Some (_, Some ssid) \<Rightarrow>
          if ssid \<noteq> [] then
            (case parse_http_request slack req (cs ''password'') 64 of
               Some (_, Some password) \<Rightarrow>
                 (case (c_strcpy (actual_ssid (srv_device s)) ssid, c_strcpy (actual_password (srv_device s)) password) of
                    (Some S, Some P) \<Rightarrow>
                      andThen (send_page hc Success (s\<lparr>srv_device := (srv_device s)\<lparr>actual_ssid := S, actual_password := P\<rparr>\<rparr>)) (\<lambda>_ s.
                      andThen (on_srv (\<lambda>w. andThen (wifi_apsta_configure (env_wifi env) ssid password w) (\<lambda>err w.
                          if err8 err \<noteq> ESP_OK then ESP_ERROR_CHECK (err8 err) w
                          else (let (err, w) = wf_connect (env_wifi env) w in ESP_ERROR_CHECK (err8 err) w))) (close_conn hc s))
                        (\<lambda>_ s. Return True s))
                  | _ \<Rightarrow> Undefined)
             | _ \<Rightarrow> Undefined)
          else andThen (send_page hc Empty_field s) (\<lambda>_ s. Return False s)
      | _ \<Rightarrow> Undefined)"

definition post_mqtt_setup :: "('f, 'w) env \<Rightarrow> 'w http \<Rightarrow> nat \<Rightarrow> byte list \<Rightarrow> ('f, 'w) server \<Rightarrow> (bool, ('f, 'w) server) outcome" where
  "post_mqtt_setup env hc slack req s =
     andThen (on_srv (parse_http_request2 hc slack req (cs ''username'') (srv_username s)) s) (\<lambda>u s.
     andThen (on_srv (parse_http_request2 hc slack req (cs ''password'') (srv_password s)) s) (\<lambda>p s.
     andThen (on_srv (parse_http_request2 hc slack req (cs ''clientID'') (srv_clientID s)) s) (\<lambda>c s.
       let s = s\<lparr>srv_username := u, srv_password := p, srv_clientID := c\<rparr> in
       if u \<noteq> [] \<and> p \<noteq> [] \<and> c \<noteq> [] then
         (case connectClient (env_os env) (env_app env) (CayenneInit (mqttClient (srv_device s)) (Some u) (Some p) (Some c)) (srv_world s) of
            None \<Rightarrow> Undefined
          | Some (rc, client, w) \<Rightarrow>
              (let s = s\<lparr>srv_device := (srv_device s)\<lparr>mqttClient := client, world := w\<rparr>\<rparr> in
               andThen (if err8 rc \<noteq> CAYENNE_SUCCESS then on_srv (ESP_ERROR_CHECK (err8 rc)) s
                        else andThen (on_srv (save_last_connected_mqtt (env_nvs env) u p c) s) (\<lambda>_ s. Return () s)) (\<lambda>_ s.
               andThen (send_page hc Success s) (\<lambda>_ s. Return True (close_conn hc s)))))
       else andThen (send_page hc Empty_field s) (\<lambda>_ s. Return False s))))"

definition then_success :: "'w http \<Rightarrow> (int, ('f, 'w) server) outcome \<Rightarrow> (bool, ('f, 'w) server) outcome" where
  "then_success hc r = andThen r (\<lambda>err s.
     if err8 err \<noteq> ESP_OK then andThen (on_srv (ESP_ERROR_CHECK (err8 err)) s) (\<lambda>_ s. Return False s)
     else andThen (send_page hc Success s) (\<lambda>_ s. Return False s))"

definition serve_post :: "('f, 'w) env \<Rightarrow> 'w http \<Rightarrow> nat \<Rightarrow> byte list \<Rightarrow> ('f, 'w) server \<Rightarrow> (bool, ('f, 'w) server) outcome" where
  "serve_post env hc slack req s =
     (if contains req ''/wifi-setup'' then post_wifi_setup env hc slack req s
      else if contains req ''/mqtt-setup'' then post_mqtt_setup env hc slack req s
      else if contains req ''/erase-wifi-data '' then then_success hc (on_srv (erase_storage (env_nvs env)) s)
      else if contains req ''/reset_restart_counter '' then then_success hc (on_srv (reset_restart_counter (env_nvs env)) s)
      else if contains req ''/ble_test '' then then_success hc (on_srv (bluetooth_initialize (env_bt env)) s)
      else if contains req ''/restart '' then andThen (send_page hc Success s) (\<lambda>_ s. Restart s)
      else andThen (send_page hc Not_found s) (\<lambda>_ s. Return False s))"

text \<open>When nothing was received, \<open>netbuf_delete\<close> is called with an uninitialised pointer.\<close>

definition http_server_netconn_serve :: "('f, 'w) env \<Rightarrow> 'w http \<Rightarrow> nat \<Rightarrow> ('f, 'w) server \<Rightarrow> (unit, ('f, 'w) server) outcome" where
  "http_server_netconn_serve env hc slack s =
     (let (err, recv_buf, w) = nc_recv hc (srv_world s); s = with_world s w in
      if err \<noteq> 0 then Undefined
      else (case cstr_at recv_buf 0 of
          None \<Rightarrow> Undefined
        | Some req \<Rightarrow>
            if contains req ''GET '' \<and> contains req '' HTTP/1.1''
            then andThen (send_page hc (get_route req) s) (\<lambda>_ s. Return () (close_conn hc s))
            else if contains req ''POST '' \<and> contains req '' HTTP/1.1''
            then andThen (serve_post env hc slack req s) (\<lambda>closed s. Return () (if closed then s else close_conn hc s))
            else Return () (close_conn hc s)))"

text \<open>The accept loop: \<open>None\<close> is the server that goes on for ever.\<close>

partial_function (option) accept_loop :: "('f, 'w) env \<Rightarrow> 'w http \<Rightarrow> nat \<Rightarrow> ('f, 'w) server \<Rightarrow> (unit, ('f, 'w) server) outcome option" where
  "accept_loop env hc slack s =
     (let (err, w) = nc_accept hc (srv_world s); s = with_world s w in
      if err \<noteq> 0 then Some (Return () (with_world s (nc_conn_delete hc (nc_close hc w))))
      else (case http_server_netconn_serve env hc slack s of
          Return _ s \<Rightarrow> accept_loop env hc slack (with_world s (nc_conn_delete hc (srv_world s)))
        | r \<Rightarrow> Some r))"

definition http_server :: "('f, 'w) env \<Rightarrow> 'w http \<Rightarrow> nat \<Rightarrow> ('f, 'w) server \<Rightarrow> (unit, ('f, 'w) server) outcome option" where
  "http_server env hc slack s = accept_loop env hc slack (with_world s (nc_new_listen hc (srv_world s)))"

definition http_server_init :: "'w http \<Rightarrow> 'w \<Rightarrow> 'w" where
  "http_server_init hc w = nc_create_server hc w"

section \<open>The start of the firmware\<close>

text \<open>\<open>err = f(); if (err != ESP_OK) { log; ESP_ERROR_CHECK(err); }\<close>\<close>

definition must :: "(int, 's) outcome \<Rightarrow> ('s \<Rightarrow> (unit, 's) outcome) \<Rightarrow> (unit, 's) outcome" where
  "must r k = andThen r (\<lambda>err s. if err \<noteq> ESP_OK then andThen (ESP_ERROR_CHECK err s) (\<lambda>_ s. k s) else k s)"

definition app_main :: "('f, 'w) env \<Rightarrow> 'w http \<Rightarrow> ('f, 'w) device \<Rightarrow> (unit, ('f, 'w) device) outcome" where
  "app_main env hc d =
     must (on_device (storage_init (env_nvs env)) d) (\<lambda>d.
     must (on_device (get_restart_counter (env_nvs env)) d) (\<lambda>d.
     must (on_device (save_restart_counter (env_nvs env)) d) (\<lambda>d.
     must (wifi_start env d) (\<lambda>d.
       Return () (d\<lparr>world := http_server_init hc (world d)\<rparr>)))))"

section \<open>The parser\<close>

text \<open>\<open>strstr\<close> finds the first occurrence.\<close>

lemma c_strstr_Some:
  "c_strstr s key = Some i \<longleftrightarrow> i \<le> length s \<and> take (length key) (drop i s) = key \<and> (\<forall>j < i. take (length key) (drop j s) \<noteq> key)"
proof (induction s arbitrary: i)
  case (Cons x s)
  show ?case
  proof (cases "take (length key) (x # s) = key")
    case True
    then show ?thesis by (cases i) (auto dest: spec [of _ 0])
  next
    case False
    then show ?thesis using Cons.IH by (cases i) (auto simp: All_less_Suc2)
  qed
qed auto

text \<open>
  A form field in a request: the first occurrence of the key, a separator, and the characters up to an ampersand or the end.
\<close>

definition form_field :: "byte list \<Rightarrow> byte list \<Rightarrow> byte list \<Rightarrow> bool" where
  "form_field request key v \<longleftrightarrow> (\<exists>pre sep rest. request = pre @ key @ sep # v @ rest \<and> (\<forall>j < length pre. take (length key) (drop j request) \<noteq> key) \<and>
     38 \<notin> set (key @ sep # v) \<and> (rest = [] \<or> hd rest = 38))"

lemma form_fieldI:
  "request = pre @ key @ sep # v @ rest \<Longrightarrow> c_strstr request key = Some (length pre) \<Longrightarrow> 38 \<notin> set (key @ sep # v) \<Longrightarrow> rest = [] \<or> hd rest = 38 \<Longrightarrow>
     form_field request key v"
  unfolding form_field_def c_strstr_Some by blast

lemma http_param_field:
  assumes "form_field request key v"
  shows "http_param slack request key = (if slack = 0 then None else Some (Some v))"
proof -
  obtain pre sep rest where r: "request = pre @ key @ sep # v @ rest" "\<forall>j < length pre. take (length key) (drop j request) \<noteq> key"
      "38 \<notin> set (key @ sep # v)" "rest = [] \<or> hd rest = 38"
    using assms unfolding form_field_def by blast
  have i: "c_strstr request key = Some (length pre)" using r(2) by (auto simp: c_strstr_Some r(1))
  have n: "(case find_index 38 (key @ sep # v @ rest) of Some k \<Rightarrow> k | None \<Rightarrow> length (key @ sep # v @ rest)) = length (key @ sep # v)"
  proof (cases rest)
    case Nil
    have e: "find_index 38 (key @ sep # v) = None" using r(3) by simp
    show ?thesis unfolding Nil append_Nil2 e by simp
  next
    case (Cons c rest')
    then have "find_index 38 ((key @ sep # v) @ 38 # rest') = Some (length (key @ sep # v))" using r(3) find_index_app by blast
    then show ?thesis using Cons r(4) by simp
  qed
  show ?thesis using i n by (simp add: http_param_def r(1) Let_def)
qed

section \<open>A working web server\<close>

text \<open>The contract of the connection API over a working device: a page that is sent is recorded in \<open>pages\<close>, and nothing else of the device changes.\<close>

locale web_device = wifi_device nvs strs ints opened wd calls
    for nvs :: "'w nvs" and strs ints opened and wd :: "'w wifi" and calls +
  fixes hc :: "'w http" and pages :: "'w \<Rightarrow> nat list"
  assumes page_ok: "\<exists>w'. nc_page hc n (nc_header hc n w) = (0, w') \<and> pages w' = pages w @ [n] \<and> calls w' = calls w \<and> strs w' = strs w \<and> ints w' = ints w"
    and close_keeps: "calls (nc_close hc w) = calls w \<and> strs (nc_close hc w) = strs w \<and> ints (nc_close hc w) = ints w \<and> pages (nc_close hc w) = pages w"
    and delete_keeps: "calls (nc_buf_delete hc w) = calls w \<and> strs (nc_buf_delete hc w) = strs w \<and> ints (nc_buf_delete hc w) = ints w \<and>
      pages (nc_buf_delete hc w) = pages w"
    and server_keeps: "strs (nc_create_server hc w) = strs w \<and> ints (nc_create_server hc w) = ints w \<and> calls (nc_create_server hc w) = calls w"
    and driver_pages: "pages (snd (wf_set_mode wd m w)) = pages w" "pages (snd (wf_set_config wd c w)) = pages w" "pages (snd (wf_connect wd w)) = pages w"
begin

lemma send_page_ok:
  "\<exists>w'. send_page hc p s = Return () (with_world s w') \<and> pages w' = pages (srv_world s) @ [page_number p] \<and>
     calls w' = calls (srv_world s) \<and> strs w' = strs (srv_world s) \<and> ints w' = ints (srv_world s)"
  using page_ok [of "page_number p" "srv_world s"] by (auto simp: send_page_def on_srv_def)

lemma apsta_connect_ok:
  assumes "station s p = Some c"
  shows "\<exists>w'. andThen (wifi_apsta_configure wd s p w) (\<lambda>err w. if err8 err \<noteq> ESP_OK then ESP_ERROR_CHECK (err8 err) w
        else (let (err, w) = wf_connect wd w in ESP_ERROR_CHECK (err8 err) w)) = Return () w' \<and>
     calls w' = calls w @ [Set_mode WIFI_MODE_APSTA, Set_config (STA_config c), Connect] \<and> strs w' = strs w \<and> ints w' = ints w \<and> pages w' = pages w"
proof -
  obtain w1 where 1: "wf_set_mode wd WIFI_MODE_APSTA w = (0, w1)" "calls w1 = calls w @ [Set_mode WIFI_MODE_APSTA]" "strs w1 = strs w" "ints w1 = ints w"
    using mode_ok [of WIFI_MODE_APSTA w] by blast
  obtain w2 where 2: "wf_set_config wd (STA_config c) w1 = (0, w2)" "calls w2 = calls w1 @ [Set_config (STA_config c)]" "strs w2 = strs w1" "ints w2 = ints w1"
    using config_ok [of "STA_config c" w1] by blast
  obtain w3 where 3: "wf_connect wd w2 = (0, w3)" "calls w3 = calls w2 @ [Connect]" "strs w3 = strs w2" "ints w3 = ints w2" using connect_ok [of w2] by blast
  have "pages w1 = pages w" "pages w2 = pages w1" "pages w3 = pages w2"
    using driver_pages(1) [of WIFI_MODE_APSTA w] driver_pages(2) [of "STA_config c" w1] driver_pages(3) [of w2] 1(1) 2(1) 3(1) by simp_all
  then show ?thesis using 1 2 3 assms by (simp add: wifi_apsta_configure_def configure_station_def checked_def err8_def)
qed

text \<open>The network form: the globals, the driver and the answer.\<close>

lemma post_wifi_setup_ok:
  assumes "env_wifi env = wd" and "0 < slack" and "form_field req (cs ''ssid'') ss" and "form_field req (cs ''password'') pw"
    and "ss \<noteq> []" and "length ss \<le> 31" and "length pw \<le> 63" and "station ss pw = Some c"
    and "length (actual_ssid (srv_device s)) = 33" and "length (actual_password (srv_device s)) = 64"
  shows "\<exists>w'. post_wifi_setup env hc slack req s = Return True (with_world (s\<lparr>srv_device := (srv_device s)\<lparr>
        actual_ssid := ss @ 0 # drop (Suc (length ss)) (actual_ssid (srv_device s)), actual_password := pw @ 0 # drop (Suc (length pw)) (actual_password (srv_device s))\<rparr>\<rparr>) w') \<and>
     pages w' = pages (srv_world s) @ [page_number Success] \<and> calls w' = calls (srv_world s) @ [Set_mode WIFI_MODE_APSTA, Set_config (STA_config c), Connect] \<and>
     strs w' = strs (srv_world s) \<and> ints w' = ints (srv_world s)"
proof -
  let ?s = "s\<lparr>srv_device := (srv_device s)\<lparr>actual_ssid := ss @ 0 # drop (Suc (length ss)) (actual_ssid (srv_device s)),
      actual_password := pw @ 0 # drop (Suc (length pw)) (actual_password (srv_device s))\<rparr>\<rparr>"
  obtain w1 where 1: "send_page hc Success ?s = Return () (with_world ?s w1)" "pages w1 = pages (srv_world s) @ [page_number Success]"
      "calls w1 = calls (srv_world s)" "strs w1 = strs (srv_world s)" "ints w1 = ints (srv_world s)"
    using send_page_ok [of Success ?s] by (auto simp: srv_world_def)
  let ?w = "nc_buf_delete hc (nc_close hc w1)"
  have w: "pages ?w = pages w1" "calls ?w = calls w1" "strs ?w = strs w1" "ints ?w = ints w1" using close_keeps delete_keeps by simp_all
  show ?thesis using apsta_connect_ok [OF assms(8), of ?w] assms 1 w
    by (auto simp: post_wifi_setup_def parse_http_request_def http_param_field c_strcpy_eq on_srv_def close_conn_def with_world_def srv_world_def)
qed

end

text \<open>A connection API that records the pages beside the store and the driver; \<open>req\<close> is what the client has sent.\<close>

record web = "wifi_call list flash" +
  web_pages :: "nat list"

definition log_http :: "mem \<Rightarrow> web http" where
  "log_http req = \<lparr>nc_recv = (\<lambda>w. (0, req, w)), nc_header = (\<lambda>n w. w), nc_page = (\<lambda>n w. (0, w\<lparr>web_pages := web_pages w @ [n]\<rparr>)),
     nc_close = id, nc_buf_delete = id, nc_new_listen = id, nc_accept = (\<lambda>w. (-1, w)), nc_conn_delete = id, nc_malloc = (\<lambda>n w. (True, w)), nc_create_server = id\<rparr>"

interpretation web: web_device flash_nvs fl_strs fl_ints fl_open log_wifi fl_rest "log_http req" web_pages
  by unfold_locales (auto simp: log_http_def log_wifi_def Let_def)

lemma form_field_set: "form_field request key v \<Longrightarrow> set v \<subseteq> set request"
  by (auto simp: form_field_def)

context web_device
begin

text \<open>A name of 32 characters fits the array of the parser but not the driver's configuration; a longer one not even the array.\<close>

lemma post_wifi_setup_long:
  assumes "env_wifi env = wd" and "0 < slack" and "form_field req (cs ''ssid'') ss" and "form_field req (cs ''password'') pw" and "32 \<le> length ss" and "length pw \<le> 63"
    and "length (actual_ssid (srv_device s)) = 33" and "length (actual_password (srv_device s)) = 64"
  shows "post_wifi_setup env hc slack req s = Undefined"
proof (cases "length ss = 32")
  case True
  let ?s = "s\<lparr>srv_device := (srv_device s)\<lparr>actual_ssid := ss @ 0 # drop (Suc (length ss)) (actual_ssid (srv_device s)),
      actual_password := pw @ 0 # drop (Suc (length pw)) (actual_password (srv_device s))\<rparr>\<rparr>"
  obtain w1 where 1: "send_page hc Success ?s = Return () (with_world ?s w1)" using send_page_ok [of Success ?s] by auto
  obtain w2 where "checked (wf_set_mode wd WIFI_MODE_APSTA) (nc_buf_delete hc (nc_close hc w1)) = Return () w2"
    using mode_ok [of WIFI_MODE_APSTA "nc_buf_delete hc (nc_close hc w1)"] by (auto simp: checked_def)
  then show ?thesis using assms 1 True station_overflow [of ss pw]
    by (auto simp: post_wifi_setup_def parse_http_request_def http_param_field c_strcpy_eq on_srv_def close_conn_def with_world_def srv_world_def
        wifi_apsta_configure_def configure_station_def)
next
  case False
  then show ?thesis using assms by (simp add: post_wifi_setup_def parse_http_request_def http_param_field)
qed

lemma serve_wifi_setup:
  assumes "nc_recv hc (srv_world s) = (0, req @ 0 # junk, w)" and "0 \<notin> set req" and "contains req ''POST ''" and "contains req '' HTTP/1.1''"
    and "\<not> contains req ''GET ''" and "contains req ''/wifi-setup''"
  shows "http_server_netconn_serve env hc slack s =
     andThen (post_wifi_setup env hc slack req (with_world s w)) (\<lambda>closed s. Return () (if closed then s else close_conn hc s))"
  using assms by (simp add: http_server_netconn_serve_def serve_post_def)

lemma get_restart_counter_ok: "\<exists>w'. get_restart_counter nvs w = Return 0 w' \<and> strs w' = strs w \<and> ints w' = ints w"
proof -
  let ?n = GENERAL_STORAGE_NAMESPACE
  obtain h w1 where 1: "nvs_open nvs ?n w = (0, h, w1)" "opened w1 h = Some ?n" "strs w1 = strs w" "ints w1 = ints w"
    using open_ok [of ?n w] by blast
  obtain e i w2 where 2: "nvs_get_i32 nvs h restart_key 0 w1 = (e, i, w2)" "read_error nvs e = 0" "strs w2 = strs w" "ints w2 = ints w"
    using i32_none [OF 1(2), of restart_key 0] i32_some [OF 1(2), of restart_key _ 0] 1 read_error_simps
    by (cases "ints w ?n restart_key") auto
  show ?thesis using 1 2 close_ok [of h w2] by (simp add: get_restart_counter_def)
qed

text \<open>The three steps before the WiFi is started.\<close>

lemma app_main_wifi:
  assumes "env_nvs env = nvs" and "storage_init nvs (world d) = Return 0 w0" and "well_typed strs ints w0" and "counter_of (settings_of strs ints w0) \<noteq> 2147483647"
  shows "\<exists>w'. app_main env hc d = must (wifi_start env (d\<lparr>world := w'\<rparr>)) (\<lambda>d. Return () (d\<lparr>world := http_server_init hc (world d)\<rparr>)) \<and>
     strs w' = strs w0 \<and> counter_of (settings_of strs ints w') = counter_of (settings_of strs ints w0) + 1"
proof -
  obtain w1 where 1: "get_restart_counter nvs w0 = Return 0 w1" "strs w1 = strs w0" "ints w1 = ints w0" using get_restart_counter_ok by blast
  have e: "settings_of strs ints w1 = settings_of strs ints w0" "well_typed strs ints w1" using 1 assms(3) by (simp_all add: settings_of_def well_typed_def)
  obtain w2 where 2: "save_restart_counter nvs w1 = Return 0 w2" "strs w2 = strs w1"
      "ints w2 = (ints w1)(GENERAL_STORAGE_NAMESPACE := (ints w1 GENERAL_STORAGE_NAMESPACE)(restart_key \<mapsto> counter_of (settings_of strs ints w0) + 1))"
    using save_restart_counter_ok [OF e(2)] assms(4) e(1) by auto
  have "counter_of (settings_of strs ints w2) = counter_of (settings_of strs ints w0) + 1" by (simp add: counter_of_def settings_of_def 2(3))
  then show ?thesis using 1 2 assms(1,2) by (intro exI [of _ w2]) (simp add: app_main_def must_def on_device_def)
qed

end

section \<open>Properties\<close>

text \<open>C27: the two form parsers.  For a field of a form, the key and a separator at the first occurrence of the key, then a text up to an ampersand
  or the end of the request, \<open>parse_http_request\<close> stores exactly the text, or writes past the caller's array of \<open>cap\<close> bytes when the text has \<open>cap\<close> or more;
  \<open>parse_http_request2\<close> gives it in memory of its own.  Both store a NUL one past an array of their own: without slack behind it they are undefined.\<close>

theorem parse_http_request_field:
  assumes "form_field request key v"
  shows "parse_http_request slack request key cap = (if slack = 0 \<or> cap \<le> length v then None else Some (0, Some v)) \<and>
     parse_http_request2 hc slack request key old w =
       (if slack = 0 then Undefined else if fst (nc_malloc hc (length v + 1) w) then Return v (snd (nc_malloc hc (length v + 1) w)) else Undefined)"
  using http_param_field [OF assms] by (simp add: parse_http_request_def parse_http_request2_def split: prod.splits)

theorem parse_http_request_field_witness:
  "parse_http_request 1 (cs ''POST /wifi-setup HTTP/1.1 ssid=home&password=pw'') (cs ''ssid'') 33 = Some (0, Some (cs ''home'')) \<and>
   parse_http_request 1 (cs ''POST /wifi-setup HTTP/1.1 ssid=home&password=pw'') (cs ''ssid'') 4 = None"
proof -
  let ?r = "cs ''POST /wifi-setup HTTP/1.1 ssid=home&password=pw''"
  have "form_field ?r (cs ''ssid'') (cs ''home'')"
    by (rule form_fieldI [of _ "cs ''POST /wifi-setup HTTP/1.1 ''" _ 61 _ "cs ''&password=pw''"]) (simp_all add: cs_def)
  from parse_http_request_field [OF this, of 1 33 "log_http []"] parse_http_request_field [OF this, of 1 4 "log_http []"]
  show ?thesis by (simp add: cs_def)
qed

text \<open>C8: the start of the firmware.  Over a working device, when the flash can be initialised, at once or after it was erased for want of free pages, \<open>app_main\<close> adds one
  to the restart counter, starts the WiFi as access point when no network is saved and as station of the saved network otherwise, and starts the web server;
  with a saved name of 32 characters it is undefined.\<close>

theorem app_main_starts:
  assumes "web_device nvs strs ints opened wd calls hc pages" and "env_nvs env = nvs" and "env_wifi env = wd"
    and "actual_ssid d = replicate 33 0" and "actual_password d = replicate 64 0"
    and "nvs_flash_init nvs (world d) = (0, w0) \<or> (\<exists>w1 w2. nvs_flash_init nvs (world d) = (nvs_code nvs ESP_ERR_NVS_NO_FREE_PAGES, w1) \<and>
        nvs_flash_erase nvs w1 = (0, w2) \<and> nvs_flash_init nvs w2 = (0, w0))"
    and "well_typed strs ints w0" and "counter_of (settings_of strs ints w0) \<noteq> 2147483647"
    and "case saved of None \<Rightarrow> strs w0 WIFI_SETTINGS_STORAGE_NAMESPACE (cs ''last_ssid'') = None \<and>
            strs w0 WIFI_SETTINGS_STORAGE_NAMESPACE (cs ''last_password'') = None
        | Some (s, p) \<Rightarrow> strs w0 WIFI_SETTINGS_STORAGE_NAMESPACE (cs ''last_ssid'') = Some s \<and>
            strs w0 WIFI_SETTINGS_STORAGE_NAMESPACE (cs ''last_password'') = Some p \<and>
            0 \<notin> set s \<and> 0 \<notin> set p \<and> s \<noteq> [] \<and> p \<noteq> [] \<and> length s \<le> 32 \<and> length p \<le> 63"
  shows "if (case saved of None \<Rightarrow> True | Some (s, p) \<Rightarrow> length s \<le> 31)
     then \<exists>d' w pre. app_main env hc d = Return () d' \<and> world d' = http_server_init hc w \<and>
       counter_of (settings_of strs ints (world d')) = counter_of (settings_of strs ints w0) + 1 \<and>
       calls (world d') = pre @ (case saved of None \<Rightarrow> [Set_mode WIFI_MODE_AP, Set_config (AP_config default_ap), Start]
         | Some (s, p) \<Rightarrow> [Set_mode WIFI_MODE_STA, Set_config (STA_config
            \<lparr>sta_ssid = s @ replicate (32 - length s) 0, sta_password = p @ replicate (64 - length p) 0, sta_bssid_set = False, sta_channel = 1\<rparr>), Start])
     else app_main env hc d = Undefined"
proof -
  have wd: "wifi_device nvs strs ints opened wd calls" using assms(1) by (rule web_device.axioms(1))
  have codes: "nvs_code nvs c \<noteq> 0" for c using nvs_store.codes(2) [OF wifi_device.axioms(1) [OF wd]] .
  have init: "storage_init nvs (world d) = Return 0 w0" using assms(6) codes [of ESP_ERR_NVS_NO_FREE_PAGES] by (auto simp: storage_init_def)
  obtain w' where w': "app_main env hc d = must (wifi_start env (d\<lparr>world := w'\<rparr>)) (\<lambda>d. Return () (d\<lparr>world := http_server_init hc (world d)\<rparr>))"
      "strs w' = strs w0" "counter_of (settings_of strs ints w') = counter_of (settings_of strs ints w0) + 1"
    using web_device.app_main_wifi [OF assms(1,2) init assms(7,8)] by blast
  have keep: "calls (http_server_init hc w) = calls w" "settings_of strs ints (http_server_init hc w) = settings_of strs ints w" for w
    using web_device.server_keeps [OF assms(1)] by (simp_all add: http_server_init_def settings_of_def)
  show ?thesis
  proof (cases saved)
    case None
    then obtain d' pre where "wifi_start env (d\<lparr>world := w'\<rparr>) = Return 0 d'" "strs (world d') = strs w'" "ints (world d') = ints w'"
        "calls (world d') = pre @ [Set_mode WIFI_MODE_AP, Set_config (AP_config default_ap), Start]"
      using wifi_device.wifi_start_ap [OF wd assms(2,3), of "d\<lparr>world := w'\<rparr>"] assms(4,5,9) w'(2) by auto
    then show ?thesis using None w' by (auto simp: must_def keep) (simp add: settings_of_def)
  next
    case (Some sp)
    then obtain s p where sp: "saved = Some (s, p)" by (cases sp) auto
    note run = wifi_device.wifi_start_saved [OF wd assms(2,3), of "d\<lparr>world := w'\<rparr>" s p]
    show ?thesis
    proof (cases "length s \<le> 31")
      case True
      then obtain d' pre where "wifi_start env (d\<lparr>world := w'\<rparr>) = Return 0 d'" "strs (world d') = strs w'" "ints (world d') = ints w'"
          "calls (world d') = pre @ [Set_mode WIFI_MODE_STA, Set_config (STA_config (the (station s p))), Start]"
        using run assms(4,5,9) w'(2) sp by auto
      then show ?thesis using sp True w' assms(9) station_eq [of s p] by (auto simp: must_def keep) (simp add: settings_of_def)
    next
      case False
      then show ?thesis using run assms(4,5,9) w' sp by (auto simp: must_def)
    qed
  qed
qed

definition web_env :: "(unit, web) env" where
  "web_env = \<lparr>env_nvs = flash_nvs, env_wifi = log_wifi, env_os = undefined, env_bt = undefined, env_app = \<lambda>f m w. w\<rparr>"

definition web_device0 :: "(byte list \<times> byte list) option \<Rightarrow> (unit, web) device" where
  "web_device0 saved = \<lparr>actual_ssid = replicate 33 0, actual_password = replicate 64 0, mqttClient = undefined,
     world = \<lparr>fl_strs = (\<lambda>n k. if n \<noteq> WIFI_SETTINGS_STORAGE_NAMESPACE then None else if k = cs ''last_ssid'' then map_option fst saved
         else if k = cs ''last_password'' then map_option snd saved else None),
       fl_ints = (\<lambda>n k. None), fl_open = (\<lambda>h. None), fl_rest = [], web_pages = []\<rparr>\<rparr>"

lemma web_start [simp]:
  "env_nvs web_env = flash_nvs" "env_wifi web_env = log_wifi" "nvs_flash_init flash_nvs w = (0, w)" "well_typed fl_strs fl_ints (world (web_device0 saved))"
  "counter_of (settings_of fl_strs fl_ints (world (web_device0 saved))) = 0" "actual_ssid (web_device0 saved) = replicate 33 0" "actual_password (web_device0 saved) = replicate 64 0"
  "fl_strs (world (web_device0 saved)) WIFI_SETTINGS_STORAGE_NAMESPACE (cs ''last_ssid'') = map_option fst saved"
  "fl_strs (world (web_device0 saved)) WIFI_SETTINGS_STORAGE_NAMESPACE (cs ''last_password'') = map_option snd saved"
  by (simp_all add: web_env_def web_device0_def flash_nvs_def well_typed_def counter_of_def settings_of_def)

theorem app_main_starts_witness:
  "(\<exists>d' pre. app_main web_env (log_http []) (web_device0 None) = Return () d' \<and> counter_of (settings_of fl_strs fl_ints (world d')) = 1 \<and>
      fl_rest (world d') = pre @ [Set_mode WIFI_MODE_AP, Set_config (AP_config default_ap), Start]) \<and>
   (\<exists>d' pre. app_main web_env (log_http []) (web_device0 (Some ([97], [98]))) = Return () d' \<and> counter_of (settings_of fl_strs fl_ints (world d')) = 1 \<and>
      fl_rest (world d') = pre @ [Set_mode WIFI_MODE_STA, Set_config (STA_config
        \<lparr>sta_ssid = 97 # replicate 31 0, sta_password = 98 # replicate 63 0, sta_bssid_set = False, sta_channel = 1\<rparr>), Start]) \<and>
   app_main web_env (log_http []) (web_device0 (Some (replicate 32 97, [98]))) = Undefined"
proof -
  note start = app_main_starts [OF web.web_device_axioms [of "[]"] web_start(1,2,6,7) disjI1 [OF web_start(3)] web_start(4)]
  show ?thesis using start [of None None] start [of "Some ([97], [98])" "Some ([97], [98])"] start [of "Some (replicate 32 97, [98])" "Some (replicate 32 97, [98])"]
    by auto
qed

end
