(* ===== verification/ClientInvariant.thy ===== *)
theory ClientInvariant
  imports CayenneClient
begin

text \<open>
  The shape of the clients.  The MQTT client works in two buffers whose sizes it is told once, numbers its packets, and has a table of handlers; the Cayenne client adds
  another table.  No operation changes a size, whatever the operating system delivers and the handlers do: the buffers stay as long as the code believes them to be, and
  packet numbers stay in the range of the protocol.
\<close>

section \<open>Writers keep the length of their buffer\<close>

named_theorems keeps_length

lemma wr_length [keeps_length]: "wr b i x = Some b' \<Longrightarrow> length b' = length b"
  by (auto simp: wr_def split: if_splits)

lemma emit_length [keeps_length]: "emit xs cur = Some cur' \<Longrightarrow> length (fst cur') = length (fst cur)"
  by (cases cur; cases cur') (auto dest: emit_SomeD)

lemma writeChar_length [keeps_length]: "writeChar cur x = Some cur' \<Longrightarrow> length (fst cur') = length (fst cur)"
  by (auto simp: writeChar_def split: prod.splits bind_splits dest: wr_length)

lemma writeInt_length [keeps_length]: "writeInt cur n = Some cur' \<Longrightarrow> length (fst cur') = length (fst cur)"
  by (auto simp: writeInt_def split: bind_splits dest!: writeChar_length)

lemma writeCString_length [keeps_length]: "writeCString cur s = Some cur' \<Longrightarrow> length (fst cur') = length (fst cur)"
  by (auto simp: writeCString_def split: bind_splits dest!: writeInt_length emit_length)

lemma writeMQTTString_length [keeps_length]: "writeMQTTString cur s = Some cur' \<Longrightarrow> length (fst cur') = length (fst cur)"
  by (auto simp: writeMQTTString_def split: bind_splits if_splits option.splits dest!: writeInt_length emit_length writeCString_length)

lemma encode_loop_length: "MQTTPacket_encode_loop b off len rc = Some (b', n) \<Longrightarrow> length b' = length b"
  by (induction b off len rc rule: MQTTPacket_encode_loop.induct)
     (subst (asm) (2) MQTTPacket_encode_loop.simps, auto simp: Let_def split: option.splits if_splits dest: wr_length)

lemma encode_length [keeps_length]: "MQTTPacket_encode b off len = Some (b', n) \<Longrightarrow> length b' = length b"
  using encode_loop_length by (auto simp: MQTTPacket_encode_def)

lemma encodeAt_length [keeps_length]: "encodeAt cur n = Some cur' \<Longrightarrow> length (fst cur') = length (fst cur)"
  by (auto simp: encodeAt_def split: bind_splits dest: encode_length)

lemma zero_length [keeps_length]: "MQTTSerialize_zero b n t = Some (len, b') \<Longrightarrow> length b' = length b"
  by (auto simp: MQTTSerialize_zero_def split: bind_splits if_splits dest!: keeps_length)

lemma ack_length [keeps_length]: "MQTTSerialize_ack b n t d i = Some (len, b') \<Longrightarrow> length b' = length b"
  by (auto simp: MQTTSerialize_ack_def split: bind_splits if_splits dest!: keeps_length)

lemma publish_length [keeps_length]: "MQTTSerialize_publish b n d q r i t p l = Some (len, b') \<Longrightarrow> length b' = length b"
  by (auto simp: MQTTSerialize_publish_def Let_def split: bind_splits if_splits dest!: keeps_length)

lemma connect_length [keeps_length]: "MQTTSerialize_connect b n opts = Some (len, b') \<Longrightarrow> length b' = length b"
  by (auto simp: MQTTSerialize_connect_def Let_def split: bind_splits if_splits dest!: keeps_length)

lemma subscribe_loop_length [keeps_length]: "subscribe_topics_loop k i ts qs cur = Some cur' \<Longrightarrow> length (fst cur') = length (fst cur)"
  by (induction k i ts qs cur rule: subscribe_topics_loop.induct) (auto split: bind_splits if_splits dest!: writeMQTTString_length writeChar_length)

lemma unsubscribe_loop_length [keeps_length]: "unsubscribe_topics_loop k i ts cur = Some cur' \<Longrightarrow> length (fst cur') = length (fst cur)"
  by (induction k i ts cur rule: unsubscribe_topics_loop.induct) (auto split: bind_splits if_splits dest!: writeMQTTString_length)

lemma subscribe_length [keeps_length]: "MQTTSerialize_subscribe b n d i k ts qs = Some (len, b') \<Longrightarrow> length b' = length b"
  by (auto simp: MQTTSerialize_subscribe_def split: bind_splits if_splits dest!: keeps_length)

lemma unsubscribe_length [keeps_length]: "MQTTSerialize_unsubscribe b n d i k ts = Some (len, b') \<Longrightarrow> length b' = length b"
  by (auto simp: MQTTSerialize_unsubscribe_def split: bind_splits if_splits dest!: keeps_length)

lemma read_loop_length:
  assumes run: "esp32_read_loop os net b off len k w = Some y"
  shows "length (fst (snd y)) = length b"
proof (rule esp32_read_loop.raw_induct [of "\<lambda>os net b off len k w y. length (fst (snd y)) = length b", OF _ run], goal_cases)
  case (1 loop os net b off len k w y)
  note IH = 1(1)
  show "length (fst (snd y)) = length b"
    using 1(2) by (auto simp: Let_def split: if_splits prod.splits bind_splits dest!: IH store_at_SomeD)
qed

lemma read_length [keeps_length]: "esp32_read os net b off len t w = Some (rc, b', net', w') \<Longrightarrow> length b' = length b"
  by (auto simp: esp32_read_def dest: read_loop_length)

section \<open>The MQTT client\<close>

text \<open>The sizes of a client, and the range of its packet number.\<close>

definition shaped :: "int \<times> int \<times> nat \<times> nat \<times> nat \<Rightarrow> 'h MQTTClient \<Rightarrow> bool" where
  "shaped \<sigma> c \<longleftrightarrow> \<sigma> = (buf_size c, readbuf_size c, length (buf c), length (readbuf c), length (messageHandlers c)) \<and>
     1 \<le> next_packetid c \<and> next_packetid c \<le> 65535"

lemma shaped_control [simp]:
  "shaped \<sigma> (c\<lparr>ipstack := n\<rparr>) = shaped \<sigma> c" "shaped \<sigma> (c\<lparr>ping_timer := t\<rparr>) = shaped \<sigma> c" "shaped \<sigma> (c\<lparr>last_received_timer := t\<rparr>) = shaped \<sigma> c"
  "shaped \<sigma> (c\<lparr>ping_response_timer := t\<rparr>) = shaped \<sigma> c" "shaped \<sigma> (c\<lparr>ping_outstanding := p\<rparr>) = shaped \<sigma> c" "shaped \<sigma> (c\<lparr>isconnected := p\<rparr>) = shaped \<sigma> c"
  "shaped \<sigma> (c\<lparr>connAckReceived := p\<rparr>) = shaped \<sigma> c" "shaped \<sigma> (c\<lparr>subAckReceived := p\<rparr>) = shaped \<sigma> c" "shaped \<sigma> (c\<lparr>unsubAckReceived := p\<rparr>) = shaped \<sigma> c"
  "shaped \<sigma> (c\<lparr>pubAckReceived := p\<rparr>) = shaped \<sigma> c" "shaped \<sigma> (c\<lparr>pubCompReceived := p\<rparr>) = shaped \<sigma> c" "shaped \<sigma> (c\<lparr>keepAliveInterval := i\<rparr>) = shaped \<sigma> c"
  by (simp_all add: shaped_def)

lemma shaped_buffers:
  "length b = length (buf c) \<Longrightarrow> shaped \<sigma> (c\<lparr>buf := b\<rparr>) = shaped \<sigma> c"
  "length b = length (readbuf c) \<Longrightarrow> shaped \<sigma> (c\<lparr>readbuf := b\<rparr>) = shaped \<sigma> c"
  "length hs = length (messageHandlers c) \<Longrightarrow> shaped \<sigma> (c\<lparr>messageHandlers := hs\<rparr>) = shaped \<sigma> c"
  by (simp_all add: shaped_def)

lemma getNextPacketId_shaped: "shaped \<sigma> c \<Longrightarrow> getNextPacketId c = (i, c') \<Longrightarrow> shaped \<sigma> c' \<and> 1 \<le> i \<and> i \<le> 65535"
  by (auto simp: getNextPacketId_def shaped_def Let_def MAX_PACKET_ID_def split: if_splits)

named_theorems keeps_shape

lemma sendPacket_loop_shaped:
  assumes run: "sendPacket_loop os c len t sent w = Some y" and "shaped \<sigma> c"
  shows "shaped \<sigma> (fst (snd y))"
proof -
  have "shaped \<sigma> c \<longrightarrow> shaped \<sigma> (fst (snd y))"
  proof (rule sendPacket_loop.raw_induct [of "\<lambda>os c len t sent w y. shaped \<sigma> c \<longrightarrow> shaped \<sigma> (fst (snd y))", OF _ run], goal_cases)
    case (1 loop os c len t sent w y)
    note IH = 1(1)
    show ?case using 1(2) by (auto simp: Let_def split: if_splits prod.splits bind_splits dest!: IH)
  qed
  then show ?thesis using assms(2) by simp
qed

lemma sendPacket_shaped [keeps_shape]: "sendPacket os c len t w = Some (r, c', w') \<Longrightarrow> shaped \<sigma> c \<Longrightarrow> shaped \<sigma> c'"
  by (auto simp: sendPacket_def split: bind_splits if_splits prod.splits dest: sendPacket_loop_shaped)

lemma mqttread_shaped [keeps_shape]: "mqttread os c off len t w = Some (r, c', w') \<Longrightarrow> shaped \<sigma> c \<Longrightarrow> shaped \<sigma> c'"
  by (auto simp: mqttread_def shaped_def split: bind_splits dest!: read_length)

lemma decodePacket_loop_shaped: "decodePacket_loop os c t len m v w = Some (n, r, c', w') \<Longrightarrow> shaped \<sigma> c \<Longrightarrow> shaped \<sigma> c'"
  by (induction os c t len m v w rule: decodePacket_loop.induct)
     (subst (asm) (2) decodePacket_loop.simps, auto simp: Let_def split: option.splits if_splits list.splits prod.splits)

lemma decodePacket_shaped [keeps_shape]: "decodePacket os c t w = Some (n, r, c', w') \<Longrightarrow> shaped \<sigma> c \<Longrightarrow> shaped \<sigma> c'"
  unfolding decodePacket_def by (rule decodePacket_loop_shaped)

lemma readPacket_body_shaped [keeps_shape]: "readPacket_body os c t len n w = Some (r, c', w') \<Longrightarrow> shaped \<sigma> c \<Longrightarrow> shaped \<sigma> c'"
  by (auto simp: readPacket_body_def Let_def split: bind_splits if_splits prod.splits dest: mqttread_shaped)

lemma readPacket_shaped [keeps_shape]:
  assumes "readPacket os c t w = Some (r, c', w')" and "shaped \<sigma> c"
  shows "shaped \<sigma> c'"
proof -
  obtain l1 v1 r1 c1 w1 where 1: "left_ms os t w = (l1, v1)" "mqttread os c 0 1 l1 v1 = Some (r1, c1, w1)"
      and rest: "(if r1 \<noteq> 1 then Some (MQTT_FAILURE, c1, w1) else let (l, v) = left_ms os t w1 in
        do { (_, m, c, w) \<leftarrow> decodePacket os c1 l v; (b, n) \<leftarrow> MQTTPacket_encode (readbuf c) 1 m;
             readPacket_body os (c\<lparr>readbuf := b\<rparr>) t (1 + n) m w }) = Some (r, c', w')"
    using assms(1) unfolding readPacket_def by (auto simp: split: prod.splits bind_splits)
  have s1: "shaped \<sigma> c1" using mqttread_shaped [OF 1(2) assms(2)] .
  show ?thesis
  proof (cases "r1 = 1")
    case True
    then obtain l v n m c2 w2 b k where "decodePacket os c1 l v = Some (n, m, c2, w2)" and b: "MQTTPacket_encode (readbuf c2) 1 m = Some (b, k)"
        and body: "readPacket_body os (c2\<lparr>readbuf := b\<rparr>) t (1 + k) m w2 = Some (r, c', w')"
      using rest by (auto split: prod.splits bind_splits)
    then have "shaped \<sigma> (c2\<lparr>readbuf := b\<rparr>)" using decodePacket_shaped s1 encode_length [OF b] by (metis shaped_buffers(2))
    then show ?thesis using readPacket_body_shaped [OF body] by simp
  qed (use rest s1 in auto)
qed

text \<open>A message whose topic and payload lie in a buffer of \<open>n\<close> bytes.\<close>

definition inside :: "nat \<Rightarrow> MessageData \<Rightarrow> bool" where
  "inside n md \<longleftrightarrow> (\<forall>d. lenstring_data (fst md) = Some d \<longrightarrow> length d \<le> n) \<and> (\<forall>p. msg_payload (snd md) = Some p \<longrightarrow> length p \<le> n)"

lemma readInt_buffer: "readInt cur = Some (n, cur') \<Longrightarrow> fst cur' = fst cur"
  by (cases cur) (auto simp: readInt_def split: bind_splits)

lemma publish_topic_inside:
  assumes "MQTTDeserialize_publish publish_uninit b = Some (r, out)"
  shows "\<forall>d. lenstring_data (po_topicName out) = Some d \<longrightarrow> length d \<le> length b"
proof -
  have "\<forall>d. lenstring_data s = Some d \<longrightarrow> length d \<le> length b"
    if "readMQTTLenString MQTTString_initializer (b, p) e = Some (ok, s, cur)" for p e ok s cur
    using that by (auto simp: readMQTTLenString_def MQTTString_initializer_def Let_def split: if_splits bind_splits dest!: readInt_buffer)
  then show ?thesis using assms
    by (fastforce simp: MQTTDeserialize_publish_def publish_uninit_def MQTTString_initializer_def readChar_def Let_def split: bind_splits if_splits prod.splits)
qed

text \<open>
  The contract of the application's handlers: given a message in the read buffer, they may use the client but keep its shape.  Every operation then keeps it.
\<close>

locale client_handlers =
  fixes call :: "('h, 'w) caller"
  assumes call_shaped: "call h md c w = Some (c', w') \<Longrightarrow> inside (length (readbuf c)) md \<Longrightarrow> shaped \<sigma> c \<Longrightarrow> shaped \<sigma> c'"
begin

lemma call_inside:
  assumes "call h md c w = Some (c', w')" and "inside (length (readbuf c)) md" and "shaped \<sigma> c"
  shows "shaped \<sigma> c' \<and> inside (length (readbuf c')) md"
  using call_shaped [OF assms] assms(2,3) by (auto simp: shaped_def)

lemma deliver_loop_shaped:
  "deliver_loop call md k i r c w = Some (r', c', w') \<Longrightarrow> inside (length (readbuf c)) md \<Longrightarrow> shaped \<sigma> c \<Longrightarrow>
     shaped \<sigma> c' \<and> inside (length (readbuf c')) md"
proof (induction k arbitrary: i r c w)
  case (Suc k)
  then show ?case by (auto split: if_splits prod.splits option.splits bind_splits dest: call_inside)
qed simp

lemma deliverMessage_shaped:
  assumes "deliverMessage call c topic msg w = Some (r, c', w')" and "inside (length (readbuf c)) (topic, msg)" and "shaped \<sigma> c"
  shows "shaped \<sigma> c'"
  using assms by (auto simp: deliverMessage_def NewMessageData_def split: bind_splits option.splits if_splits dest!: deliver_loop_shaped dest: call_inside)

lemma keepalive_shaped: "keepalive os c w = Some (r, c', w') \<Longrightarrow> shaped \<sigma> c \<Longrightarrow> shaped \<sigma> c'"
  by (auto simp: keepalive_def MQTTSerialize_pingreq_def Let_def shaped_buffers split: if_splits prod.splits bind_splits
      dest!: zero_length sendPacket_shaped [where \<sigma> = \<sigma>])

end

context client_handlers
begin

lemma cycle_publish_shaped:
  assumes "cycle_publish os call c t w = Some (r, l, c', w')" and "shaped \<sigma> c"
  shows "shaped \<sigma> c'"
proof -
  obtain r0 out where p: "MQTTDeserialize_publish publish_uninit (readbuf c) = Some (r0, out)"
    using assms(1) by (auto simp: cycle_publish_def split: bind_splits)
  show ?thesis
  proof (cases "r0 = 1")
    case True
    have d: "shaped \<sigma> c1" if "deliverMessage call c (po_topicName out) \<lparr>msg_qos = q, msg_retained = rt, msg_dup = d, msg_id = n,
        msg_payload = map_option (\<lambda>p. drop p (readbuf c)) pl, msg_payloadlen = ln\<rparr> w = Some (r1, c1, w1)" for q d rt n pl ln r1 c1 w1
      using publish_topic_inside [OF p] by (intro deliverMessage_shaped [OF that _ assms(2)]) (auto simp: inside_def)
    show ?thesis using assms(1) p True unfolding cycle_publish_def
      by (auto simp: shaped_buffers Let_def split: bind_splits if_splits dest!: d ack_length sendPacket_shaped [where \<sigma> = \<sigma>])
  qed (use assms p in \<open>auto simp: cycle_publish_def\<close>)
qed

lemma cycle_pubrec_shaped: "cycle_pubrec os c t w = Some (r, l, c', w') \<Longrightarrow> shaped \<sigma> c \<Longrightarrow> shaped \<sigma> c'"
  by (auto simp: cycle_pubrec_def shaped_buffers Let_def split: bind_splits if_splits dest!: ack_length sendPacket_shaped [where \<sigma> = \<sigma>])

lemma cycle_switch_shaped: "cycle_switch os call p c t w = Some (r, l, c', w') \<Longrightarrow> shaped \<sigma> c \<Longrightarrow> shaped \<sigma> c'"
  by (auto simp: cycle_switch_def split: if_splits dest: cycle_publish_shaped cycle_pubrec_shaped)

lemma cycle_shaped: "cycle os call c t w = Some (r, c', w') \<Longrightarrow> shaped \<sigma> c \<Longrightarrow> shaped \<sigma> c'"
  by (auto simp: cycle_def Let_def split: bind_splits if_splits dest!: readPacket_shaped [where \<sigma> = \<sigma>] cycle_switch_shaped [where \<sigma> = \<sigma>] keepalive_shaped [where \<sigma> = \<sigma>])

lemma Yield_loop_shaped:
  assumes run: "MQTTYield_loop os call c t w = Some y" and "shaped \<sigma> c"
  shows "shaped \<sigma> (fst (snd y))"
proof -
  have "call' = call \<longrightarrow> shaped \<sigma> c \<longrightarrow> shaped \<sigma> (fst (snd y))" if "MQTTYield_loop os call' c t w = Some y" for call' os c t w y
  proof (rule MQTTYield_loop.raw_induct [of "\<lambda>os call' c t w y. call' = call \<longrightarrow> shaped \<sigma> c \<longrightarrow> shaped \<sigma> (fst (snd y))", OF _ that], goal_cases)
    case (1 loop os call' c t w y)
    note IH = 1(1)
    show ?case using 1(2) by (auto split: if_splits prod.splits bind_splits dest!: IH dest: cycle_shaped)
  qed
  then show ?thesis using assms by blast
qed

lemma Yield_shaped: "MQTTYield os call c ms w = Some (r, c', w') \<Longrightarrow> shaped \<sigma> c \<Longrightarrow> shaped \<sigma> c'"
  by (auto simp: MQTTYield_def split: prod.splits dest: Yield_loop_shaped)

lemma clear_ack_shaped [simp]: "shaped \<sigma> (clear_ack p c) = shaped \<sigma> c"
  by (simp add: clear_ack_def)

lemma waitfor_loop_shaped:
  assumes run: "waitfor_loop os call c p t w = Some y" and "shaped \<sigma> c"
  shows "shaped \<sigma> (fst (snd y))"
proof -
  have "call' = call \<longrightarrow> shaped \<sigma> c \<longrightarrow> shaped \<sigma> (fst (snd y))" if "waitfor_loop os call' c p t w = Some y" for call' os c p t w y
  proof (rule waitfor_loop.raw_induct [of "\<lambda>os call' c p t w y. call' = call \<longrightarrow> shaped \<sigma> c \<longrightarrow> shaped \<sigma> (fst (snd y))", OF _ that], goal_cases)
    case (1 loop os call' c p t w y)
    note IH = 1(1)
    show ?case using 1(2) by (auto split: if_splits prod.splits bind_splits dest!: IH dest: cycle_shaped)
  qed
  then show ?thesis using assms by blast
qed

lemma waitfor_shaped: "waitfor os call c p t w = Some (r, c', w') \<Longrightarrow> shaped \<sigma> c \<Longrightarrow> shaped \<sigma> c'"
  using waitfor_loop_shaped [of os "clear_ack p c" p t w "(r, c', w')"] by (simp add: waitfor_def)

end

lemma register_handler_length [keeps_length]: "register_handler f h r hs = (r', hs') \<Longrightarrow> length hs' = length hs"
  by (induction f h r hs arbitrary: r' hs' rule: register_handler.induct) (auto split: if_splits prod.splits)

context client_handlers
begin

lemma connect_exchange_shaped: "connect_exchange os call c opts t w = Some (r, c', w') \<Longrightarrow> shaped \<sigma> c \<Longrightarrow> shaped \<sigma> c'"
  by (auto simp: connect_exchange_def Let_def shaped_buffers split: bind_splits if_splits prod.splits dest!: connect_length sendPacket_shaped [where \<sigma> = \<sigma>] waitfor_shaped [where \<sigma> = \<sigma>])

lemma Connect_shaped: "MQTTConnect os call c opts w = Some (r, c', w') \<Longrightarrow> shaped \<sigma> c \<Longrightarrow> shaped \<sigma> c'"
  by (auto simp: MQTTConnect_def Let_def split: bind_splits if_splits prod.splits dest!: connect_exchange_shaped [where \<sigma> = \<sigma>])

lemma publish_wait_shaped: "publish_wait os call c p rc t w = Some (r, c', w') \<Longrightarrow> shaped \<sigma> c \<Longrightarrow> shaped \<sigma> c'"
  by (auto simp: publish_wait_def split: bind_splits if_splits dest: waitfor_shaped)

lemma Disconnect_shaped: "MQTTDisconnect os c w = Some (r, c', w') \<Longrightarrow> shaped \<sigma> c \<Longrightarrow> shaped \<sigma> c'"
  by (auto simp: MQTTDisconnect_def MQTTSerialize_disconnect_def Let_def shaped_buffers split: bind_splits if_splits prod.splits
      dest!: zero_length sendPacket_shaped [where \<sigma> = \<sigma>])

lemma Subscribe_shaped:
  assumes "MQTTSubscribe os call c f q h w = Some (r, c', w')" and "shaped \<sigma> c"
  shows "shaped \<sigma> c'"
proof -
  obtain i c1 where n: "getNextPacketId c = (i, c1)" by force
  have "shaped \<sigma> c1" using getNextPacketId_shaped [OF assms(2) n] by simp
  then show ?thesis using assms
    by (auto simp: MQTTSubscribe_def n Let_def shaped_buffers split: bind_splits if_splits prod.splits
        dest!: subscribe_length register_handler_length sendPacket_shaped [where \<sigma> = \<sigma>] waitfor_shaped [where \<sigma> = \<sigma>])
qed

lemma Unsubscribe_shaped:
  assumes "MQTTUnsubscribe os call c f w = Some (r, c', w')" and "shaped \<sigma> c"
  shows "shaped \<sigma> c'"
proof -
  obtain i c1 where n: "getNextPacketId c = (i, c1)" by force
  have "shaped \<sigma> c1" using getNextPacketId_shaped [OF assms(2) n] by simp
  then show ?thesis using assms
    by (auto simp: MQTTUnsubscribe_def n Let_def shaped_buffers split: bind_splits if_splits prod.splits
        dest!: unsubscribe_length sendPacket_shaped [where \<sigma> = \<sigma>] waitfor_shaped [where \<sigma> = \<sigma>])
qed

lemma Publish_shaped:
  assumes "MQTTPublish os call c topic m w = Some (r, m', c', w')" and "shaped \<sigma> c"
  shows "shaped \<sigma> c'"
proof -
  obtain i c1 where n: "getNextPacketId c = (i, c1)" by force
  have "shaped \<sigma> c1" using getNextPacketId_shaped [OF assms(2) n] by simp
  then show ?thesis using assms
    by (auto simp: MQTTPublish_def n Let_def shaped_buffers split: bind_splits if_splits prod.splits
        dest!: publish_length sendPacket_shaped [where \<sigma> = \<sigma>] publish_wait_shaped [where \<sigma> = \<sigma>])
qed

end

section \<open>The Cayenne client\<close>

lemma ParseTopic_length [keeps_length]: "CayenneParseTopic u t n = Some (r, out, t') \<Longrightarrow> length t' = length t"
  by (auto simp: CayenneParseTopic_def Let_def split: if_splits bind_splits option.splits prod.splits)

lemma parsePayload_loop_length: "parsePayload_loop tk n i p v (vs0, ty0, pl0) = Some (vs, ty, pl) \<Longrightarrow> length pl = length pl0"
proof (induction "length pl0 - i" arbitrary: i p v vs0 ty0 pl0 rule: less_induct)
  case less
  obtain c where c: "rd pl0 i = Some c" using less(2) by (auto simp: parsePayload_loop.simps split: option.splits)
  then have "i < length pl0" by (simp add: rd_def split: if_splits)
  then have IH: "parsePayload_loop tk n (Suc i) p' v' (vs', ty', pl') = Some (vs, ty, pl) \<Longrightarrow> length pl' = length pl0 \<Longrightarrow> length pl = length pl0" for p' v' vs' ty' pl'
    using less(1) [of pl' "Suc i" p' v' vs' ty'] by simp
  show ?case using less(2) c by (auto simp: parsePayload_loop.simps [of tk n i] Let_def split: if_splits dest: IH)
qed

lemma ParsePayload_length [keeps_length]: "CayenneParsePayload vs n t p = Some (r, out, p') \<Longrightarrow> length p' = length p"
  by (auto simp: CayenneParsePayload_def parsePayload_def Let_def split: if_splits bind_splits dest!: parsePayload_loop_length)

lemma MessageArrived_shaped:
  assumes run: "MQTTMessageArrived app client md c w = Some (c', w')" and ins: "inside (length (readbuf c)) md" and sh: "shaped \<sigma> c"
  shows "shaped \<sigma> c'"
proof -
  obtain u d r pt d' where d: "lenstring_data (fst md) = Some d" "CayenneParseTopic u d (lenstring_len (fst md)) = Some (r, pt, d')" "cy_username client = Some u"
    using run by (auto simp: MQTTMessageArrived_def Let_def split: bind_splits)
  define b where "b = take (length (readbuf c) - length d) (readbuf c) @ d'"
  have len: "length b = length (readbuf c)"
    using ins d(1) ParseTopic_length [OF d(2)] by (auto simp: b_def inside_def)
  have "c' = c\<lparr>readbuf := readbuf c'\<rparr> \<and> length (readbuf c') = length (readbuf c)"
    using run d ins len by (auto simp: MQTTMessageArrived_def b_def [symmetric] inside_def Let_def split: if_splits bind_splits option.splits
        dest!: wr_length ParsePayload_length)
  then show ?thesis using sh by (metis shaped_buffers(2))
qed

interpretation cayenne: client_handlers "arrived app client"
  by unfold_locales (auto simp: arrived_def split: if_splits dest: MessageArrived_shaped)

text \<open>The Cayenne client keeps the shape of the MQTT client in it and the length of its own table.\<close>

definition cy_shaped :: "int \<times> int \<times> nat \<times> nat \<times> nat \<Rightarrow> nat \<Rightarrow> 'f CayenneMQTTClient \<Rightarrow> bool" where
  "cy_shaped \<sigma> n client \<longleftrightarrow> shaped \<sigma> (cy_mqttClient client) \<and> length (cy_messageHandlers client) = n"

lemma lift_shaped:
  assumes "lift_mqtt client res = Some (r, client', w')" and "\<And>r c w. res = Some (r, c, w) \<Longrightarrow> shaped \<sigma> c" and "cy_shaped \<sigma> n client"
  shows "cy_shaped \<sigma> n client'"
  using assms by (auto simp: lift_mqtt_def cy_shaped_def split: bind_splits)

lemma cy_Connect_shaped: "CayenneMQTTConnect os app client w = Some (r, client', w') \<Longrightarrow> cy_shaped \<sigma> n client \<Longrightarrow> cy_shaped \<sigma> n client'"
  unfolding CayenneMQTTConnect_def by (erule lift_shaped) (auto simp: cy_shaped_def dest: cayenne.Connect_shaped)

lemma cy_Disconnect_shaped: "CayenneMQTTDisconnect os client w = Some (r, client', w') \<Longrightarrow> cy_shaped \<sigma> n client \<Longrightarrow> cy_shaped \<sigma> n client'"
  unfolding CayenneMQTTDisconnect_def by (erule lift_shaped) (auto simp: cy_shaped_def dest: cayenne.Disconnect_shaped)

lemma cy_Yield_shaped: "CayenneMQTTYield os app client t w = Some (r, client', w') \<Longrightarrow> cy_shaped \<sigma> n client \<Longrightarrow> cy_shaped \<sigma> n client'"
  unfolding CayenneMQTTYield_def by (erule lift_shaped) (auto simp: cy_shaped_def dest: cayenne.Yield_shaped)

lemma publish_built_shaped:
  "publish_built os app client topic ch cid build q rt w = Some (r, client', w') \<Longrightarrow> cy_shaped \<sigma> n client \<Longrightarrow> cy_shaped \<sigma> n client'"
  by (auto simp: publish_built_def cy_shaped_def Let_def split: bind_splits if_splits dest!: cayenne.Publish_shaped [where \<sigma> = \<sigma>])

lemma cy_PublishDataArray_shaped:
  "CayenneMQTTPublishDataArray os app client cid topic ch ty vs k w = Some (r, client', w') \<Longrightarrow> cy_shaped \<sigma> n client \<Longrightarrow> cy_shaped \<sigma> n client'"
  unfolding CayenneMQTTPublishDataArray_def by (rule publish_built_shaped)

lemma cy_PublishResponse_shaped:
  "CayenneMQTTPublishResponse os app client cid i e w = Some (r, client', w') \<Longrightarrow> cy_shaped \<sigma> n client \<Longrightarrow> cy_shaped \<sigma> n client'"
  unfolding CayenneMQTTPublishResponse_def by (rule publish_built_shaped)

lemma cy_register_length [simp]: "length (cy_register h hs) = length hs"
  by (induction h hs rule: cy_register.induct) auto

lemma cy_unregister_length: "cy_unregister cid t ch hs = Some hs' \<Longrightarrow> length hs' = length hs"
  by (induction hs arbitrary: hs') (auto split: bind_splits)

lemma cy_Subscribe_shaped:
  assumes "CayenneMQTTSubscribe os app client cid topic ch h w = Some (r, client', w')" and "cy_shaped \<sigma> n client"
  shows "cy_shaped \<sigma> n client'"
proof -
  have "cy_shaped \<sigma> n client1" if "lift_mqtt client (MQTTSubscribe os (arrived app client) (cy_mqttClient client) f 0 None w) = Some (r, client1, w1)" for f r client1 w1
    by (rule lift_shaped [OF that _ assms(2)]) (use assms(2) in \<open>auto simp: cy_shaped_def dest: cayenne.Subscribe_shaped\<close>)
  then show ?thesis using assms by (fastforce simp: CayenneMQTTSubscribe_def cy_shaped_def Let_def split: bind_splits if_splits)
qed

lemma cy_Unsubscribe_shaped:
  assumes "CayenneMQTTUnsubscribe os app client cid topic ch w = Some (r, client', w')" and "cy_shaped \<sigma> n client"
  shows "cy_shaped \<sigma> n client'"
proof -
  have "cy_shaped \<sigma> n client1" if "lift_mqtt client (MQTTUnsubscribe os (arrived app client) (cy_mqttClient client) f w) = Some (r, client1, w1)" for f r client1 w1
    by (rule lift_shaped [OF that _ assms(2)]) (use assms(2) in \<open>auto simp: cy_shaped_def dest: cayenne.Unsubscribe_shaped\<close>)
  then show ?thesis using assms by (fastforce simp: CayenneMQTTUnsubscribe_def cy_shaped_def Let_def split: bind_splits if_splits dest: cy_unregister_length)
qed

lemma set_network_shaped [simp]: "cy_shaped \<sigma> n (set_network net client) = cy_shaped \<sigma> n client"
  by (simp add: set_network_def cy_shaped_def)

lemma connectClient_shaped: "connectClient os app client w = Some (r, client', w') \<Longrightarrow> cy_shaped \<sigma> n client \<Longrightarrow> cy_shaped \<sigma> n client'"
  by (auto simp: connectClient_def CayenneMQTTPublishData_def Let_def split: bind_splits if_splits prod.splits
      dest!: cy_Connect_shaped [where \<sigma> = \<sigma> and n = n] cy_PublishDataArray_shaped [where \<sigma> = \<sigma> and n = n])

section \<open>Every state that the Cayenne client can reach\<close>

text \<open>
  The operations of the Cayenne client and the firmware's connection, in any order, with whatever results; between them other tasks and the platform may change the world.
  The remaining publishing functions are \<open>CayenneMQTTPublishDataArray\<close> on a list they build.
\<close>

inductive cayenne_step :: "'w os \<Rightarrow> ('f, 'w) app \<Rightarrow> 'f CayenneMQTTClient \<times> 'w \<Rightarrow> 'f CayenneMQTTClient \<times> 'w \<Rightarrow> bool" for os app where
  connect: "CayenneMQTTConnect os app client w = Some (r, client', w') \<Longrightarrow> cayenne_step os app (client, w) (client', w')"
| publish_data: "CayenneMQTTPublishDataArray os app client cid topic ch ty vs k w = Some (r, client', w') \<Longrightarrow> cayenne_step os app (client, w) (client', w')"
| publish_response: "CayenneMQTTPublishResponse os app client cid i e w = Some (r, client', w') \<Longrightarrow> cayenne_step os app (client, w) (client', w')"
| subscribe: "CayenneMQTTSubscribe os app client cid topic ch h w = Some (r, client', w') \<Longrightarrow> cayenne_step os app (client, w) (client', w')"
| unsubscribe: "CayenneMQTTUnsubscribe os app client cid topic ch w = Some (r, client', w') \<Longrightarrow> cayenne_step os app (client, w) (client', w')"
| yield: "CayenneMQTTYield os app client t w = Some (r, client', w') \<Longrightarrow> cayenne_step os app (client, w) (client', w')"
| disconnect: "CayenneMQTTDisconnect os client w = Some (r, client', w') \<Longrightarrow> cayenne_step os app (client, w) (client', w')"
| open_connection: "connectClient os app client w = Some (r, client', w') \<Longrightarrow> cayenne_step os app (client, w) (client', w')"
| platform: "cayenne_step os app (client, w) (client, w')"

lemmas cy_shaped_ops = cy_Connect_shaped cy_PublishDataArray_shaped cy_PublishResponse_shaped cy_Subscribe_shaped cy_Unsubscribe_shaped cy_Yield_shaped
  cy_Disconnect_shaped connectClient_shaped

lemma cayenne_step_shaped: "cayenne_step os app s t \<Longrightarrow> cy_shaped \<sigma> n (fst s) \<Longrightarrow> cy_shaped \<sigma> n (fst t)"
  by (induction rule: cayenne_step.induct) (simp_all, (erule (1) cy_shaped_ops)+)

lemma cayenne_steps_shaped: "(cayenne_step os app)\<^sup>*\<^sup>* s t \<Longrightarrow> cy_shaped \<sigma> n (fst s) \<Longrightarrow> cy_shaped \<sigma> n (fst t)"
  by (induction rule: rtranclp_induct) (auto dest: cayenne_step_shaped)

lemma ClientInit_shaped:
  "cy_shaped (int CAYENNE_MAX_MESSAGE_SIZE, int CAYENNE_MAX_MESSAGE_SIZE, length (cy_sendbuf c), length (cy_readbuf c), length (messageHandlers (cy_mqttClient c)))
     CAYENNE_MAX_MESSAGE_HANDLERS (CayenneMQTTClientInit c net u p cid h)"
  by (simp add: CayenneMQTTClientInit_def MQTTClientInit_def cy_shaped_def shaped_def Let_def)


definition fresh_client :: "unit CayenneMQTTClient" where
  "fresh_client = \<lparr>cy_mqttClient = client0\<lparr>messageHandlers := replicate 5 (None, None)\<rparr>, cy_username = None, cy_password = None, cy_clientID = None,
     cy_sendbuf = replicate 135 0, cy_readbuf = replicate 135 0, cy_messageHandlers = [], cy_defaultMessageHandler = None\<rparr>"

text \<open>Over a working link \<open>MQTTDisconnect\<close> sends the two bytes of the packet, connected or not.\<close>

context mqtt_link
begin

lemma Disconnect_ok:
  assumes "1000 \<le> command_timeout_ms c" and "2 \<le> buf_size c" and "2 \<le> length (buf c)"
  shows "\<exists>c' w'. MQTTDisconnect os c w = Some (0, c', w') \<and> \<not> isconnected c' \<and> inbox w' = inbox w \<and> outbox w' = outbox w @ [224, 0]"
proof -
  obtain t w1 where t: "countdown_ms os (command_timeout_ms c) w = (t, w1)" "live t" "inbox w1 = inbox w" "outbox w1 = outbox w"
    using countdown_ms_live assms(1) by blast
  obtain b where b: "MQTTSerialize_disconnect (buf c) (buf_size c) = Some (2, b)" "take 2 b = [224, 0]" "length b = length (buf c)"
    using assms(2,3) serialize_zero_emit [of "buf_size c" "buf c" 14]
    by (auto simp: MQTTSerialize_disconnect_def written_emit header_byte_def put_def)
  then show ?thesis using sendPacket_ok [OF t(2), of 2 "c\<lparr>buf := b\<rparr>" w1] t assms(3) by (auto simp: MQTTDisconnect_def)
qed

end


end
