(* ===== verification/OsiList.thy ===== *)
theory OsiList
  imports CPrelude
begin

text \<open>
  \<^verbatim>\<open>components/bt/bluedroid/osi/list.c\<close>: the linked list of the Bluetooth host, on a heap of nodes.

  A pointer is a word of 32 bits and 0 is NULL.  The heap maps the addresses of allocated nodes to their contents; an access through a pointer that is NULL or
  not allocated is undefined (\<open>None\<close>), and so is a loop that does not end.  The host's \<open>assert\<close> only prints (\<^verbatim>\<open>bt_trace.h\<close>), so it does not appear.
  The allocator is a parameter: \<open>alloc\<close> gives the address of the next object, or \<open>None\<close> when the memory is used up.  A \<open>list_t\<close> is used through
  one pointer only and is a value here; the data of a node are of any type, and \<open>'w\<close> is the rest of the memory, on which \<open>free_cb\<close> acts.
\<close>

section \<open>Data\<close>

type_synonym ptr = "32 word"

record 'd list_node_t =
  ln_next :: ptr
  ln_data :: 'd

record ('d, 'w) store =
  nodes :: "ptr \<rightharpoonup> 'd list_node_t"
  rest :: 'w

record ('d, 'w) list_t =
  lt_head :: ptr
  lt_tail :: ptr
  lt_length :: "32 word"
  lt_free_cb :: "('d \<Rightarrow> 'w \<Rightarrow> 'w option) option"

type_synonym ('d, 'w) allocator = "('d, 'w) store \<Rightarrow> ptr option"

text \<open>The node at an address, and the two ways to write one.\<close>

definition node_at :: "('d, 'w) store \<Rightarrow> ptr \<Rightarrow> 'd list_node_t option" where
  "node_at s p = (if p = 0 then None else nodes s p)"

definition new_node :: "ptr \<Rightarrow> ptr \<Rightarrow> 'd \<Rightarrow> ('d, 'w) store \<Rightarrow> ('d, 'w) store" where
  "new_node a next d s = s\<lparr>nodes := (nodes s)(a \<mapsto> \<lparr>ln_next = next, ln_data = d\<rparr>)\<rparr>"

definition set_next :: "('d, 'w) store \<Rightarrow> ptr \<Rightarrow> ptr \<Rightarrow> ('d, 'w) store option" where
  "set_next s p next = do { n \<leftarrow> node_at s p; Some (s\<lparr>nodes := (nodes s)(p \<mapsto> n\<lparr>ln_next := next\<rparr>)\<rparr>) }"

section \<open>Operations\<close>

definition list_new_internal :: "('d \<Rightarrow> 'w \<Rightarrow> 'w option) option \<Rightarrow> ('d, 'w) allocator \<Rightarrow> ('d, 'w) store \<Rightarrow> ('d, 'w) list_t option" where
  "list_new_internal callback alloc s = (case alloc s of None \<Rightarrow> None
     | Some _ \<Rightarrow> Some \<lparr>lt_head = 0, lt_tail = 0, lt_length = 0, lt_free_cb = callback\<rparr>)"

definition list_is_empty :: "('d, 'w) list_t \<Rightarrow> bool" where
  "list_is_empty l \<longleftrightarrow> lt_length l = 0"

definition list_length :: "('d, 'w) list_t \<Rightarrow> 32 word" where
  "list_length l = lt_length l"

definition list_begin :: "('d, 'w) list_t \<Rightarrow> ptr" where "list_begin l = lt_head l"

definition list_end :: "('d, 'w) list_t \<Rightarrow> ptr" where "list_end l = 0"

definition list_next :: "('d, 'w) store \<Rightarrow> ptr \<Rightarrow> ptr option" where
  "list_next s p = map_option ln_next (node_at s p)"

definition list_node :: "('d, 'w) store \<Rightarrow> ptr \<Rightarrow> 'd option" where
  "list_node s p = map_option ln_data (node_at s p)"

partial_function (option) contains_loop :: "('d, 'w) store \<Rightarrow> ptr \<Rightarrow> ptr \<Rightarrow> 'd \<Rightarrow> bool option" where
  "contains_loop s node end d =
     (if node = end then Some False
      else do { x \<leftarrow> list_node s node; if x = d then Some True else do { next \<leftarrow> list_next s node; contains_loop s next end d } })"

definition list_contains :: "('d, 'w) list_t \<Rightarrow> ('d, 'w) store \<Rightarrow> 'd \<Rightarrow> bool option" where
  "list_contains l s d = contains_loop s (list_begin l) (list_end l) d"

definition list_front :: "('d, 'w) list_t \<Rightarrow> ('d, 'w) store \<Rightarrow> 'd option" where
  "list_front l s = map_option ln_data (node_at s (lt_head l))"

definition list_back :: "('d, 'w) list_t \<Rightarrow> ('d, 'w) store \<Rightarrow> 'd option" where
  "list_back l s = map_option ln_data (node_at s (lt_tail l))"

definition list_back_node :: "('d, 'w) list_t \<Rightarrow> ptr" where "list_back_node l = lt_tail l"

text \<open>The operations below return their result, the list and the memory.\<close>

type_synonym ('r, 'd, 'w) list_result = "('r \<times> ('d, 'w) list_t \<times> ('d, 'w) store) option"

definition list_insert_after :: "('d, 'w) allocator \<Rightarrow> ('d, 'w) list_t \<Rightarrow> ptr \<Rightarrow> 'd \<Rightarrow> ('d, 'w) store \<Rightarrow> (bool, 'd, 'w) list_result" where
  "list_insert_after alloc l prev_node d s = (case alloc s of None \<Rightarrow> Some (False, l, s)
     | Some node \<Rightarrow> do {
         prev \<leftarrow> node_at s prev_node;
         s \<leftarrow> set_next (new_node node (ln_next prev) d s) prev_node node;
         let l = (if lt_tail l = prev_node then l\<lparr>lt_tail := node\<rparr> else l);
         Some (True, l\<lparr>lt_length := lt_length l + 1\<rparr>, s) })"

definition list_prepend :: "('d, 'w) allocator \<Rightarrow> ('d, 'w) list_t \<Rightarrow> 'd \<Rightarrow> ('d, 'w) store \<Rightarrow> (bool, 'd, 'w) list_result" where
  "list_prepend alloc l d s = (case alloc s of None \<Rightarrow> Some (False, l, s)
     | Some node \<Rightarrow> do {
         let s = new_node node (lt_head l) d s;
         let l = l\<lparr>lt_head := node\<rparr>;
         let l = (if lt_tail l = 0 then l\<lparr>lt_tail := lt_head l\<rparr> else l);
         Some (True, l\<lparr>lt_length := lt_length l + 1\<rparr>, s) })"

definition list_append :: "('d, 'w) allocator \<Rightarrow> ('d, 'w) list_t \<Rightarrow> 'd \<Rightarrow> ('d, 'w) store \<Rightarrow> (bool, 'd, 'w) list_result" where
  "list_append alloc l d s = (case alloc s of None \<Rightarrow> Some (False, l, s)
     | Some node \<Rightarrow> do {
         let s = new_node node 0 d s;
         (l, s) \<leftarrow> (if lt_tail l = 0 then Some (l\<lparr>lt_head := node, lt_tail := node\<rparr>, s)
                  else do { s \<leftarrow> set_next s (lt_tail l) node; Some (l\<lparr>lt_tail := node\<rparr>, s) });
         Some (True, l\<lparr>lt_length := lt_length l + 1\<rparr>, s) })"

definition list_free_node :: "('d, 'w) list_t \<Rightarrow> ptr \<Rightarrow> ('d, 'w) store \<Rightarrow> (ptr, 'd, 'w) list_result" where
  "list_free_node l node s = do {
     n \<leftarrow> node_at s node;
     w \<leftarrow> (case lt_free_cb l of None \<Rightarrow> Some (rest s) | Some cb \<Rightarrow> cb (ln_data n) (rest s));
     Some (ln_next n, l\<lparr>lt_length := lt_length l - 1\<rparr>, s\<lparr>nodes := (nodes s)(node := None), rest := w\<rparr>) }"

partial_function (option) remove_loop :: "('d, 'w) list_t \<Rightarrow> ('d, 'w) store \<Rightarrow> ptr \<Rightarrow> ptr \<Rightarrow> 'd \<Rightarrow> (bool, 'd, 'w) list_result" where
  "remove_loop l s prev node d =
     (if node = 0 then Some (False, l, s)
      else do {
        n \<leftarrow> node_at s node;
        if ln_data n = d then do {
          (next, l, s) \<leftarrow> list_free_node l node s;
          s \<leftarrow> set_next s prev next;
          Some (True, if lt_tail l = node then l\<lparr>lt_tail := prev\<rparr> else l, s) }
        else remove_loop l s node (ln_next n) d })"

definition list_remove :: "('d, 'w) list_t \<Rightarrow> 'd \<Rightarrow> ('d, 'w) store \<Rightarrow> (bool, 'd, 'w) list_result" where
  "list_remove l d s =
     (if list_is_empty l then Some (False, l, s)
      else do {
        h \<leftarrow> node_at s (lt_head l);
        if ln_data h = d then do {
          (next, l, s) \<leftarrow> list_free_node l (lt_head l) s;
          let l = (if lt_tail l = lt_head l then l\<lparr>lt_tail := next\<rparr> else l);
          Some (True, l\<lparr>lt_head := next\<rparr>, s) }
        else remove_loop l s (lt_head l) (ln_next h) d })"

partial_function (option) clear_loop :: "('d, 'w) list_t \<Rightarrow> ('d, 'w) store \<Rightarrow> ptr \<Rightarrow> (('d, 'w) list_t \<times> ('d, 'w) store) option" where
  "clear_loop l s node =
     (if node = 0 then Some (l, s) else do { (node, l, s) \<leftarrow> list_free_node l node s; clear_loop l s node })"

definition list_clear :: "('d, 'w) list_t \<Rightarrow> ('d, 'w) store \<Rightarrow> (('d, 'w) list_t \<times> ('d, 'w) store) option" where
  "list_clear l s = do { (l, s) \<leftarrow> clear_loop l s (lt_head l); Some (l\<lparr>lt_head := 0, lt_tail := 0, lt_length := 0\<rparr>, s) }"

text \<open>\<open>list_free\<close> clears the list and frees its header, which is not part of the heap of nodes.\<close>

definition list_free :: "('d, 'w) list_t option \<Rightarrow> ('d, 'w) store \<Rightarrow> ('d, 'w) store option" where
  "list_free l s = (case l of None \<Rightarrow> Some s | Some l \<Rightarrow> map_option snd (list_clear l s))"

partial_function (option) foreach_loop ::
    "('d \<Rightarrow> ('d, 'w) store \<Rightarrow> (bool \<times> ('d, 'w) store) option) \<Rightarrow> ptr \<Rightarrow> ('d, 'w) store \<Rightarrow> (ptr \<times> ('d, 'w) store) option" where
  "foreach_loop callback node s =
     (if node = 0 then Some (0, s)
      else do {
        n \<leftarrow> node_at s node;
        (more, s) \<leftarrow> callback (ln_data n) s;
        if \<not> more then Some (node, s) else foreach_loop callback (ln_next n) s })"

definition list_foreach ::
    "('d, 'w) list_t \<Rightarrow> ('d \<Rightarrow> ('d, 'w) store \<Rightarrow> (bool \<times> ('d, 'w) store) option) \<Rightarrow> ('d, 'w) store \<Rightarrow> (ptr \<times> ('d, 'w) store) option" where
  "list_foreach l callback s = foreach_loop callback (lt_head l) s"

lemmas list_defs = list_begin_def list_end_def list_next_def list_node_def list_is_empty_def list_length_def list_front_def list_back_def node_at_def new_node_def set_next_def

section \<open>Chains of nodes\<close>

text \<open>The nodes from \<open>p\<close> up to the pointer \<open>q\<close>, with their addresses and data.\<close>

fun chain :: "(ptr \<rightharpoonup> 'd list_node_t) \<Rightarrow> ptr \<Rightarrow> (ptr \<times> 'd) list \<Rightarrow> ptr \<Rightarrow> bool" where
  "chain h p [] q \<longleftrightarrow> p = q"
| "chain h p ((a, d) # ns) q \<longleftrightarrow> p = a \<and> a \<noteq> 0 \<and> (\<exists>next. h a = Some \<lparr>ln_next = next, ln_data = d\<rparr> \<and> chain h next ns q)"

definition list_on :: "(ptr \<rightharpoonup> 'd list_node_t) \<Rightarrow> ('d, 'w) list_t \<Rightarrow> (ptr \<times> 'd) list \<Rightarrow> bool" where
  "list_on h l ns \<longleftrightarrow> chain h (lt_head l) ns 0 \<and> distinct (map fst ns) \<and> lt_tail l = (if ns = [] then 0 else fst (last ns)) \<and> lt_length l = of_nat (length ns)"

lemma chain_append: "chain h p (ns @ ms) q \<longleftrightarrow> (\<exists>r. chain h p ns r \<and> chain h r ms q)"
  by (induction h p ns q rule: chain.induct) auto

lemma chain_cong: "(\<And>a. a \<in> fst ` set ns \<Longrightarrow> h a = h' a) \<Longrightarrow> chain h p ns q = chain h' p ns q"
  by (induction h p ns q rule: chain.induct) auto

lemma chain_upd [simp]: "a \<notin> fst ` set ns \<Longrightarrow> chain (h(a := v)) p ns q = chain h p ns q"
  by (rule chain_cong) auto

lemma chain_allocated: "chain h p ns q \<Longrightarrow> (a, d) \<in> set ns \<Longrightarrow> a \<noteq> 0 \<and> (\<exists>next. h a = Some \<lparr>ln_next = next, ln_data = d\<rparr>)"
  by (induction h p ns q rule: chain.induct) auto

lemma chain_fresh: "chain h p ns q \<Longrightarrow> h a = None \<Longrightarrow> a \<notin> fst ` set ns"
  by (auto dest: chain_allocated)

lemma chain_nonnull: "chain h p ns q \<Longrightarrow> 0 \<notin> fst ` set ns"
  by (auto dest: chain_allocated)

lemma chain_null: "chain h 0 ns 0 \<longleftrightarrow> ns = []"
  by (cases ns) auto

lemma chain_node: "chain h p ns 0 \<Longrightarrow> p \<noteq> 0 \<Longrightarrow> \<exists>d next ms. ns = (p, d) # ms \<and> h p = Some \<lparr>ln_next = next, ln_data = d\<rparr> \<and> chain h next ms 0"
  by (cases ns) auto

text \<open>Distinct addresses of 32 bits: a list is shorter than its counter can count.\<close>

lemma distinct_ptrs: "distinct ps \<Longrightarrow> 0 \<notin> set ps \<Longrightarrow> length (ps :: ptr list) < 2 ^ 32"
proof -
  assume ps: "distinct ps" "0 \<notin> set ps"
  have "card (set ps) < card (UNIV :: ptr set)" using ps(2) by (intro psubset_card_mono) auto
  then show ?thesis using distinct_card [OF ps(1)] by (simp add: card_word)
qed

lemma list_on_length: "list_on h l ns \<Longrightarrow> length ns < 2 ^ 32"
  using distinct_ptrs [of "map fst ns"] by (auto simp: list_on_def dest: chain_nonnull)

lemma list_on_empty: "list_on h l ns \<Longrightarrow> list_is_empty l \<longleftrightarrow> ns = []"
  using list_on_length [of h l ns] by (auto simp: list_on_def list_is_empty_def word_of_nat_eq_0_iff dest: nat_dvd_not_less)

lemma list_on_head: "list_on h l ns \<Longrightarrow> lt_head l = (if ns = [] then 0 else fst (hd ns))"
  by (cases ns) (auto simp: list_on_def)

lemma list_on_cong: "(\<And>a. a \<in> fst ` set ns \<Longrightarrow> h a = h' a) \<Longrightarrow> list_on h l ns = list_on h' l ns"
  by (simp add: list_on_def cong: chain_cong)

lemma list_on_dom: "list_on h l ns \<Longrightarrow> fst ` set ns \<subseteq> dom h"
  by (auto simp: list_on_def dest: chain_allocated)

section \<open>Reading\<close>

lemma list_front_on: "list_on (nodes s) l ns \<Longrightarrow> list_front l s = (if ns = [] then None else Some (snd (hd ns)))"
  by (cases ns) (auto simp: list_on_def list_front_def node_at_def)

lemma list_back_on: "list_on (nodes s) l ns \<Longrightarrow> list_back l s = (if ns = [] then None else Some (snd (last ns)))"
  by (cases ns rule: rev_cases) (auto simp: list_on_def list_back_def node_at_def chain_append)

lemma list_length_on: "list_on (nodes s) l ns \<Longrightarrow> unat (list_length l) = length ns"
  using list_on_length [of "nodes s" l ns] by (simp add: list_on_def list_length_def unat_of_nat take_bit_nat_eq_self)

lemma contains_loop_on: "chain (nodes s) p ns 0 \<Longrightarrow> contains_loop s p 0 d = Some (d \<in> snd ` set ns)"
proof (induction ns arbitrary: p)
  case (Cons n ns)
  then show ?case by (cases n) (auto simp: contains_loop.simps [of s p] list_node_def list_next_def node_at_def)
qed (simp add: contains_loop.simps)

lemma list_contains_on: "list_on (nodes s) l ns \<Longrightarrow> list_contains l s d = Some (d \<in> snd ` set ns)"
  by (simp add: list_contains_def list_begin_def list_end_def list_on_def contains_loop_on)

section \<open>Changing\<close>

text \<open>The contract of the allocator: it gives an address that is not NULL and not in use.\<close>

locale fresh_alloc =
  fixes alloc :: "('d, 'w) allocator"
  assumes alloc_fresh: "alloc s = Some a \<Longrightarrow> a \<noteq> 0 \<and> nodes s a = None"
begin

lemma list_new_on: "list_new_internal cb alloc s = Some l \<Longrightarrow> list_on h l [] \<and> lt_free_cb l = cb"
  by (auto simp: list_new_internal_def list_on_def split: option.splits)

lemma list_append_on:
  assumes "list_on (nodes s) l ns" and "alloc s = Some a"
  shows "\<exists>l' s'. list_append alloc l d s = Some (True, l', s') \<and> list_on (nodes s') l' (ns @ [(a, d)]) \<and> lt_free_cb l' = lt_free_cb l \<and> rest s' = rest s \<and>
    (\<forall>p. p \<notin> fst ` set (ns @ [(a, d)]) \<longrightarrow> nodes s' p = nodes s p)"
proof (cases ns rule: rev_cases)
  case Nil
  then show ?thesis using assms alloc_fresh [OF assms(2)] by (auto simp: list_append_def list_on_def new_node_def)
next
  case (snoc ms n)
  obtain t dt where n: "n = (t, dt)" by force
  have t: "t \<noteq> 0" "nodes s t = Some \<lparr>ln_next = 0, ln_data = dt\<rparr>" "chain (nodes s) (lt_head l) ms t" "t \<notin> fst ` set ms" "lt_tail l = t" "distinct (map fst ms)"
    using assms(1) by (auto simp: list_on_def snoc n chain_append)
  have a: "a \<noteq> 0" "a \<noteq> t" "a \<notin> fst ` set ms" using alloc_fresh [OF assms(2)] t by (auto dest: chain_allocated)
  show ?thesis using assms t a by (auto simp: list_append_def list_on_def snoc n new_node_def set_next_def node_at_def chain_append)
qed

lemma list_append_full: "alloc s = None \<Longrightarrow> list_append alloc l d s = Some (False, l, s)"
  by (simp add: list_append_def)

lemma list_prepend_on:
  assumes "list_on (nodes s) l ns" and "alloc s = Some a"
  shows "\<exists>l' s'. list_prepend alloc l d s = Some (True, l', s') \<and> list_on (nodes s') l' ((a, d) # ns) \<and> lt_free_cb l' = lt_free_cb l \<and> rest s' = rest s \<and>
    (\<forall>p. p \<noteq> a \<longrightarrow> nodes s' p = nodes s p)"
proof -
  have a: "a \<noteq> 0" "a \<notin> fst ` set ns" using alloc_fresh [OF assms(2)] assms(1) by (auto simp: list_on_def dest: chain_allocated)
  have "lt_tail l = 0 \<longleftrightarrow> ns = []" using assms(1) by (cases ns rule: rev_cases) (auto simp: list_on_def chain_append)
  then show ?thesis using assms a by (auto simp: list_prepend_def list_on_def new_node_def Let_def)
qed

lemma list_insert_after_on:
  assumes "list_on (nodes s) l (ns @ (p, x) # ms)" and "alloc s = Some a"
  shows "\<exists>l' s'. list_insert_after alloc l p d s = Some (True, l', s') \<and> list_on (nodes s') l' (ns @ (p, x) # (a, d) # ms) \<and> lt_free_cb l' = lt_free_cb l \<and> rest s' = rest s \<and>
    (\<forall>q. q \<notin> {a, p} \<longrightarrow> nodes s' q = nodes s q)"
proof -
  obtain nx where p: "p \<noteq> 0" "nodes s p = Some \<lparr>ln_next = nx, ln_data = x\<rparr>" "chain (nodes s) (lt_head l) ns p" "chain (nodes s) nx ms 0" "p \<notin> fst ` set ns" "p \<notin> fst ` set ms"
      "distinct (map fst (ns @ (p, x) # ms))"
    using assms(1) by (auto simp: list_on_def chain_append)
  have a: "a \<noteq> 0" "a \<noteq> p" "a \<notin> fst ` set ns" "a \<notin> fst ` set ms" using alloc_fresh [OF assms(2)] p by (auto dest: chain_allocated)
  have tl: "lt_tail l = p \<longleftrightarrow> ms = []" using assms(1) p(6) by (cases ms rule: rev_cases) (auto simp: list_on_def)
  show ?thesis using assms p a tl by (auto simp: list_insert_after_def list_on_def new_node_def set_next_def node_at_def chain_append Let_def)
qed

end

text \<open>What \<open>free_cb\<close> does to the rest of the memory.\<close>

definition free_data :: "('d, 'w) list_t \<Rightarrow> 'd \<Rightarrow> 'w \<Rightarrow> 'w option" where
  "free_data l d w = (case lt_free_cb l of None \<Rightarrow> Some w | Some cb \<Rightarrow> cb d w)"

lemma free_data_upd [simp]: "free_data (l\<lparr>lt_head := p\<rparr>) = free_data l" "free_data (l\<lparr>lt_tail := p\<rparr>) = free_data l" "free_data (l\<lparr>lt_length := n\<rparr>) = free_data l"
  by (simp_all add: free_data_def fun_eq_iff)

lemma list_free_node_at:
  "nodes s p = Some \<lparr>ln_next = q, ln_data = d\<rparr> \<Longrightarrow> p \<noteq> 0 \<Longrightarrow> free_data l d (rest s) = Some w \<Longrightarrow>
    list_free_node l p s = Some (q, l\<lparr>lt_length := lt_length l - 1\<rparr>, s\<lparr>nodes := (nodes s)(p := None), rest := w\<rparr>)"
  by (cases "lt_free_cb l") (simp_all add: list_free_node_def node_at_def free_data_def)

text \<open>The loop of \<open>list_remove\<close>: \<open>prev\<close> is the last of the nodes that were passed.\<close>

lemma remove_loop_absent: "chain (nodes s) p ns 0 \<Longrightarrow> d \<notin> snd ` set ns \<Longrightarrow> remove_loop l s prev p d = Some (False, l, s)"
proof (induction ns arbitrary: p prev)
  case (Cons n ns)
  then show ?case by (cases n) (auto simp: remove_loop.simps [of l s prev p] node_at_def)
qed (simp add: remove_loop.simps)

lemma remove_loop_found:
  assumes "chain (nodes s) p (ns @ (a, d) # ms) 0" and "d \<notin> snd ` set ns" and "nodes s prev = Some \<lparr>ln_next = p, ln_data = x\<rparr>" and "prev \<noteq> 0"
    and "distinct (prev # map fst (ns @ (a, d) # ms))" and "free_data l d (rest s) = Some w"
  shows "\<exists>nx. nodes s a = Some \<lparr>ln_next = nx, ln_data = d\<rparr> \<and>
    (let b = fst (last ((prev, x) # ns)) in remove_loop l s prev p d =
      Some (True, (if lt_tail l = a then l\<lparr>lt_tail := b\<rparr> else l)\<lparr>lt_length := lt_length l - 1\<rparr>,
        s\<lparr>nodes := (nodes s)(a := None, b \<mapsto> \<lparr>ln_next = nx, ln_data = snd (last ((prev, x) # ns))\<rparr>), rest := w\<rparr>))"
  using assms
proof (induction ns arbitrary: p prev x)
  case Nil
  then show ?case by (auto simp: remove_loop.simps [of l s prev] node_at_def list_free_node_at set_next_def Let_def intro!: store.equality ext)
next
  case (Cons n ns)
  obtain b y where n: "n = (b, y)" by force
  obtain q where b: "p = b" "b \<noteq> 0" "nodes s b = Some \<lparr>ln_next = q, ln_data = y\<rparr>" "chain (nodes s) q (ns @ (a, d) # ms) 0" "distinct (b # map fst (ns @ (a, d) # ms))" "y \<noteq> d" "d \<notin> snd ` set ns"
    using Cons.prems n by auto
  have "remove_loop l s prev p d = remove_loop l s b q d" using b by (simp add: remove_loop.simps [of l s prev] node_at_def)
  moreover have "last ((prev, x) # n # ns) = last ((b, y) # ns)" by (simp add: n)
  ultimately show ?case using Cons.IH [OF b(4,7,3,2,5) Cons.prems(6)] by presburger
qed

lemma list_remove_absent: "list_on (nodes s) l ns \<Longrightarrow> d \<notin> snd ` set ns \<Longrightarrow> list_remove l d s = Some (False, l, s)"
proof (cases ns)
  case (Cons n ms)
  assume "list_on (nodes s) l ns" "d \<notin> snd ` set ns"
  then show ?thesis using list_on_empty [of "nodes s" l ns] Cons
    by (cases n) (auto simp: list_remove_def list_on_def node_at_def remove_loop_absent)
qed (simp add: list_remove_def list_on_empty)

lemma list_remove_on:
  assumes on: "list_on (nodes s) l (ns @ (a, d) # ms)" and new: "d \<notin> snd ` set ns" and w: "free_data l d (rest s) = Some w"
  shows "\<exists>l' s'. list_remove l d s = Some (True, l', s') \<and> list_on (nodes s') l' (ns @ ms) \<and> lt_free_cb l' = lt_free_cb l \<and> rest s' = w \<and> nodes s' a = None \<and>
    (\<forall>p. p \<notin> fst ` set (ns @ (a, d) # ms) \<longrightarrow> nodes s' p = nodes s p)"
proof -
  have ne: "\<not> list_is_empty l" using list_on_empty [OF on] by simp
  have len: "lt_length l - 1 = of_nat (length (ns @ ms))" using on by (simp add: list_on_def)
  note on = on [unfolded list_on_def]
  show ?thesis
  proof (cases ns)
    case Nil
    obtain nx where a: "lt_head l = a" "a \<noteq> 0" "nodes s a = Some \<lparr>ln_next = nx, ln_data = d\<rparr>" "chain (nodes s) nx ms 0" "a \<notin> fst ` set ms" "distinct (map fst ms)"
      using on Nil by auto
    have "lt_tail l = (if ms = [] then a else fst (last ms))" using on Nil by simp
    moreover have "ms = [] \<Longrightarrow> nx = 0" "ms \<noteq> [] \<Longrightarrow> fst (last ms) \<noteq> a" using a(4,5) by (auto dest: last_in_set)
    ultimately show ?thesis using a ne len w Nil by (auto simp: list_remove_def node_at_def list_free_node_at list_on_def Let_def)
  next
    case (Cons n ks)
    obtain h x where n: "n = (h, x)" by force
    obtain p where h: "lt_head l = h" "h \<noteq> 0" "nodes s h = Some \<lparr>ln_next = p, ln_data = x\<rparr>" "chain (nodes s) p (ks @ (a, d) # ms) 0" "distinct (h # map fst (ks @ (a, d) # ms))"
      using on Cons n by auto
    define b y where "b = fst (last ((h, x) # ks))" and "y = snd (last ((h, x) # ks))"
    obtain nx where nx: "nodes s a = Some \<lparr>ln_next = nx, ln_data = d\<rparr>" and run: "remove_loop l s h p d =
        Some (True, (if lt_tail l = a then l\<lparr>lt_tail := b\<rparr> else l)\<lparr>lt_length := lt_length l - 1\<rparr>,
          s\<lparr>nodes := (nodes s)(a := None, b \<mapsto> \<lparr>ln_next = nx, ln_data = y\<rparr>), rest := w\<rparr>)"
      using remove_loop_found [OF h(4) _ h(3,2,5) w] new Cons n by (auto simp: Let_def b_def y_def)
    obtain us where us: "(h, x) # ks = us @ [(b, y)]" by (metis append_butlast_last_id b_def list.distinct(1) prod.collapse y_def)
    have ns: "ns = us @ [(b, y)]" using us Cons n by simp
    have c: "chain (nodes s) (lt_head l) us b" "chain (nodes s) nx ms 0" "b \<noteq> 0" "b \<notin> fst ` set us" "b \<notin> fst ` set ms" "a \<notin> fst ` set us" "a \<notin> fst ` set ms" "a \<noteq> b"
        "distinct (map fst (us @ (b, y) # ms))"
      using on nx by (auto simp: ns chain_append)
    have tl: "lt_tail l = (if ms = [] then a else fst (last ms))" using on by simp
    have "ms \<noteq> [] \<Longrightarrow> fst (last ms) \<noteq> a" using c(7) by (auto dest: last_in_set)
    moreover have "list_remove l d s = remove_loop l s h p d" using ne h new Cons n by (auto simp: list_remove_def node_at_def)
    ultimately show ?thesis using run c tl len by (auto simp: list_on_def ns chain_append)
  qed
qed

text \<open>Clearing runs \<open>free_cb\<close> on the data in their order and frees every node.\<close>

fun free_all :: "('d \<Rightarrow> 'w \<Rightarrow> 'w option) \<Rightarrow> 'd list \<Rightarrow> 'w \<Rightarrow> 'w option" where
  "free_all f [] w = Some w"
| "free_all f (d # ds) w = do { w \<leftarrow> f d w; free_all f ds w }"

lemma free_all_total: "(\<And>d w. f d w \<noteq> None) \<Longrightarrow> \<exists>w'. free_all f ds w = Some w'"
proof (induction ds arbitrary: w)
  case (Cons d ds)
  obtain v where "f d w = Some v" using Cons.prems by fastforce
  then show ?case using Cons.IH [OF Cons.prems] by simp
qed simp

lemma clear_loop_on:
  "chain (nodes s) p ns 0 \<Longrightarrow> distinct (map fst ns) \<Longrightarrow> free_all (free_data l) (map snd ns) (rest s) = Some w \<Longrightarrow>
    \<exists>len. clear_loop l s p = Some (l\<lparr>lt_length := len\<rparr>, s\<lparr>nodes := (nodes s) |` (- fst ` set ns), rest := w\<rparr>)"
proof (induction ns arbitrary: p l s)
  case Nil
  then show ?case by (auto simp: clear_loop.simps intro!: exI [of _ "lt_length l"])
next
  case (Cons n ns)
  obtain a d where n: "n = (a, d)" by force
  obtain nx w1 where a: "p = a" "a \<noteq> 0" "nodes s a = Some \<lparr>ln_next = nx, ln_data = d\<rparr>" "chain (nodes s) nx ns 0" "free_data l d (rest s) = Some w1"
      "free_all (free_data l) (map snd ns) w1 = Some w" "a \<notin> fst ` set ns" "distinct (map fst ns)"
    using Cons.prems n by (auto split: bind_splits)
  let ?s = "s\<lparr>nodes := (nodes s)(a := None), rest := w1\<rparr>" and ?l = "l\<lparr>lt_length := lt_length l - 1\<rparr>"
  have c: "chain (nodes ?s) nx ns 0" "free_all (free_data ?l) (map snd ns) (rest ?s) = Some w" using a by simp_all
  have "clear_loop l s p = clear_loop ?l ?s nx" using a by (simp add: clear_loop.simps [of l s] list_free_node_at)
  moreover have "(nodes s)(a := None) |` (- fst ` set ns) = (nodes s) |` (- fst ` set (n # ns))" by (auto simp: n restrict_map_def)
  ultimately show ?case using Cons.IH [OF c(1) a(8) c(2)] by (auto simp del: fun_upd_apply)
qed

lemma list_clear_on:
  assumes "list_on (nodes s) l ns" and "free_all (free_data l) (map snd ns) (rest s) = Some w"
  shows "list_clear l s = Some (l\<lparr>lt_head := 0, lt_tail := 0, lt_length := 0\<rparr>, s\<lparr>nodes := (nodes s) |` (- fst ` set ns), rest := w\<rparr>)"
  using clear_loop_on [of s "lt_head l" ns l w] assms by (auto simp: list_clear_def list_on_def)

text \<open>\<open>list_foreach\<close> with a callback that changes the rest of the memory and goes on while \<open>go\<close> holds.\<close>

lemma foreach_loop_on:
  assumes "chain (nodes s) p ns 0"
    and "\<And>x s'. nodes s' = nodes s \<Longrightarrow> callback x s' = Some (go x, s'\<lparr>rest := f x (rest s')\<rparr>)"
  shows "foreach_loop callback p s =
    (let vs = takeWhile (go \<circ> snd) ns; ms = drop (length vs) ns in
     Some (if ms = [] then 0 else fst (hd ms), s\<lparr>rest := fold (f \<circ> snd) (vs @ take 1 ms) (rest s)\<rparr>))"
  using assms
proof (induction ns arbitrary: p s)
  case (Cons n ns)
  obtain a d where n: "n = (a, d)" by force
  obtain q where a: "p = a" "a \<noteq> 0" "nodes s a = Some \<lparr>ln_next = q, ln_data = d\<rparr>" "chain (nodes s) q ns 0" using Cons.prems(1) n by auto
  let ?s = "s\<lparr>rest := f d (rest s)\<rparr>"
  have "foreach_loop callback p s = (if go d then foreach_loop callback q ?s else Some (a, ?s))"
    using a Cons.prems(2) [of s d] by (simp add: foreach_loop.simps [of callback _ s] node_at_def)
  moreover have "chain (nodes ?s) q ns 0" using a by simp
  ultimately show ?case using Cons.IH [of ?s q] Cons.prems(2) by (auto simp: n Let_def)
qed (simp add: foreach_loop.simps)

section \<open>The list as a sequence\<close>

text \<open>The operations on a list, and what they do to the sequence of its data.  Only \<open>list_append\<close> and \<open>list_prepend\<close> allocate, and fail without memory.\<close>

datatype 'd list_op = Append 'd | Prepend 'd | Remove 'd | Clear

fun list_exec :: "('d, 'w) allocator \<Rightarrow> 'd list_op \<Rightarrow> ('d, 'w) list_t \<Rightarrow> ('d, 'w) store \<Rightarrow> (bool, 'd, 'w) list_result" where
  "list_exec alloc (Append d) l s = list_append alloc l d s"
| "list_exec alloc (Prepend d) l s = list_prepend alloc l d s"
| "list_exec alloc (Remove d) l s = list_remove l d s"
| "list_exec alloc Clear l s = map_option (Pair True) (list_clear l s)"

fun list_run :: "('d, 'w) allocator \<Rightarrow> 'd list_op list \<Rightarrow> ('d, 'w) list_t \<Rightarrow> ('d, 'w) store \<Rightarrow> (bool list, 'd, 'w) list_result" where
  "list_run alloc [] l s = Some ([], l, s)"
| "list_run alloc (op # ops) l s = do { (r, l, s) \<leftarrow> list_exec alloc op l s; (rs, l, s) \<leftarrow> list_run alloc ops l s; Some (r # rs, l, s) }"

fun list_spec :: "bool \<Rightarrow> 'd list_op \<Rightarrow> bool \<Rightarrow> 'd list \<Rightarrow> 'd list option" where
  "list_spec may_fail (Append d) r xs = (if r then Some (xs @ [d]) else if may_fail then Some xs else None)"
| "list_spec may_fail (Prepend d) r xs = (if r then Some (d # xs) else if may_fail then Some xs else None)"
| "list_spec may_fail (Remove d) r xs = (if r \<longleftrightarrow> d \<in> set xs then Some (remove1 d xs) else None)"
| "list_spec may_fail Clear r xs = (if r then Some [] else None)"

fun list_specs :: "bool \<Rightarrow> 'd list_op list \<Rightarrow> bool list \<Rightarrow> 'd list \<Rightarrow> 'd list option" where
  "list_specs may_fail [] [] xs = Some xs"
| "list_specs may_fail (op # ops) (r # rs) xs = do { ys \<leftarrow> list_spec may_fail op r xs; list_specs may_fail ops rs ys }"
| "list_specs may_fail _ _ xs = None"

text \<open>The nodes of the list after the operations are \<open>ns'\<close>; those that were in it before and are not any more are free, and no other node is touched.\<close>

definition only_moves :: "(ptr \<times> 'd) list \<Rightarrow> (ptr \<times> 'd) list \<Rightarrow> ('d, 'w) store \<Rightarrow> ('d, 'w) store \<Rightarrow> bool" where
  "only_moves ns ns' s s' \<longleftrightarrow> (\<forall>p. p \<notin> fst ` set ns' \<longrightarrow> nodes s' p = (if p \<in> fst ` set ns then None else nodes s p)) \<and>
     (\<forall>p \<in> fst ` set ns'. p \<in> fst ` set ns \<or> nodes s p = None)"

lemma only_moves_trans: "only_moves ns ms s t \<Longrightarrow> only_moves ms ks t u \<Longrightarrow> only_moves ns ks s u"
  unfolding only_moves_def by (metis (no_types, lifting))

lemma only_moves_card: "list_on (nodes s) l ns \<Longrightarrow> only_moves ns ns' s s' \<Longrightarrow> card (dom (nodes s')) + length ns \<le> card (dom (nodes s)) + length ns'"
proof -
  assume on: "list_on (nodes s) l ns" and mv: "only_moves ns ns' s s'"
  have sub: "fst ` set ns \<subseteq> dom (nodes s)" and len: "card (fst ` set ns) = length ns"
    using list_on_dom [OF on] on distinct_card [of "map fst ns"] by (auto simp: list_on_def)
  have "dom (nodes s') \<subseteq> (dom (nodes s) - fst ` set ns) \<union> fst ` set ns'" using mv by (auto simp: only_moves_def dom_def split: if_splits)
  then have "card (dom (nodes s')) \<le> card (dom (nodes s) - fst ` set ns) + card (fst ` set ns')" by (meson card_Un_le card_mono finite order_trans)
  also have "\<dots> \<le> card (dom (nodes s)) - length ns + length ns'" using sub len card_image_le [of "set ns'" fst] card_length [of ns'] by (simp add: card_Diff_subset)
  finally show ?thesis using card_mono [OF _ sub] len by simp
qed

lemma list_spec_length: "list_spec may_fail op r xs = Some ys \<Longrightarrow> length ys \<le> length xs + 1"
  by (cases op) (auto split: if_splits simp: length_remove1)

lemma first_occurrence: "d \<in> snd ` set ns \<Longrightarrow> \<exists>ks a ms. ns = ks @ (a, d) # ms \<and> d \<notin> snd ` set ks \<and> remove1 d (map snd ns) = map snd (ks @ ms)"
proof -
  assume "d \<in> snd ` set ns"
  then obtain ks n ms where "ns = ks @ n # ms" "d = snd n" "\<forall>x\<in>set ks. snd x \<noteq> d" using split_list_first_prop [of ns "\<lambda>n. snd n = d"] by fastforce
  then show ?thesis by (cases n) (fastforce simp: remove1_append)
qed

context fresh_alloc
begin

lemma list_exec_on:
  assumes on: "list_on (nodes s) l ns" and cb: "\<And>d w. free_data l d w \<noteq> None" and may: "alloc s = None \<Longrightarrow> may_fail"
  shows "\<exists>r l' s' ns'. list_exec alloc op l s = Some (r, l', s') \<and> list_on (nodes s') l' ns' \<and> lt_free_cb l' = lt_free_cb l \<and>
    list_spec may_fail op r (map snd ns) = Some (map snd ns') \<and> only_moves ns ns' s s'"
proof (cases op)
  case (Append d)
  show ?thesis
  proof (cases "alloc s")
    case None
    then show ?thesis using on may [OF None] by (intro exI [of _ False] exI [of _ l] exI [of _ s] exI [of _ ns]) (auto simp: Append list_append_full only_moves_def)
  next
    case (Some a)
    obtain l' s' where "list_append alloc l d s = Some (True, l', s')" "list_on (nodes s') l' (ns @ [(a, d)])" "lt_free_cb l' = lt_free_cb l"
        "\<forall>p. p \<notin> fst ` set (ns @ [(a, d)]) \<longrightarrow> nodes s' p = nodes s p"
      using list_append_on [OF on Some, of d] by blast
    then show ?thesis using alloc_fresh [OF Some]
      by (intro exI [of _ True] exI [of _ l'] exI [of _ s'] exI [of _ "ns @ [(a, d)]"]) (auto simp: Append only_moves_def)
  qed
next
  case (Prepend d)
  show ?thesis
  proof (cases "alloc s")
    case None
    then show ?thesis using on may [OF None] by (intro exI [of _ False] exI [of _ l] exI [of _ s] exI [of _ ns]) (auto simp: Prepend list_prepend_def only_moves_def)
  next
    case (Some a)
    obtain l' s' where "list_prepend alloc l d s = Some (True, l', s')" "list_on (nodes s') l' ((a, d) # ns)" "lt_free_cb l' = lt_free_cb l"
        "\<forall>p. p \<noteq> a \<longrightarrow> nodes s' p = nodes s p"
      using list_prepend_on [OF on Some, of d] by blast
    then show ?thesis using alloc_fresh [OF Some]
      by (intro exI [of _ True] exI [of _ l'] exI [of _ s'] exI [of _ "(a, d) # ns"]) (auto simp: Prepend only_moves_def)
  qed
next
  case (Remove d)
  show ?thesis
  proof (cases "d \<in> snd ` set ns")
    case True
    then obtain ks a ms where ns: "ns = ks @ (a, d) # ms" "d \<notin> snd ` set ks" "remove1 d (map snd ns) = map snd (ks @ ms)" using first_occurrence by metis
    obtain w where "free_data l d (rest s) = Some w" using cb by fastforce
    then obtain l' s' where "list_remove l d s = Some (True, l', s')" "list_on (nodes s') l' (ks @ ms)" "lt_free_cb l' = lt_free_cb l" "nodes s' a = None"
        "\<forall>p. p \<notin> fst ` set (ks @ (a, d) # ms) \<longrightarrow> nodes s' p = nodes s p"
      using list_remove_on [OF on [unfolded ns(1)] ns(2)] by blast
    then show ?thesis using ns True
      by (intro exI [of _ True] exI [of _ l'] exI [of _ s'] exI [of _ "ks @ ms"]) (auto simp: Remove only_moves_def)
  next
    case False
    then show ?thesis using on list_remove_absent [OF on False]
      by (intro exI [of _ False] exI [of _ l] exI [of _ s] exI [of _ ns]) (auto simp: Remove only_moves_def remove1_idem)
  qed
next
  case Clear
  obtain w where "free_all (free_data l) (map snd ns) (rest s) = Some w" using free_all_total [of "free_data l"] cb by blast
  then show ?thesis using list_clear_on [OF on] by (auto simp: Clear list_on_def only_moves_def restrict_map_def)
qed

lemma list_run_on:
  assumes room: "\<And>s. card (dom (nodes s)) < K \<Longrightarrow> alloc s \<noteq> None"
    and "list_on (nodes s) l ns" and "\<And>d w. free_data l d w \<noteq> None" and "\<not> may_fail \<Longrightarrow> card (dom (nodes s)) + length ops \<le> K"
  shows "\<exists>rs l' s' ns'. list_run alloc ops l s = Some (rs, l', s') \<and> list_on (nodes s') l' ns' \<and> list_specs may_fail ops rs (map snd ns) = Some (map snd ns') \<and> only_moves ns ns' s s'"
  using assms(2-4)
proof (induction ops arbitrary: l s ns)
  case Nil
  then show ?case by (intro exI [of _ "[]"] exI [of _ l] exI [of _ s] exI [of _ ns]) (auto simp: only_moves_def)
next
  case (Cons op ops)
  have may: "alloc s = None \<Longrightarrow> may_fail" using room [of s] Cons.prems(3) by fastforce
  obtain r l1 s1 ms where 1: "list_exec alloc op l s = Some (r, l1, s1)" "list_on (nodes s1) l1 ms" "lt_free_cb l1 = lt_free_cb l"
      "list_spec may_fail op r (map snd ns) = Some (map snd ms)" "only_moves ns ms s s1"
    using list_exec_on [OF Cons.prems(1,2), where op = op and may_fail = may_fail, OF may] by blast
  have "card (dom (nodes s1)) \<le> card (dom (nodes s)) + 1"
    using only_moves_card [OF Cons.prems(1) 1(5)] list_spec_length [OF 1(4)] by simp
  moreover have "free_data l1 d w \<noteq> None" for d w using Cons.prems(2) [of d w] 1(3) by (simp add: free_data_def)
  ultimately obtain rs l2 s2 ks where 2: "list_run alloc ops l1 s1 = Some (rs, l2, s2)" "list_on (nodes s2) l2 ks" "list_specs may_fail ops rs (map snd ms) = Some (map snd ks)" "only_moves ms ks s1 s2"
    using Cons.IH [OF 1(2)] Cons.prems(3) by fastforce
  then show ?case using 1 by (intro exI [of _ "r # rs"] exI [of _ l2] exI [of _ s2] exI [of _ ks]) (auto intro: only_moves_trans)
qed

end

text \<open>An allocator that takes the first free address of an arena.\<close>

definition first_fit :: "ptr list \<Rightarrow> ('d, 'w) allocator" where
  "first_fit arena s = find (\<lambda>a. a \<noteq> 0 \<and> nodes s a = None) arena"

interpretation arena: fresh_alloc "first_fit arena"
  by unfold_locales (auto simp: first_fit_def find_Some_iff)

text \<open>C13: the list of the Bluetooth host is a sequence.  With an allocator that gives unused addresses as long as there are fewer than \<open>K\<close> nodes, and a \<open>free_cb\<close> that returns, every series
  of appending, prepending, removing and clearing returns, without an access outside of the allocated nodes; results and contents are those of the sequence, where an insertion can only fail when the memory
  does not have room for as many nodes as there are operations; the nodes that leave the list are freed and no other node is touched.\<close>

theorem osi_list_refines_sequence:
  assumes "fresh_alloc alloc" and "\<And>s. card (dom (nodes s)) < K \<Longrightarrow> alloc s \<noteq> None" and "list_on (nodes s) l ns" and "\<And>d w. free_data l d w \<noteq> None"
  shows "\<exists>rs l' s' ns'. list_run alloc ops l s = Some (rs, l', s') \<and> list_on (nodes s') l' ns' \<and>
    list_specs (K < card (dom (nodes s)) + length ops) ops rs (map snd ns) = Some (map snd ns') \<and>
    (\<forall>p. p \<notin> fst ` set ns' \<longrightarrow> nodes s' p = (if p \<in> fst ` set ns then None else nodes s p))"
proof -
  have "\<not> K < card (dom (nodes s)) + length ops \<Longrightarrow> card (dom (nodes s)) + length ops \<le> K" by simp
  from fresh_alloc.list_run_on [OF assms this] show ?thesis unfolding only_moves_def by blast
qed

definition empty_list :: "(nat, unit) list_t" where "empty_list = \<lparr>lt_head = 0, lt_tail = 0, lt_length = 0, lt_free_cb = None\<rparr>"

definition empty_store :: "(nat, unit) store" where "empty_store = \<lparr>nodes = Map.empty, rest = ()\<rparr>"

theorem osi_list_refines_sequence_witness:
  "\<exists>rs l' s' ns'. list_run (first_fit [4, 8]) [Append 1, Prepend 2] empty_list empty_store = Some (rs, l', s') \<and> rs = [True, True] \<and> list_on (nodes s') l' ns' \<and> map snd ns' = [2, 1]"
proof -
  let ?ops = "[Append 1, Prepend 2] :: nat list_op list" and ?al = "first_fit [4, 8] :: (nat, unit) allocator"
  have room: "?al s \<noteq> None" if "card (dom (nodes s)) < 2" for s
  proof
    assume "?al s = None"
    then have "{4, 8} \<subseteq> dom (nodes s)" by (auto simp: first_fit_def split: if_splits)
    then have "card {4, 8 :: ptr} \<le> card (dom (nodes s))" by (intro card_mono) auto
    then show False using that by simp
  qed
  have on: "list_on (nodes empty_store) empty_list []" and cb: "\<And>d w. free_data empty_list d w \<noteq> None"
    by (simp_all add: list_on_def empty_list_def free_data_def)
  obtain rs l' s' ns' where run: "list_run ?al ?ops empty_list empty_store = Some (rs, l', s')" "list_on (nodes s') l' ns'"
      "list_specs (2 < card (dom (nodes empty_store)) + length ?ops) ?ops rs [] = Some (map snd ns')"
    using osi_list_refines_sequence [OF arena.fresh_alloc_axioms room on cb, where ops = ?ops] unfolding list.map by blast
  have k: "\<not> 2 < card (dom (nodes empty_store)) + length ?ops" by (simp add: empty_store_def)
  have "\<exists>r1 r2. rs = [r1, r2]" using run(3) k by (cases rs; cases "tl rs"; cases "tl (tl rs)") (auto split: if_splits)
  then show ?thesis using run k by (auto split: if_splits)
qed

end
