(* ===== verification/HashMap.thy ===== *)
theory HashMap
  imports OsiList
begin

text \<open>
  \<^verbatim>\<open>components/bt/bluedroid/osi/hash_map.c\<close> and \<^verbatim>\<open>hash_functions.c\<close>: the hash map of the Bluetooth host, an array of lists of entries.

  The entries have a heap of their own next to that of the list nodes; a node's data are the address of its entry.  An entry's pointer to its map is left out, since every entry of
  a map points to it: the functions of the map are found in the map itself.  \<open>'u\<close> is the memory on which \<open>key_fn\<close> and \<open>data_fn\<close> act.  A list that the map
  allocates and the entries come from the same allocator as the nodes.
\<close>

section \<open>Hash functions\<close>

definition hash_function_naive :: "ptr \<Rightarrow> 32 word" where "hash_function_naive key = key"

definition hash_function_integer :: "ptr \<Rightarrow> 32 word" where "hash_function_integer key = key * 2654435761"

definition hash_function_pointer :: "ptr \<Rightarrow> 32 word" where "hash_function_pointer key = key * 2654435761"

text \<open>A \<open>char\<close> is unsigned on this processor.\<close>

definition hash_function_string :: "byte list \<Rightarrow> 32 word" where
  "hash_function_string name = fold (\<lambda>c hash. (push_bit 5 hash + hash) + ucast c) name 5381"

section \<open>Data\<close>

record ('k, 'v) hash_map_entry_t =
  he_key :: 'k
  he_data :: 'v

record ('k, 'v, 'u) entry_rest =
  entries :: "ptr \<rightharpoonup> ('k, 'v) hash_map_entry_t"
  user :: 'u

type_synonym ('k, 'v, 'u) hm_store = "(ptr, ('k, 'v, 'u) entry_rest) store"
type_synonym ('k, 'v, 'u) hm_alloc = "(ptr, ('k, 'v, 'u) entry_rest) allocator"
type_synonym ('k, 'v, 'u) bucket = "(ptr, ('k, 'v, 'u) entry_rest) list_t option"

record ('k, 'v, 'u) hash_map_t =
  hm_bucket :: "('k, 'v, 'u) bucket list"
  hm_num_bucket :: "32 word"
  hm_hash_size :: "32 word"
  hm_hash_fn :: "'k \<Rightarrow> 32 word"
  hm_key_fn :: "('k \<Rightarrow> 'u \<Rightarrow> 'u) option"
  hm_data_fn :: "('v \<Rightarrow> 'u \<Rightarrow> 'u) option"
  hm_keys_are_equal :: "'k \<Rightarrow> 'k \<Rightarrow> bool"

definition entry_at :: "('k, 'v, 'u) entry_rest \<Rightarrow> ptr \<Rightarrow> ('k, 'v) hash_map_entry_t option" where
  "entry_at w e = (if e = 0 then None else entries w e)"

section \<open>Operations\<close>

definition default_key_equality :: "'k \<Rightarrow> 'k \<Rightarrow> bool" where "default_key_equality x y \<longleftrightarrow> x = y"

text \<open>Two blocks are allocated: the map, zeroed, and the array of buckets, whose size in bytes is computed with 32 bits.\<close>

definition hash_map_new_internal ::
    "32 word \<Rightarrow> ('k \<Rightarrow> 32 word) \<Rightarrow> ('k \<Rightarrow> 'u \<Rightarrow> 'u) option \<Rightarrow> ('v \<Rightarrow> 'u \<Rightarrow> 'u) option \<Rightarrow> ('k \<Rightarrow> 'k \<Rightarrow> bool) option \<Rightarrow> ('k, 'v, 'u) hm_alloc \<Rightarrow>
     ('k, 'v, 'u) hm_store \<Rightarrow> ('k, 'v, 'u) hash_map_t option" where
  "hash_map_new_internal num_bucket hash_fn key_fn data_fn equality_fn alloc s = (case alloc s of None \<Rightarrow> None
     | Some _ \<Rightarrow> (case alloc s of None \<Rightarrow> None
         | Some _ \<Rightarrow> Some \<lparr>hm_bucket = replicate (unat (4 * num_bucket) div 4) None, hm_num_bucket = num_bucket, hm_hash_size = 0, hm_hash_fn = hash_fn, hm_key_fn = key_fn,
             hm_data_fn = data_fn, hm_keys_are_equal = (case equality_fn of None \<Rightarrow> default_key_equality | Some eq \<Rightarrow> eq)\<rparr>))"

definition bucket_free :: "('k \<Rightarrow> 'u \<Rightarrow> 'u) option \<Rightarrow> ('v \<Rightarrow> 'u \<Rightarrow> 'u) option \<Rightarrow> ptr \<Rightarrow> ('k, 'v, 'u) entry_rest \<Rightarrow> ('k, 'v, 'u) entry_rest option" where
  "bucket_free key_fn data_fn e w = do {
     entry \<leftarrow> entry_at w e;
     let u = (case key_fn of None \<Rightarrow> user w | Some f \<Rightarrow> f (he_key entry) (user w));
     let u = (case data_fn of None \<Rightarrow> u | Some f \<Rightarrow> f (he_data entry) u);
     Some (w\<lparr>user := u, entries := (entries w)(e := None)\<rparr>) }"

text \<open>\<open>hash_fn(key) % num_bucket\<close>, as an index of the array.\<close>

definition bucket_index :: "('k, 'v, 'u) hash_map_t \<Rightarrow> 'k \<Rightarrow> nat option" where
  "bucket_index m key = (if hm_num_bucket m = 0 then None
     else let i = unat (hm_hash_fn m key mod hm_num_bucket m) in if i < length (hm_bucket m) then Some i else None)"

text \<open>The entry with a key, or NULL.\<close>

partial_function (option) find_loop :: "('k \<Rightarrow> 'k \<Rightarrow> bool) \<Rightarrow> ('k, 'v, 'u) hm_store \<Rightarrow> ptr \<Rightarrow> ptr \<Rightarrow> 'k \<Rightarrow> ptr option" where
  "find_loop eq s iter end key =
     (if iter = end then Some 0
      else do {
        e \<leftarrow> list_node s iter;
        entry \<leftarrow> entry_at (rest s) e;
        if eq (he_key entry) key then Some e else do { iter \<leftarrow> list_next s iter; find_loop eq s iter end key } })"

definition find_bucket_entry :: "('k \<Rightarrow> 'k \<Rightarrow> bool) \<Rightarrow> ('k, 'v, 'u) bucket \<Rightarrow> 'k \<Rightarrow> ('k, 'v, 'u) hm_store \<Rightarrow> ptr option" where
  "find_bucket_entry eq b key s = (case b of None \<Rightarrow> Some 0 | Some l \<Rightarrow> find_loop eq s (list_begin l) (list_end l) key)"

definition hash_map_has_key :: "('k, 'v, 'u) hash_map_t \<Rightarrow> 'k \<Rightarrow> ('k, 'v, 'u) hm_store \<Rightarrow> bool option" where
  "hash_map_has_key m key s = do {
     i \<leftarrow> bucket_index m key;
     e \<leftarrow> find_bucket_entry (hm_keys_are_equal m) (hm_bucket m ! i) key s;
     Some (e \<noteq> 0) }"

definition hash_map_get :: "('k, 'v, 'u) hash_map_t \<Rightarrow> 'k \<Rightarrow> ('k, 'v, 'u) hm_store \<Rightarrow> 'v option option" where
  "hash_map_get m key s = do {
     i \<leftarrow> bucket_index m key;
     e \<leftarrow> find_bucket_entry (hm_keys_are_equal m) (hm_bucket m ! i) key s;
     if e \<noteq> 0 then do { entry \<leftarrow> entry_at (rest s) e; Some (Some (he_data entry)) } else Some None }"

definition set_bucket :: "nat \<Rightarrow> (ptr, ('k, 'v, 'u) entry_rest) list_t \<Rightarrow> ('k, 'v, 'u) hash_map_t \<Rightarrow> ('k, 'v, 'u) hash_map_t" where
  "set_bucket i l m = m\<lparr>hm_bucket := (hm_bucket m)[i := Some l]\<rparr>"

type_synonym ('k, 'v, 'u) hm_result = "(bool \<times> ('k, 'v, 'u) hash_map_t \<times> ('k, 'v, 'u) hm_store) option"

text \<open>\<open>hash_map_set\<close> from the point where the old entry is gone, and from the point where the bucket has a list.\<close>

definition set_new :: "('k, 'v, 'u) hm_alloc \<Rightarrow> ('k, 'v, 'u) hash_map_t \<Rightarrow> nat \<Rightarrow> (ptr, ('k, 'v, 'u) entry_rest) list_t \<Rightarrow> 'k \<Rightarrow> 'v \<Rightarrow> ('k, 'v, 'u) hm_store \<Rightarrow> ('k, 'v, 'u) hm_result" where
  "set_new alloc m i l key data s = (case alloc s of None \<Rightarrow> Some (False, set_bucket i l m, s)
     | Some e \<Rightarrow> do {
         let s = s\<lparr>rest := (rest s)\<lparr>entries := (entries (rest s))(e \<mapsto> \<lparr>he_key = key, he_data = data\<rparr>)\<rparr>\<rparr>;
         (r, l, s) \<leftarrow> list_append alloc l e s;
         Some (r, set_bucket i l m, s) })"

definition set_in :: "('k, 'v, 'u) hm_alloc \<Rightarrow> ('k, 'v, 'u) hash_map_t \<Rightarrow> nat \<Rightarrow> (ptr, ('k, 'v, 'u) entry_rest) list_t \<Rightarrow> 'k \<Rightarrow> 'v \<Rightarrow> ('k, 'v, 'u) hm_store \<Rightarrow> ('k, 'v, 'u) hm_result" where
  "set_in alloc m i l key data s = do {
     e \<leftarrow> find_bucket_entry (hm_keys_are_equal m) (Some l) key s;
     if e \<noteq> 0 then do { (rc, l, s) \<leftarrow> list_remove l e s; set_new alloc m i l key data s }
     else set_new alloc (m\<lparr>hm_hash_size := hm_hash_size m + 1\<rparr>) i l key data s }"

definition hash_map_set :: "('k, 'v, 'u) hm_alloc \<Rightarrow> ('k, 'v, 'u) hash_map_t \<Rightarrow> 'k \<Rightarrow> 'v \<Rightarrow> ('k, 'v, 'u) hm_store \<Rightarrow> ('k, 'v, 'u) hm_result" where
  "hash_map_set alloc m key data s = do {
     i \<leftarrow> bucket_index m key;
     (case hm_bucket m ! i of
        Some l \<Rightarrow> set_in alloc m i l key data s
      | None \<Rightarrow> (case list_new_internal (Some (bucket_free (hm_key_fn m) (hm_data_fn m))) alloc s of
           None \<Rightarrow> Some (False, m, s)
         | Some l \<Rightarrow> set_in alloc (set_bucket i l m) i l key data s)) }"

definition hash_map_erase :: "('k, 'v, 'u) hash_map_t \<Rightarrow> 'k \<Rightarrow> ('k, 'v, 'u) hm_store \<Rightarrow> ('k, 'v, 'u) hm_result" where
  "hash_map_erase m key s = do {
     i \<leftarrow> bucket_index m key;
     e \<leftarrow> find_bucket_entry (hm_keys_are_equal m) (hm_bucket m ! i) key s;
     if e = 0 then Some (False, m, s)
     else do {
       l \<leftarrow> hm_bucket m ! i;
       (r, l, s) \<leftarrow> list_remove l e s;
       Some (r, set_bucket i l (m\<lparr>hm_hash_size := hm_hash_size m - 1\<rparr>), s) } }"

text \<open>The loops over the buckets, from the bucket \<open>i\<close> on, with \<open>n\<close> of them left.\<close>

fun hm_clear_loop :: "nat \<Rightarrow> nat \<Rightarrow> ('k, 'v, 'u) hash_map_t \<Rightarrow> ('k, 'v, 'u) hm_store \<Rightarrow> (('k, 'v, 'u) hash_map_t \<times> ('k, 'v, 'u) hm_store) option" where
  "hm_clear_loop 0 i m s = Some (m, s)"
| "hm_clear_loop (Suc n) i m s =
     (if i \<ge> length (hm_bucket m) then None
      else case hm_bucket m ! i of None \<Rightarrow> hm_clear_loop n (i + 1) m s
      | Some l \<Rightarrow> do {
          s \<leftarrow> list_free (Some l) s;
          hm_clear_loop n (i + 1) (m\<lparr>hm_bucket := (hm_bucket m)[i := None]\<rparr>) s })"

definition hash_map_clear :: "('k, 'v, 'u) hash_map_t \<Rightarrow> ('k, 'v, 'u) hm_store \<Rightarrow> (('k, 'v, 'u) hash_map_t \<times> ('k, 'v, 'u) hm_store) option" where
  "hash_map_clear m s = hm_clear_loop (unat (hm_num_bucket m)) 0 m s"

definition hash_map_free :: "('k, 'v, 'u) hash_map_t option \<Rightarrow> ('k, 'v, 'u) hm_store \<Rightarrow> ('k, 'v, 'u) hm_store option" where
  "hash_map_free m s = (case m of None \<Rightarrow> Some s | Some m \<Rightarrow> map_option snd (hash_map_clear m s))"

text \<open>\<open>hash_map_foreach\<close>: the callback is given the entry; the loop over a bucket says whether to go on.\<close>

partial_function (option) bucket_foreach ::
    "(ptr \<Rightarrow> ('k, 'v, 'u) hm_store \<Rightarrow> (bool \<times> ('k, 'v, 'u) hm_store) option) \<Rightarrow> ptr \<Rightarrow> ptr \<Rightarrow> ('k, 'v, 'u) hm_store \<Rightarrow> (bool \<times> ('k, 'v, 'u) hm_store) option" where
  "bucket_foreach callback iter end s =
     (if iter = end then Some (True, s)
      else do {
        e \<leftarrow> list_node s iter;
        (go, s) \<leftarrow> callback e s;
        if \<not> go then Some (False, s) else do { iter \<leftarrow> list_next s iter; bucket_foreach callback iter end s } })"

fun hm_foreach_loop ::
    "(ptr \<Rightarrow> ('k, 'v, 'u) hm_store \<Rightarrow> (bool \<times> ('k, 'v, 'u) hm_store) option) \<Rightarrow> nat \<Rightarrow> nat \<Rightarrow> ('k, 'v, 'u) hash_map_t \<Rightarrow> ('k, 'v, 'u) hm_store \<Rightarrow> ('k, 'v, 'u) hm_store option" where
  "hm_foreach_loop callback 0 i m s = Some s"
| "hm_foreach_loop callback (Suc n) i m s =
     (if i \<ge> length (hm_bucket m) then None
      else case hm_bucket m ! i of None \<Rightarrow> hm_foreach_loop callback n (i + 1) m s
      | Some l \<Rightarrow> do {
          (go, s) \<leftarrow> bucket_foreach callback (list_begin l) (list_end l) s;
          if go then hm_foreach_loop callback n (i + 1) m s else Some s })"

definition hash_map_foreach ::
    "('k, 'v, 'u) hash_map_t \<Rightarrow> (ptr \<Rightarrow> ('k, 'v, 'u) hm_store \<Rightarrow> (bool \<times> ('k, 'v, 'u) hm_store) option) \<Rightarrow> ('k, 'v, 'u) hm_store \<Rightarrow> ('k, 'v, 'u) hm_store option" where
  "hash_map_foreach m callback s = hm_foreach_loop callback (unat (hm_num_bucket m)) 0 m s"

section \<open>The map that a hash map stands for\<close>

text \<open>
  The contents of a bucket: addresses of node and entry, key and value.  A key decides the bucket, so entries and nodes of different buckets are different, and the entries
  of one bucket are different because their keys are.
\<close>

type_synonym ('k, 'v) cell = "ptr \<times> ptr \<times> 'k \<times> 'v"

abbreviation cell_nodes :: "('k, 'v) cell list \<Rightarrow> (ptr \<times> ptr) list" where
  "cell_nodes xs \<equiv> map (\<lambda>x. (fst x, fst (snd x))) xs"

abbreviation cell_map :: "('k, 'v) cell list \<Rightarrow> 'k \<rightharpoonup> 'v" where
  "cell_map xs \<equiv> map_of (map (\<lambda>x. snd (snd x)) xs)"

abbreviation cell_keys :: "('k, 'v) cell list \<Rightarrow> 'k list" where
  "cell_keys xs \<equiv> map (\<lambda>x. fst (snd (snd x))) xs"

definition cell_ok :: "('k, 'v, 'u) hash_map_t \<Rightarrow> ('k, 'v, 'u) hm_store \<Rightarrow> nat \<Rightarrow> ('k, 'v) cell \<Rightarrow> bool" where
  "cell_ok m s i x \<longleftrightarrow> fst (snd x) \<noteq> 0 \<and> entries (rest s) (fst (snd x)) = Some \<lparr>he_key = fst (snd (snd x)), he_data = snd (snd (snd x))\<rparr> \<and>
     bucket_index m (fst (snd (snd x))) = Some i"

definition bucket_on :: "('k, 'v, 'u) hash_map_t \<Rightarrow> ('k, 'v, 'u) hm_store \<Rightarrow> nat \<Rightarrow> ('k, 'v) cell list \<Rightarrow> bool" where
  "bucket_on m s i xs \<longleftrightarrow> (case hm_bucket m ! i of None \<Rightarrow> xs = []
       | Some l \<Rightarrow> list_on (nodes s) l (cell_nodes xs) \<and> lt_free_cb l = Some (bucket_free (hm_key_fn m) (hm_data_fn m))) \<and>
     distinct (cell_keys xs) \<and> (\<forall>x \<in> set xs. cell_ok m s i x)"

definition hm_on :: "('k, 'v, 'u) hash_map_t \<Rightarrow> ('k, 'v, 'u) hm_store \<Rightarrow> (nat \<Rightarrow> ('k, 'v) cell list) \<Rightarrow> bool" where
  "hm_on m s B \<longleftrightarrow> hm_keys_are_equal m = (=) \<and> hm_num_bucket m \<noteq> 0 \<and> length (hm_bucket m) = unat (hm_num_bucket m) \<and>
     (\<forall>i < length (hm_bucket m). bucket_on m s i (B i))"

definition hm_abs :: "('k, 'v, 'u) hash_map_t \<Rightarrow> (nat \<Rightarrow> ('k, 'v) cell list) \<Rightarrow> 'k \<rightharpoonup> 'v" where
  "hm_abs m B k = (case bucket_index m k of None \<Rightarrow> None | Some i \<Rightarrow> cell_map (B i) k)"

lemma hm_on_index: "hm_on m s B \<Longrightarrow> \<exists>i. bucket_index m k = Some i \<and> i < length (hm_bucket m)"
proof -
  assume on: "hm_on m s B"
  then have "unat (hm_hash_fn m k mod hm_num_bucket m) < unat (hm_num_bucket m)"
    by (simp add: hm_on_def unat_mod unat_gt_0)
  then show ?thesis using on by (simp add: bucket_index_def hm_on_def Let_def)
qed

lemma bucket_index_cong: "hm_num_bucket m' = hm_num_bucket m \<Longrightarrow> hm_hash_fn m' = hm_hash_fn m \<Longrightarrow> length (hm_bucket m') = length (hm_bucket m) \<Longrightarrow> bucket_index m' k = bucket_index m k"
  by (simp add: bucket_index_def)

lemma bucket_on_node: "bucket_on m s i xs \<Longrightarrow> (a, e, k, v) \<in> set xs \<Longrightarrow> \<exists>nx. a \<noteq> 0 \<and> nodes s a = Some \<lparr>ln_next = nx, ln_data = e\<rparr>"
  by (force simp: bucket_on_def cell_ok_def list_on_def split: option.splits dest: chain_allocated [of _ _ _ _ a e])

lemma cells_apart:
  assumes "bucket_on m s i xs" and "bucket_on m s j ys" and "(a, e, k, v) \<in> set xs" and "(a', e', k', v') \<in> set ys" and "i \<noteq> j"
  shows "a \<noteq> a' \<and> e \<noteq> e'"
proof -
  have "e \<noteq> e'" using assms by (fastforce simp: bucket_on_def cell_ok_def)
  then show ?thesis using bucket_on_node [OF assms(1,3)] bucket_on_node [OF assms(2,4)] by auto
qed

text \<open>A bucket is not affected by changes elsewhere.\<close>

definition same_functions :: "('k, 'v, 'u) hash_map_t \<Rightarrow> ('k, 'v, 'u) hash_map_t \<Rightarrow> bool" where
  "same_functions m m' \<longleftrightarrow> hm_num_bucket m' = hm_num_bucket m \<and> hm_hash_fn m' = hm_hash_fn m \<and> hm_key_fn m' = hm_key_fn m \<and> hm_data_fn m' = hm_data_fn m \<and>
     hm_keys_are_equal m' = hm_keys_are_equal m \<and> length (hm_bucket m') = length (hm_bucket m)"

lemma same_functions_index: "same_functions m m' \<Longrightarrow> bucket_index m' = bucket_index m"
  by (auto simp: same_functions_def fun_eq_iff intro!: bucket_index_cong)

lemma bucket_on_frame:
  assumes "bucket_on m s j xs" and "same_functions m m'" and "hm_bucket m' ! j = hm_bucket m ! j"
    and "\<And>a e k v. (a, e, k, v) \<in> set xs \<Longrightarrow> nodes s' a = nodes s a \<and> entries (rest s') e = entries (rest s) e"
  shows "bucket_on m' s' j xs"
proof -
  have "list_on (nodes s') l (cell_nodes xs) = list_on (nodes s) l (cell_nodes xs)" for l :: "(ptr, ('a, 'b, 'c) entry_rest) list_t"
    by (rule list_on_cong) (use assms(4) in auto)
  then show ?thesis using assms same_functions_index [OF assms(2)]
    by (auto simp: bucket_on_def cell_ok_def same_functions_def split: option.splits)
qed

text \<open>One bucket is changed to \<open>ys\<close>: the nodes and entries of the others stay.\<close>

lemma hm_on_update:
  assumes on: "hm_on m s B" and i: "i < length (hm_bucket m)" and f: "same_functions m m'" and b: "\<And>j. j \<noteq> i \<Longrightarrow> hm_bucket m' ! j = hm_bucket m ! j"
    and new: "bucket_on m' s' i ys"
    and n: "\<And>p. p \<notin> fst ` set (B i) \<Longrightarrow> nodes s p \<noteq> None \<Longrightarrow> nodes s' p = nodes s p"
    and e: "\<And>p. p \<notin> (fst \<circ> snd) ` set (B i) \<Longrightarrow> entries (rest s) p \<noteq> None \<Longrightarrow> entries (rest s') p = entries (rest s) p"
  shows "hm_on m' s' (B(i := ys))"
proof -
  have "bucket_on m' s' j (B j)" if "j < length (hm_bucket m)" "j \<noteq> i" for j
  proof (rule bucket_on_frame [OF _ f b])
    show bj: "bucket_on m s j (B j)" using on that by (simp add: hm_on_def)
    have bi: "bucket_on m s i (B i)" using on i by (simp add: hm_on_def)
    fix a q k v assume x: "(a, q, k, v) \<in> set (B j)"
    have "a \<notin> fst ` set (B i)" "q \<notin> (fst \<circ> snd) ` set (B i)" using cells_apart [OF bi bj _ x] that(2) by force+
    moreover have "nodes s a \<noteq> None" using bucket_on_node [OF bj x] by auto
    moreover have "entries (rest s) q \<noteq> None" using bj x by (auto simp: bucket_on_def cell_ok_def)
    ultimately show "nodes s' a = nodes s a \<and> entries (rest s') q = entries (rest s) q" using n e by auto
  qed (use that in simp)
  then show ?thesis using on f new by (auto simp: hm_on_def same_functions_def)
qed

lemma hm_abs_update:
  assumes "same_functions m m'" and "\<And>k. bucket_index m k = Some i \<Longrightarrow> cell_map ys k = M k" and "\<And>k. bucket_index m k \<noteq> Some i \<Longrightarrow> M k = hm_abs m B k"
  shows "hm_abs m' (B(i := ys)) = M"
proof
  fix k show "hm_abs m' (B(i := ys)) k = M k"
    using assms(2,3) [of k] same_functions_index [OF assms(1)] by (cases "bucket_index m k") (auto simp: hm_abs_def)
qed

section \<open>Looking up\<close>

lemma find_loop_on:
  assumes "chain (nodes s) p (cell_nodes xs) 0" and "\<And>a e k v. (a, e, k, v) \<in> set xs \<Longrightarrow> e \<noteq> 0 \<and> entries (rest s) e = Some \<lparr>he_key = k, he_data = v\<rparr>"
  shows "find_loop (=) s p 0 k = Some (case find (\<lambda>x. fst (snd (snd x)) = k) xs of None \<Rightarrow> 0 | Some x \<Rightarrow> fst (snd x))"
  using assms
proof (induction xs arbitrary: p)
  case (Cons x xs)
  obtain a e k' v where x: "x = (a, e, k', v)" by (metis prod_cases4)
  have e: "e \<noteq> 0" "entries (rest s) e = Some \<lparr>he_key = k', he_data = v\<rparr>" using Cons.prems(2) x by auto
  obtain q where a: "p = a" "a \<noteq> 0" "nodes s a = Some \<lparr>ln_next = q, ln_data = e\<rparr>" "chain (nodes s) q (cell_nodes xs) 0" using Cons.prems(1) x by auto
  have "find_loop (=) s p 0 k = (if k' = k then Some e else find_loop (=) s q 0 k)"
    using a e by (simp add: find_loop.simps [of "(=)" s a] list_node_def list_next_def node_at_def entry_at_def)
  then show ?case using Cons.IH [OF a(4)] Cons.prems(2) x by auto
qed (simp add: find_loop.simps)

lemma find_bucket_on:
  assumes "hm_on m s B" and "bucket_index m k = Some i" and "i < length (hm_bucket m)"
  shows "find_bucket_entry (hm_keys_are_equal m) (hm_bucket m ! i) k s = Some (case find (\<lambda>x. fst (snd (snd x)) = k) (B i) of None \<Rightarrow> 0 | Some x \<Rightarrow> fst (snd x))"
proof -
  have b: "bucket_on m s i (B i)" "hm_keys_are_equal m = (=)" using assms by (simp_all add: hm_on_def)
  have "e \<noteq> 0 \<and> entries (rest s) e = Some \<lparr>he_key = k, he_data = v\<rparr>" if "(a, e, k, v) \<in> set (B i)" for a e k v using b that by (auto simp: bucket_on_def cell_ok_def)
  note find = find_loop_on [of s _ "B i", OF _ this]
  show ?thesis
    using b find by (cases "hm_bucket m ! i") (auto simp: find_bucket_entry_def bucket_on_def cell_ok_def list_on_def list_begin_def list_end_def)
qed

lemma find_cell_None: "find (\<lambda>x. fst (snd (snd x)) = k) xs = None \<longleftrightarrow> k \<notin> set (cell_keys xs)"
  by (induction xs) auto

lemma find_cell_Some: "find (\<lambda>x. fst (snd (snd x)) = k) xs = Some (a, e, k', v) \<Longrightarrow> k' = k \<and> (a, e, k, v) \<in> set xs \<and> cell_map xs k = Some v"
  by (induction xs) (auto split: if_splits)

lemma cell_map_None: "cell_map xs k = None \<longleftrightarrow> k \<notin> set (cell_keys xs)"
  by (induction xs) auto

lemma cell_map_insert: "k \<notin> set (cell_keys us) \<Longrightarrow> cell_map (us @ (a, e, k, v) # ws) = (cell_map (us @ ws))(k \<mapsto> v)"
  by (induction us) auto

lemma cell_map_absent: "k \<notin> set (cell_keys xs) \<Longrightarrow> cell_map xs k = None"
  by (simp only: cell_map_None simp_thms)

lemma hash_map_get_on: "hm_on m s B \<Longrightarrow> hash_map_get m k s = Some (hm_abs m B k)"
proof -
  assume on: "hm_on m s B"
  obtain i where i: "bucket_index m k = Some i" "i < length (hm_bucket m)" using hm_on_index [OF on] by blast
  have b: "bucket_on m s i (B i)" using on i by (simp add: hm_on_def)
  show ?thesis
  proof (cases "find (\<lambda>x. fst (snd (snd x)) = k) (B i)")
    case None
    then have "cell_map (B i) k = None" by (simp only: find_cell_None cell_map_None simp_thms)
    then show ?thesis using find_bucket_on [OF on i] i None by (simp add: hash_map_get_def hm_abs_def)
  next
    case (Some x)
    obtain a e k' v where x: "x = (a, e, k', v)" by (metis prod_cases4)
    have f: "(a, e, k, v) \<in> set (B i)" "cell_map (B i) k = Some v" using find_cell_Some [OF Some [unfolded x]] by simp_all
    have "e \<noteq> 0" "entries (rest s) e = Some \<lparr>he_key = k, he_data = v\<rparr>" using b f(1) by (auto simp: bucket_on_def cell_ok_def)
    then show ?thesis using find_bucket_on [OF on i] i Some x f by (simp add: hash_map_get_def hm_abs_def entry_at_def)
  qed
qed

lemma hash_map_has_key_on: "hm_on m s B \<Longrightarrow> hash_map_has_key m k s = Some (k \<in> dom (hm_abs m B))"
proof -
  assume on: "hm_on m s B"
  obtain i where i: "bucket_index m k = Some i" "i < length (hm_bucket m)" using hm_on_index [OF on] by blast
  have "entry_at (rest s) 0 = None" by (simp add: entry_at_def)
  then have "hash_map_get m k s \<noteq> None \<Longrightarrow> hash_map_has_key m k s = map_option (\<lambda>x. x \<noteq> None) (hash_map_get m k s)"
    by (auto simp: hash_map_has_key_def hash_map_get_def split: bind_splits if_splits)
  then show ?thesis using hash_map_get_on [OF on, of k] by auto
qed

section \<open>Changing\<close>

text \<open>What removing an entry does to the caller's memory.\<close>

definition release :: "('k, 'v, 'u) hash_map_t \<Rightarrow> 'k \<Rightarrow> 'v \<Rightarrow> 'u \<Rightarrow> 'u" where
  "release m k v u = (let u = (case hm_key_fn m of None \<Rightarrow> u | Some f \<Rightarrow> f k u) in case hm_data_fn m of None \<Rightarrow> u | Some f \<Rightarrow> f v u)"

text \<open>How many nodes and entries are allocated.\<close>

definition used :: "('k, 'v, 'u) hm_store \<Rightarrow> nat" where
  "used s = card (dom (nodes s)) + card (dom (entries (rest s)))"

lemma used_mono: "dom (nodes s') \<subseteq> dom (nodes s) \<Longrightarrow> dom (entries (rest s')) \<subseteq> dom (entries (rest s)) \<Longrightarrow> used s' \<le> used s"
  by (simp add: used_def add_mono card_mono)

lemma same_functions_simps [simp]:
  "same_functions m m" "same_functions m (m\<lparr>hm_hash_size := n\<rparr>)" "same_functions m (set_bucket i l m)" "same_functions m (m\<lparr>hm_bucket := (hm_bucket m)[i := b]\<rparr>)"
  by (simp_all add: same_functions_def set_bucket_def)

lemma same_functions_trans [trans]: "same_functions m m' \<Longrightarrow> same_functions m' m'' \<Longrightarrow> same_functions m m''"
  by (simp add: same_functions_def)

lemma hm_on_same: "same_functions m m' \<Longrightarrow> hm_bucket m' = hm_bucket m \<Longrightarrow> hm_on m' s B = hm_on m s B"
  using same_functions_index [of m m'] by (auto simp: hm_on_def same_functions_def bucket_on_def cell_ok_def cong: option.case_cong)

lemma hm_abs_same: "same_functions m m' \<Longrightarrow> hm_abs m' B = hm_abs m B"
  using same_functions_index [of m m'] by (auto simp: hm_abs_def)

lemma release_same: "same_functions m m' \<Longrightarrow> release m' = release m"
  by (simp add: release_def same_functions_def fun_eq_iff)

lemma set_bucket_simps [simp]:
  "hm_bucket (set_bucket i l m) = (hm_bucket m)[i := Some l]" "set_bucket i l (set_bucket i l' m) = set_bucket i l m"
  "set_bucket i l (m\<lparr>hm_hash_size := n\<rparr>) = (set_bucket i l m)\<lparr>hm_hash_size := n\<rparr>" "hm_keys_are_equal (set_bucket i l m) = hm_keys_are_equal m"
  by (simp_all add: set_bucket_def)

lemma set_new_bucket [simp]: "set_new alloc (set_bucket i l' m) i l k v s = set_new alloc m i l k v s"
  by (cases "alloc s") (simp_all add: set_new_def)

lemma cell_split:
  assumes "bucket_on m s i xs" and "(a, e, k, v) \<in> set xs"
  obtains us ws where "xs = us @ (a, e, k, v) # ws" and "e \<notin> (fst \<circ> snd) ` set us" and "e \<notin> (fst \<circ> snd) ` set ws" and "k \<notin> set (cell_keys (us @ ws))"
proof -
  obtain us ws where xs: "xs = us @ (a, e, k, v) # ws" using assms(2) split_list by metis
  have k: "k \<notin> set (cell_keys (us @ ws))" using assms(1) by (auto simp: bucket_on_def cell_ok_def xs)
  have en: "entries (rest s) (fst (snd x)) = Some \<lparr>he_key = fst (snd (snd x)), he_data = snd (snd (snd x))\<rparr>" if "x \<in> set xs" for x
    using assms(1) that by (auto simp: bucket_on_def cell_ok_def)
  have "fst (snd (snd x)) = k" if "x \<in> set xs" "fst (snd x) = e" for x
    using en [OF that(1)] en [OF assms(2)] that(2) by simp
  then have "e \<notin> (fst \<circ> snd) ` set us" "e \<notin> (fst \<circ> snd) ` set ws" using k by (force simp: xs)+
  then show thesis using that xs k by blast
qed

lemma remove_cell:
  assumes on: "hm_on m s B" and i: "i < length (hm_bucket m)" and l: "hm_bucket m ! i = Some l" and x: "(a, e, k, v) \<in> set (B i)"
  shows "\<exists>l' s' ys. list_remove l e s = Some (True, l', s') \<and> hm_on (set_bucket i l' m) s' (B(i := ys)) \<and> hm_abs (set_bucket i l' m) (B(i := ys)) = (hm_abs m B)(k := None) \<and>
    user (rest s') = release m k v (user (rest s)) \<and> used s' \<le> used s"
proof -
  have b: "bucket_on m s i (B i)" using on i by (simp add: hm_on_def)
  obtain us ws where xs: "B i = us @ (a, e, k, v) # ws" and e: "e \<notin> (fst \<circ> snd) ` set us" "e \<notin> (fst \<circ> snd) ` set ws" and k: "k \<notin> set (cell_keys (us @ ws))"
    using cell_split [OF b x] by blast
  have en: "e \<noteq> 0" "entries (rest s) e = Some \<lparr>he_key = k, he_data = v\<rparr>" "bucket_index m k = Some i" using b x by (auto simp: bucket_on_def cell_ok_def)
  let ?w = "(rest s)\<lparr>user := release m k v (user (rest s)), entries := (entries (rest s))(e := None)\<rparr>"
  have lo: "list_on (nodes s) l (cell_nodes us @ (a, e) # cell_nodes ws)" "lt_free_cb l = Some (bucket_free (hm_key_fn m) (hm_data_fn m))"
    using b l by (simp_all add: bucket_on_def cell_ok_def xs)
  have "free_data l e (rest s) = Some ?w" using lo(2) en
    by (cases "hm_key_fn m"; cases "hm_data_fn m") (simp_all add: free_data_def bucket_free_def entry_at_def release_def)
  moreover have "e \<notin> snd ` set (cell_nodes us)" using e(1) by force
  ultimately obtain l' s' where r: "list_remove l e s = Some (True, l', s')" "list_on (nodes s') l' (cell_nodes us @ cell_nodes ws)" "lt_free_cb l' = lt_free_cb l" "rest s' = ?w"
      "\<forall>p. p \<notin> fst ` set (cell_nodes us @ (a, e) # cell_nodes ws) \<longrightarrow> nodes s' p = nodes s p"
    using list_remove_on [OF lo(1)] by blast
  let ?m = "set_bucket i l' m"
  have idx: "bucket_index ?m = bucket_index m" by (rule same_functions_index) simp
  have "bucket_on ?m s' i (us @ ws)"
    using r(2-4) lo(2) b i e idx by (auto simp: bucket_on_def cell_ok_def xs set_bucket_def)
  then have "hm_on ?m s' (B(i := us @ ws))"
    by (intro hm_on_update [OF on i]) (use r(4,5) in \<open>auto simp: xs image_image image_Un\<close>)
  moreover have ku: "k \<notin> set (cell_keys us)" using k by auto
  have "hm_abs ?m (B(i := us @ ws)) = (hm_abs m B)(k := None)"
  proof (rule hm_abs_update)
    show "cell_map (us @ ws) q = ((hm_abs m B)(k := None)) q" if "bucket_index m q = Some i" for q
      using that cell_map_insert [OF ku, of a e v ws] cell_map_absent [OF k] by (simp add: hm_abs_def xs del: map_append map_of_append)
  qed (use en(3) in auto)
  moreover have "used s' \<le> used s"
  proof (rule used_mono)
    have "fst ` set (cell_nodes us @ (a, e) # cell_nodes ws) \<subseteq> dom (nodes s)" by (rule list_on_dom [OF lo(1)])
    then show "dom (nodes s') \<subseteq> dom (nodes s)" using r(5) by (metis (no_types, lifting) domIff subsetD subsetI)
  qed (use r(4) in auto)
  ultimately show ?thesis using r(1,4) by (intro exI [of _ l'] exI [of _ s'] exI [of _ "us @ ws"]) simp
qed

lemma hash_map_erase_on:
  assumes on: "hm_on m s B"
  shows "\<exists>m' s' B'. hash_map_erase m k s = Some (k \<in> dom (hm_abs m B), m', s') \<and> hm_on m' s' B' \<and> same_functions m m' \<and> hm_abs m' B' = (hm_abs m B)(k := None) \<and>
    user (rest s') = (case hm_abs m B k of None \<Rightarrow> user (rest s) | Some v \<Rightarrow> release m k v (user (rest s))) \<and> used s' \<le> used s"
proof -
  obtain i where i: "bucket_index m k = Some i" "i < length (hm_bucket m)" using hm_on_index [OF on] by blast
  show ?thesis
  proof (cases "find (\<lambda>x. fst (snd (snd x)) = k) (B i)")
    case None
    then have "hm_abs m B k = None" using i cell_map_absent [of k "B i"] find_cell_None [of k "B i"] by (simp add: hm_abs_def)
    then show ?thesis using find_bucket_on [OF on i] i None on
      by (intro exI [of _ m] exI [of _ s] exI [of _ B]) (auto simp: hash_map_erase_def)
  next
    case (Some x)
    obtain a e k' v where x: "x = (a, e, k', v)" by (metis prod_cases4)
    have f: "(a, e, k, v) \<in> set (B i)" "cell_map (B i) k = Some v" using find_cell_Some [OF Some [unfolded x]] by simp_all
    have b: "bucket_on m s i (B i)" using on i by (simp add: hm_on_def)
    then obtain l where l: "hm_bucket m ! i = Some l" and e: "e \<noteq> 0" using f(1) by (fastforce simp: bucket_on_def cell_ok_def split: option.splits)
    obtain l' s' ys where r: "list_remove l e s = Some (True, l', s')" "hm_on (set_bucket i l' m) s' (B(i := ys))" "hm_abs (set_bucket i l' m) (B(i := ys)) = (hm_abs m B)(k := None)"
        "user (rest s') = release m k v (user (rest s))" "used s' \<le> used s"
      using remove_cell [OF on i(2) l f(1)] by blast
    let ?m = "(set_bucket i l' m)\<lparr>hm_hash_size := hm_hash_size m - 1\<rparr>"
    have "hash_map_erase m k s = Some (True, ?m, s')" using find_bucket_on [OF on i] i Some x e l r(1) by (simp add: hash_map_erase_def)
    moreover have "same_functions m ?m" by (rule same_functions_trans [of _ "set_bucket i l' m"]) simp_all
    moreover have "hm_on ?m s' (B(i := ys))" "hm_abs ?m (B(i := ys)) = (hm_abs m B)(k := None)"
      using r(2,3) by (simp_all add: hm_on_same [of "set_bucket i l' m" ?m] hm_abs_same [of "set_bucket i l' m" ?m])
    moreover have "hm_abs m B k = Some v" using f(2) i by (simp add: hm_abs_def)
    ultimately show ?thesis using r(4,5) by (intro exI [of _ ?m] exI [of _ s'] exI [of _ "B(i := ys)"]) (auto simp: dom_def)
  qed
qed

text \<open>The allocator's addresses are also not in use for entries.\<close>

locale entry_alloc = fresh_alloc alloc for alloc :: "('k, 'v, 'u) hm_alloc" +
  assumes entry_fresh: "alloc s = Some e \<Longrightarrow> entries (rest s) e = None"
begin

lemma add_cell:
  assumes on: "hm_on m s B" and i: "i < length (hm_bucket m)" "bucket_index m k = Some i" and l: "hm_bucket m ! i = Some l" and new: "hm_abs m B k = None" and e: "alloc s = Some e"
    and s1: "s1 = s\<lparr>rest := (rest s)\<lparr>entries := (entries (rest s))(e \<mapsto> \<lparr>he_key = k, he_data = v\<rparr>)\<rparr>\<rparr>"
  shows "if alloc s1 = None then list_append alloc l e s1 = Some (False, l, s1) \<and> hm_on m s1 B \<and> used s1 \<le> used s + 1
    else \<exists>l' s' ys. list_append alloc l e s1 = Some (True, l', s') \<and> hm_on (set_bucket i l' m) s' (B(i := ys)) \<and> hm_abs (set_bucket i l' m) (B(i := ys)) = (hm_abs m B)(k \<mapsto> v) \<and>
      user (rest s') = user (rest s) \<and> used s1 \<le> used s + 1 \<and> used s' \<le> used s + 2"
proof -
  have b: "bucket_on m s i (B i)" using on i by (simp add: hm_on_def)
  have en: "e \<noteq> 0" "entries (rest s) e = None" using alloc_fresh [OF e] entry_fresh [OF e] by simp_all
  have e_new: "e \<notin> (fst \<circ> snd) ` set (B j)" if "j < length (hm_bucket m)" for j
  proof -
    have "cell_ok m s j x" if "x \<in> set (B j)" for x using on \<open>j < length (hm_bucket m)\<close> that by (simp add: hm_on_def bucket_on_def)
    then show ?thesis using en(2) by (force simp: cell_ok_def)
  qed
  have on1: "hm_on m s1 B"
  proof -
    have "bucket_on m s1 i (B i)" by (rule bucket_on_frame [OF b]) (use e_new [OF i(1)] in \<open>force simp: s1\<close>)+
    then have "hm_on m s1 (B(i := B i))" by (intro hm_on_update [OF on i(1)]) (use en in \<open>auto simp: s1\<close>)
    then show ?thesis by simp
  qed
  have u1: "used s1 \<le> used s + 1" using card_insert_le_m1 [of "Suc (card (dom (entries (rest s))))" "dom (entries (rest s))" e]
    by (simp add: used_def s1 card_insert_if)
  have k: "k \<notin> set (cell_keys (B i))" using new i(2) by (simp only: hm_abs_def option.case cell_map_None simp_thms)
  show ?thesis
  proof (cases "alloc s1")
    case None
    then show ?thesis using list_append_full on1 u1 by simp
  next
    case (Some a)
    have b1: "bucket_on m s1 i (B i)" using on1 i by (simp add: hm_on_def)
    then have lo: "list_on (nodes s1) l (cell_nodes (B i))" "lt_free_cb l = Some (bucket_free (hm_key_fn m) (hm_data_fn m))" using l by (simp_all add: bucket_on_def)
    obtain l' s' where r: "list_append alloc l e s1 = Some (True, l', s')" "list_on (nodes s') l' (cell_nodes (B i) @ [(a, e)])" "lt_free_cb l' = lt_free_cb l" "rest s' = rest s1"
        "\<forall>p. p \<notin> fst ` set (cell_nodes (B i) @ [(a, e)]) \<longrightarrow> nodes s' p = nodes s1 p"
      using list_append_on [OF lo(1) Some] by blast
    let ?m = "set_bucket i l' m" and ?ys = "B i @ [(a, e, k, v)]"
    have idx: "bucket_index ?m = bucket_index m" by (rule same_functions_index) simp
    have "cell_ok m s1 i x \<Longrightarrow> cell_ok ?m s' i x" for x using r(4) idx by (simp add: cell_ok_def)
    moreover have "cell_ok ?m s' i (a, e, k, v)" using r(4) en idx i(2) by (simp add: cell_ok_def s1)
    ultimately have "bucket_on ?m s' i ?ys" using r(2,3) lo(2) b1 i(1) k by (auto simp: bucket_on_def set_bucket_def)
    then have "hm_on ?m s' (B(i := ?ys))"
      by (intro hm_on_update [OF on1 i(1)]) (use r(4,5) alloc_fresh [OF Some] in \<open>auto simp: image_image\<close>, metis option.distinct(1))
    moreover have "hm_abs ?m (B(i := ?ys)) = (hm_abs m B)(k \<mapsto> v)"
    proof (rule hm_abs_update)
      show "cell_map ?ys q = ((hm_abs m B)(k \<mapsto> v)) q" if "bucket_index m q = Some i" for q
        using that cell_map_insert [OF k, of a e v "[]"] by (simp add: hm_abs_def del: map_append map_of_append)
    qed (use i(2) in auto)
    moreover have "used s' \<le> used s1 + 1"
    proof -
      have "fst ` set (cell_nodes (B i)) \<subseteq> dom (nodes s1)" by (rule list_on_dom [OF lo(1)])
      then have "dom (nodes s') \<subseteq> insert a (dom (nodes s1))" using r(5) by (fastforce simp: dom_def)
      then have "card (dom (nodes s')) \<le> card (insert a (dom (nodes s1)))" by (intro card_mono) auto
      then show ?thesis using r(4) by (simp add: used_def card_insert_if split: if_splits)
    qed
    ultimately show ?thesis using r(1,4) Some u1 by (auto simp: s1)
  qed
qed

end

text \<open>Removing an entry from the caller's point of view: nothing when there is none.\<close>

definition released :: "('k, 'v, 'u) hash_map_t \<Rightarrow> ('k \<rightharpoonup> 'v) \<Rightarrow> 'k \<Rightarrow> 'u \<Rightarrow> 'u" where
  "released m M k u = (case M k of None \<Rightarrow> u | Some v \<Rightarrow> release m k v u)"

context entry_alloc
begin

lemma set_absent:
  assumes on: "hm_on m s B" and i: "i < length (hm_bucket m)" "bucket_index m k = Some i" and l: "hm_bucket m ! i = Some l" and new: "hm_abs m B k = None"
  shows "\<exists>r m' s' B'. set_new alloc m i l k v s = Some (r, m', s') \<and> hm_on m' s' B' \<and> same_functions m m' \<and> hm_abs m' B' = (hm_abs m B)(k := if r then Some v else None) \<and>
      (\<not> r \<longrightarrow> (\<exists>t. alloc t = None \<and> used t \<le> used s + 1)) \<and> used s' \<le> used s + 2 \<and> user (rest s') = user (rest s)"
proof -
  have id: "set_bucket i l m = m" using l list_update_id [of "hm_bucket m" i] by (simp add: set_bucket_def)
  have same: "(hm_abs m B)(k := None) = hm_abs m B" using new by auto
  show ?thesis
  proof (cases "alloc s")
    case None
    then show ?thesis using on id same by (intro exI [of _ False] exI [of _ m] exI [of _ s] exI [of _ B]) (auto simp: set_new_def)
  next
    case (Some e)
    define s1 where "s1 = s\<lparr>rest := (rest s)\<lparr>entries := (entries (rest s))(e \<mapsto> \<lparr>he_key = k, he_data = v\<rparr>)\<rparr>\<rparr>"
    note add = add_cell [OF on i l new Some s1_def]
    show ?thesis
    proof (cases "alloc s1")
      case None
      then have "list_append alloc l e s1 = Some (False, l, s1)" "hm_on m s1 B" "used s1 \<le> used s + 1" using add by simp_all
      then show ?thesis using Some None id same
        by (intro exI [of _ False] exI [of _ m] exI [of _ s1] exI [of _ B]) (simp_all add: set_new_def s1_def [symmetric], auto simp: s1_def)
    next
      case (Some a)
      then obtain l' s' ys where "list_append alloc l e s1 = Some (True, l', s')" "hm_on (set_bucket i l' m) s' (B(i := ys))"
          "hm_abs (set_bucket i l' m) (B(i := ys)) = (hm_abs m B)(k \<mapsto> v)" "user (rest s') = user (rest s)" "used s' \<le> used s + 2"
        using add by auto
      then show ?thesis using \<open>alloc s = Some e\<close>
        by (intro exI [of _ True] exI [of _ "set_bucket i l' m"] exI [of _ s'] exI [of _ "B(i := ys)"]) (auto simp: set_new_def s1_def [symmetric])
    qed
  qed
qed

lemma set_in_on:
  assumes on: "hm_on m s B" and i: "bucket_index m k = Some i" "i < length (hm_bucket m)" and l: "hm_bucket m ! i = Some l"
  shows "\<exists>r m' s' B'. set_in alloc m i l k v s = Some (r, m', s') \<and> hm_on m' s' B' \<and> same_functions m m' \<and> hm_abs m' B' = (hm_abs m B)(k := if r then Some v else None) \<and>
      (\<not> r \<longrightarrow> (\<exists>t. alloc t = None \<and> used t \<le> used s + 1)) \<and> used s' \<le> used s + 2 \<and> user (rest s') = released m (hm_abs m B) k (user (rest s))"
proof (cases "find (\<lambda>x. fst (snd (snd x)) = k) (B i)")
  case None
  let ?m = "m\<lparr>hm_hash_size := hm_hash_size m + 1\<rparr>"
  have abs: "hm_abs m B k = None" using None i cell_map_absent [of k "B i"] find_cell_None [of k "B i"] by (simp add: hm_abs_def)
  have m: "hm_on ?m s B" "hm_abs ?m B = hm_abs m B" "bucket_index ?m k = Some i" "hm_bucket ?m ! i = Some l" "i < length (hm_bucket ?m)"
    using on i l by (simp_all add: hm_on_same [of m ?m] hm_abs_same [of m ?m] same_functions_index [of m ?m])
  obtain r m' s' B' where "set_new alloc ?m i l k v s = Some (r, m', s')" and "hm_on m' s' B'" "same_functions ?m m'" "hm_abs m' B' = (hm_abs ?m B)(k := if r then Some v else None)"
      "\<not> r \<longrightarrow> (\<exists>t. alloc t = None \<and> used t \<le> used s + 1)" "used s' \<le> used s + 2" "user (rest s') = user (rest s)"
    using set_absent [OF m(1,5,3,4), of v] abs m(2) by metis
  moreover have "find_bucket_entry (hm_keys_are_equal m) (Some l) k s = Some 0" using find_bucket_on [OF on i] None l by simp
  ultimately show ?thesis using abs m(2) same_functions_trans [of m ?m m']
    by (intro exI [of _ r] exI [of _ m'] exI [of _ s'] exI [of _ B']) (auto simp: set_in_def released_def)
next
  case (Some x)
  obtain a e k' w where x: "x = (a, e, k', w)" by (metis prod_cases4)
  have f: "(a, e, k, w) \<in> set (B i)" "cell_map (B i) k = Some w" using find_cell_Some [OF Some [unfolded x]] by simp_all
  have abs: "hm_abs m B k = Some w" using f(2) i by (simp add: hm_abs_def)
  have e: "e \<noteq> 0" using on i f(1) by (fastforce simp: hm_on_def bucket_on_def cell_ok_def)
  obtain l1 s1 ys where r: "list_remove l e s = Some (True, l1, s1)" "hm_on (set_bucket i l1 m) s1 (B(i := ys))" "hm_abs (set_bucket i l1 m) (B(i := ys)) = (hm_abs m B)(k := None)"
      "user (rest s1) = release m k w (user (rest s))" "used s1 \<le> used s"
    using remove_cell [OF on i(2) l f(1)] by blast
  let ?m = "set_bucket i l1 m"
  have "bucket_index ?m k = Some i" "hm_bucket ?m ! i = Some l1" "i < length (hm_bucket ?m)" using i by (simp_all add: same_functions_index [of m ?m])
  then obtain r m' s' B' where "set_new alloc ?m i l1 k v s1 = Some (r, m', s')" and "hm_on m' s' B'" "same_functions ?m m'" "hm_abs m' B' = (hm_abs ?m (B(i := ys)))(k := if r then Some v else None)"
      "\<not> r \<longrightarrow> (\<exists>t. alloc t = None \<and> used t \<le> used s1 + 1)" "used s' \<le> used s1 + 2" "user (rest s') = user (rest s1)"
    using set_absent [OF r(2), of i k l1 v] r(3) by (metis fun_upd_same)
  moreover have "find_bucket_entry (hm_keys_are_equal m) (Some l) k s = Some e" using find_bucket_on [OF on i] Some x l by simp
  ultimately show ?thesis using abs e r same_functions_trans [of m ?m m']
    by (intro exI [of _ r] exI [of _ m'] exI [of _ s'] exI [of _ B']) (auto simp: set_in_def released_def)
qed

lemma hash_map_set_on:
  assumes on: "hm_on m s B"
  shows "\<exists>r m' s' B'. hash_map_set alloc m k v s = Some (r, m', s') \<and> hm_on m' s' B' \<and> same_functions m m' \<and> hm_abs m' B' = (hm_abs m B)(k := if r then Some v else None) \<and>
      (\<not> r \<longrightarrow> (\<exists>t. alloc t = None \<and> used t \<le> used s + 1)) \<and> used s' \<le> used s + 2 \<and> user (rest s') = released m (hm_abs m B) k (user (rest s))"
proof -
  obtain i where i: "bucket_index m k = Some i" "i < length (hm_bucket m)" using hm_on_index [OF on] by blast
  show ?thesis
  proof (cases "hm_bucket m ! i")
    case (Some l)
    then show ?thesis using set_in_on [OF on i Some, of v] i by (simp add: hash_map_set_def)
  next
    case None
    have "bucket_on m s i (B i)" using on i by (simp add: hm_on_def)
    then have B: "B i = []" using None by (simp add: bucket_on_def)
    have abs: "hm_abs m B k = None" using B i by (simp add: hm_abs_def)
    show ?thesis
    proof (cases "list_new_internal (Some (bucket_free (hm_key_fn m) (hm_data_fn m))) alloc s")
      case new: None
      then have "alloc s = None" by (auto simp: list_new_internal_def split: option.splits)
      then show ?thesis using i None new on abs
        by (intro exI [of _ False] exI [of _ m] exI [of _ s] exI [of _ B]) (auto simp: hash_map_set_def released_def)
    next
      case new: (Some l)
      let ?m = "set_bucket i l m"
      have "bucket_on ?m s i []" using list_new_on [OF new] i by (simp add: bucket_on_def set_bucket_def)
      then have "hm_on ?m s (B(i := []))" by (intro hm_on_update [OF on i(2)]) auto
      then have m: "hm_on ?m s B" using fun_upd_idem [of B i "[]"] B by simp
      have "bucket_index ?m k = Some i" "i < length (hm_bucket ?m)" "hm_bucket ?m ! i = Some l" using i by (simp_all add: same_functions_index [of m ?m])
      from set_in_on [OF m this, of v] obtain r m' s' B' where "set_in alloc ?m i l k v s = Some (r, m', s')" "hm_on m' s' B'" "same_functions ?m m'"
          "hm_abs m' B' = (hm_abs ?m B)(k := if r then Some v else None)" "\<not> r \<longrightarrow> (\<exists>t. alloc t = None \<and> used t \<le> used s + 1)" "used s' \<le> used s + 2" "user (rest s') = released ?m (hm_abs ?m B) k (user (rest s))"
        by blast
      then show ?thesis using i None new abs same_functions_trans [of m ?m m'] hm_abs_same [of m ?m B]
        by (intro exI [of _ r] exI [of _ m'] exI [of _ s'] exI [of _ B']) (auto simp: hash_map_set_def released_def)
    qed
  qed
qed

end

section \<open>Clearing\<close>

definition release_all :: "('k, 'v, 'u) hash_map_t \<Rightarrow> ('k, 'v) cell list \<Rightarrow> 'u \<Rightarrow> 'u" where
  "release_all m xs u = fold (\<lambda>x. release m (fst (snd (snd x))) (snd (snd (snd x)))) xs u"

lemma cells_distinct: "bucket_on m s i xs \<Longrightarrow> distinct (map (\<lambda>x. fst (snd x)) xs)"
proof -
  assume b: "bucket_on m s i xs"
  have "entries (rest s) (fst (snd x)) = Some \<lparr>he_key = fst (snd (snd x)), he_data = snd (snd (snd x))\<rparr>" if "x \<in> set xs" for x
    using b that by (simp add: bucket_on_def cell_ok_def)
  then have "map (\<lambda>x. fst (snd (snd x))) xs = map (he_key \<circ> the \<circ> entries (rest s)) (map (\<lambda>x. fst (snd x)) xs)" by simp
  then have "distinct (map (he_key \<circ> the \<circ> entries (rest s)) (map (\<lambda>x. fst (snd x)) xs))" using b by (simp only: bucket_on_def)
  then show ?thesis by (rule distinct_map [THEN iffD1, THEN conjunct1])
qed

lemma free_cells:
  assumes "distinct (map (\<lambda>x. fst (snd x)) xs)"
    and "\<And>x. x \<in> set xs \<Longrightarrow> fst (snd x) \<noteq> 0 \<and> entries w (fst (snd x)) = Some \<lparr>he_key = fst (snd (snd x)), he_data = snd (snd (snd x))\<rparr>"
    and "\<And>e. free_data l e = bucket_free (hm_key_fn m) (hm_data_fn m) e"
  shows "free_all (free_data l) (map (\<lambda>x. fst (snd x)) xs) w = Some (w\<lparr>entries := entries w |` (- (\<lambda>x. fst (snd x)) ` set xs), user := release_all m xs (user w)\<rparr>)"
  using assms(1,2)
proof (induction xs arbitrary: w)
  case (Cons x xs)
  obtain a e k v where x: "x = (a, e, k, v)" by (metis prod_cases4)
  let ?w = "w\<lparr>user := release m k v (user w), entries := (entries w)(e := None)\<rparr>"
  have "entries w e = Some \<lparr>he_key = k, he_data = v\<rparr>" "e \<noteq> 0" using Cons.prems(2) [of x] x by auto
  then have "free_data l e w = Some ?w" using assms(3) by (cases "hm_key_fn m"; cases "hm_data_fn m") (simp_all add: bucket_free_def entry_at_def release_def)
  moreover have e: "e \<notin> (\<lambda>x. fst (snd x)) ` set xs" and d: "distinct (map (\<lambda>x. fst (snd x)) xs)" using Cons.prems(1) by (simp_all add: x)
  have "fst (snd y) \<noteq> 0 \<and> entries ?w (fst (snd y)) = Some \<lparr>he_key = fst (snd (snd y)), he_data = snd (snd (snd y))\<rparr>" if "y \<in> set xs" for y
  proof -
    have "fst (snd y) \<noteq> e" using that e by auto
    then show ?thesis using Cons.prems(2) [of y] that by simp
  qed
  note IH = Cons.IH [of ?w, OF d this]
  moreover have "(\<lambda>a. if a = e then None else entries w a) |` (- (\<lambda>x. fst (snd x)) ` set xs) = entries w |` (- insert e ((\<lambda>x. fst (snd x)) ` set xs))" by (auto simp: restrict_map_def)
  ultimately show ?case by (simp add: x release_all_def)
qed (simp add: release_all_def restrict_map_def)

lemma clear_bucket:
  assumes on: "hm_on m s B" and i: "i < length (hm_bucket m)" and l: "hm_bucket m ! i = Some l"
  shows "\<exists>s'. list_free (Some l) s = Some s' \<and> hm_on (m\<lparr>hm_bucket := (hm_bucket m)[i := None]\<rparr>) s' (B(i := [])) \<and> user (rest s') = release_all m (B i) (user (rest s)) \<and>
    used s' \<le> used s"
proof -
  have b: "bucket_on m s i (B i)" using on i by (simp add: hm_on_def)
  have lo: "list_on (nodes s) l (cell_nodes (B i))" "lt_free_cb l = Some (bucket_free (hm_key_fn m) (hm_data_fn m))" using b l by (simp_all add: bucket_on_def)
  let ?w = "(rest s)\<lparr>entries := entries (rest s) |` (- (\<lambda>x. fst (snd x)) ` set (B i)), user := release_all m (B i) (user (rest s))\<rparr>"
  have "free_all (free_data l) (map (\<lambda>x. fst (snd x)) (B i)) (rest s) = Some ?w"
  proof (rule free_cells [OF cells_distinct [OF b]])
    show "fst (snd x) \<noteq> 0 \<and> entries (rest s) (fst (snd x)) = Some \<lparr>he_key = fst (snd (snd x)), he_data = snd (snd (snd x))\<rparr>" if "x \<in> set (B i)" for x
      using b that by (simp add: bucket_on_def cell_ok_def)
  qed (use lo(2) in \<open>simp add: free_data_def fun_eq_iff\<close>)
  then have "free_all (free_data l) (map snd (cell_nodes (B i))) (rest s) = Some ?w" by (simp add: comp_def)
  moreover have "fst ` set (cell_nodes (B i)) = fst ` set (B i)" by (simp add: image_image)
  ultimately have free: "list_free (Some l) s = Some (s\<lparr>nodes := nodes s |` (- fst ` set (B i)), rest := ?w\<rparr>)"
    using list_clear_on [OF lo(1), of ?w] by (simp only: list_free_def option.case option.map snd_conv)
  let ?m = "m\<lparr>hm_bucket := (hm_bucket m)[i := None]\<rparr>"
  have "bucket_on ?m (s\<lparr>nodes := nodes s |` (- fst ` set (B i)), rest := ?w\<rparr>) i []" using i by (simp add: bucket_on_def)
  then have "hm_on ?m (s\<lparr>nodes := nodes s |` (- fst ` set (B i)), rest := ?w\<rparr>) (B(i := []))"
    by (intro hm_on_update [OF on i]) (auto simp: restrict_map_def image_def)
  moreover have "used (s\<lparr>nodes := nodes s |` (- fst ` set (B i)), rest := ?w\<rparr>) \<le> used s" by (rule used_mono) (auto simp: restrict_map_def dom_def)
  ultimately show ?thesis using free by (intro exI [of _ "s\<lparr>nodes := nodes s |` (- fst ` set (B i)), rest := ?w\<rparr>"]) simp
qed

lemma clear_loop_buckets:
  "hm_on m s B \<Longrightarrow> n + i = length (hm_bucket m) \<Longrightarrow>
   \<exists>m' s'. hm_clear_loop n i m s = Some (m', s') \<and> hm_on m' s' (\<lambda>j. if j < i then B j else if j < n + i then [] else B j) \<and> same_functions m m' \<and>
     user (rest s') = release_all m (concat (map B [i..<n + i])) (user (rest s)) \<and> used s' \<le> used s"
proof (induction n arbitrary: i m s B)
  case 0
  have "(\<lambda>j. if j < i then B j else if j < 0 + i then [] else B j) = B" by auto
  then show ?case using 0 by (simp add: release_all_def)
next
  case (Suc n)
  have i: "i < length (hm_bucket m)" and ni: "n + (i + 1) = length (hm_bucket m)" using Suc.prems(2) by auto
  have r: "[i..<Suc n + i] = i # [i + 1..<n + (i + 1)]" by (simp add: upt_conv_Cons)
  show ?case
  proof (cases "hm_bucket m ! i")
    case None
    have "bucket_on m s i (B i)" using Suc.prems(1) i by (simp add: hm_on_def)
    then have B: "B i = []" using None by (simp add: bucket_on_def)
    obtain m' s' where "hm_clear_loop n (i + 1) m s = Some (m', s')" "hm_on m' s' (\<lambda>j. if j < i + 1 then B j else if j < n + (i + 1) then [] else B j)" "same_functions m m'"
        "user (rest s') = release_all m (concat (map B [i + 1..<n + (i + 1)])) (user (rest s))" "used s' \<le> used s"
      using Suc.IH [OF Suc.prems(1) ni] by blast
    moreover have "(\<lambda>j. if j < i + 1 then B j else if j < n + (i + 1) then [] else B j) = (\<lambda>j. if j < i then B j else if j < Suc n + i then [] else B j)"
      using B by (auto simp: fun_eq_iff less_Suc_eq)
    ultimately show ?thesis using None i r B by (auto simp del: upt_Suc)
  next
    case (Some l)
    let ?m = "m\<lparr>hm_bucket := (hm_bucket m)[i := None]\<rparr>"
    obtain s1 where 1: "list_free (Some l) s = Some s1" "hm_on ?m s1 (B(i := []))" "user (rest s1) = release_all m (B i) (user (rest s))" "used s1 \<le> used s"
      using clear_bucket [OF Suc.prems(1) i Some] by blast
    have "n + (i + 1) = length (hm_bucket ?m)" using ni by simp
    then obtain m' s' where 2: "hm_clear_loop n (i + 1) ?m s1 = Some (m', s')"
        "hm_on m' s' (\<lambda>j. if j < i + 1 then (B(i := [])) j else if j < n + (i + 1) then [] else (B(i := [])) j)" "same_functions ?m m'"
        "user (rest s') = release_all ?m (concat (map (B(i := [])) [i + 1..<n + (i + 1)])) (user (rest s1))" "used s' \<le> used s1"
      using Suc.IH [OF 1(2)] by blast
    have rel: "release_all ?m = release_all m" by (simp add: release_all_def release_same [of m ?m] fun_eq_iff)
    have "(\<lambda>j. if j < i + 1 then (B(i := [])) j else if j < n + (i + 1) then [] else (B(i := [])) j) = (\<lambda>j. if j < i then B j else if j < Suc n + i then [] else B j)"
      by (auto simp: fun_eq_iff less_Suc_eq)
    moreover have "map (B(i := [])) [i + 1..<n + (i + 1)] = map B [i + 1..<n + (i + 1)]" by simp
    ultimately show ?thesis using 1 2 Some i r rel same_functions_trans [of m ?m m'] by (auto simp: release_all_def simp del: upt_Suc)
  qed
qed

lemma hash_map_clear_on:
  assumes on: "hm_on m s B"
  shows "\<exists>m' s' B'. hash_map_clear m s = Some (m', s') \<and> hm_on m' s' B' \<and> same_functions m m' \<and> hm_abs m' B' = Map.empty \<and>
    user (rest s') = release_all m (concat (map B [0..<length (hm_bucket m)])) (user (rest s)) \<and> used s' \<le> used s"
proof -
  let ?n = "unat (hm_num_bucket m)"
  have n: "?n + 0 = length (hm_bucket m)" using on by (simp add: hm_on_def)
  obtain m' s' where r: "hash_map_clear m s = Some (m', s')" "hm_on m' s' (\<lambda>j. if j < 0 then B j else if j < ?n + 0 then [] else B j)" "same_functions m m'"
      "user (rest s') = release_all m (concat (map B [0..<?n + 0])) (user (rest s))" "used s' \<le> used s"
    using clear_loop_buckets [OF on n] unfolding hash_map_clear_def by blast
  have "hm_abs m' (\<lambda>j. if j < 0 then B j else if j < ?n + 0 then [] else B j) = Map.empty"
  proof
    fix k
    obtain i where "bucket_index m k = Some i" "i < length (hm_bucket m)" using hm_on_index [OF on] by blast
    then show "hm_abs m' (\<lambda>j. if j < 0 then B j else if j < ?n + 0 then [] else B j) k = None"
      using same_functions_index [OF r(3)] n by (simp add: hm_abs_def)
  qed
  then show ?thesis using r n by (intro exI [of _ m'] exI [of _ s'] exI [of _ "\<lambda>j. if j < 0 then B j else if j < ?n + 0 then [] else B j"]) simp
qed

section \<open>The hash map as a map\<close>

datatype ('k, 'v) hm_op = Set 'k 'v | Erase 'k | Clear_all

fun hm_exec :: "('k, 'v, 'u) hm_alloc \<Rightarrow> ('k, 'v) hm_op \<Rightarrow> ('k, 'v, 'u) hash_map_t \<Rightarrow> ('k, 'v, 'u) hm_store \<Rightarrow> ('k, 'v, 'u) hm_result" where
  "hm_exec alloc (Set k v) m s = hash_map_set alloc m k v s"
| "hm_exec alloc (Erase k) m s = hash_map_erase m k s"
| "hm_exec alloc Clear_all m s = map_option (Pair True) (hash_map_clear m s)"

fun hm_run :: "('k, 'v, 'u) hm_alloc \<Rightarrow> ('k, 'v) hm_op list \<Rightarrow> ('k, 'v, 'u) hash_map_t \<Rightarrow> ('k, 'v, 'u) hm_store \<Rightarrow> (bool list \<times> ('k, 'v, 'u) hash_map_t \<times> ('k, 'v, 'u) hm_store) option" where
  "hm_run alloc [] m s = Some ([], m, s)"
| "hm_run alloc (op # ops) m s = do { (r, m, s) \<leftarrow> hm_exec alloc op m s; (rs, m, s) \<leftarrow> hm_run alloc ops m s; Some (r # rs, m, s) }"

text \<open>Without memory \<open>hash_map_set\<close> fails, and then the key has no value any more, even if it had one before.\<close>

fun hm_spec :: "bool \<Rightarrow> ('k, 'v) hm_op \<Rightarrow> bool \<Rightarrow> ('k \<rightharpoonup> 'v) \<Rightarrow> ('k \<rightharpoonup> 'v) option" where
  "hm_spec may_fail (Set k v) r M = (if r then Some (M(k \<mapsto> v)) else if may_fail then Some (M(k := None)) else None)"
| "hm_spec may_fail (Erase k) r M = (if r \<longleftrightarrow> M k \<noteq> None then Some (M(k := None)) else None)"
| "hm_spec may_fail Clear_all r M = (if r then Some Map.empty else None)"

fun hm_specs :: "bool \<Rightarrow> ('k, 'v) hm_op list \<Rightarrow> bool list \<Rightarrow> ('k \<rightharpoonup> 'v) \<Rightarrow> ('k \<rightharpoonup> 'v) option" where
  "hm_specs may_fail [] [] M = Some M"
| "hm_specs may_fail (op # ops) (r # rs) M = do { M \<leftarrow> hm_spec may_fail op r M; hm_specs may_fail ops rs M }"
| "hm_specs may_fail _ _ M = None"

context entry_alloc
begin

lemma hm_exec_on:
  assumes on: "hm_on m s B" and may: "\<And>t. alloc t = None \<Longrightarrow> used t \<le> used s + 1 \<Longrightarrow> may_fail"
  shows "\<exists>r m' s' B'. hm_exec alloc op m s = Some (r, m', s') \<and> hm_on m' s' B' \<and> hm_spec may_fail op r (hm_abs m B) = Some (hm_abs m' B') \<and> used s' \<le> used s + 2"
proof (cases op)
  case (Set k v)
  obtain r m' s' B' where "hash_map_set alloc m k v s = Some (r, m', s')" "hm_on m' s' B'" "hm_abs m' B' = (hm_abs m B)(k := if r then Some v else None)"
      "\<not> r \<longrightarrow> (\<exists>t. alloc t = None \<and> used t \<le> used s + 1)" "used s' \<le> used s + 2"
    using hash_map_set_on [OF on] by blast
  then show ?thesis using may by (intro exI [of _ r] exI [of _ m'] exI [of _ s'] exI [of _ B']) (auto simp: Set)
next
  case (Erase k)
  obtain m' s' B' where "hash_map_erase m k s = Some (k \<in> dom (hm_abs m B), m', s')" "hm_on m' s' B'" "hm_abs m' B' = (hm_abs m B)(k := None)" "used s' \<le> used s"
    using hash_map_erase_on [OF on] by blast
  then show ?thesis by (intro exI [of _ "k \<in> dom (hm_abs m B)"] exI [of _ m'] exI [of _ s'] exI [of _ B']) (simp add: Erase domIff)
next
  case Clear_all
  obtain m' s' B' where "hash_map_clear m s = Some (m', s')" "hm_on m' s' B'" "hm_abs m' B' = Map.empty" "used s' \<le> used s"
    using hash_map_clear_on [OF on] by blast
  then show ?thesis by (intro exI [of _ True] exI [of _ m'] exI [of _ s'] exI [of _ B']) (simp add: Clear_all)
qed

lemma hm_run_on:
  assumes room: "\<And>s. used s < K \<Longrightarrow> alloc s \<noteq> None" and "hm_on m s B" and "\<not> may_fail \<Longrightarrow> used s + 2 * length ops \<le> K"
  shows "\<exists>rs m' s' B'. hm_run alloc ops m s = Some (rs, m', s') \<and> hm_on m' s' B' \<and> hm_specs may_fail ops rs (hm_abs m B) = Some (hm_abs m' B')"
  using assms(2,3)
proof (induction ops arbitrary: m s B)
  case Nil
  then show ?case by (intro exI [of _ "[]"] exI [of _ m] exI [of _ s] exI [of _ B]) simp
next
  case (Cons op ops)
  have may: "may_fail" if "alloc t = None" "used t \<le> used s + 1" for t using room [of t] Cons.prems(2) that by fastforce
  obtain r m1 s1 B1 where 1: "hm_exec alloc op m s = Some (r, m1, s1)" "hm_on m1 s1 B1" "hm_spec may_fail op r (hm_abs m B) = Some (hm_abs m1 B1)" "used s1 \<le> used s + 2"
    using hm_exec_on [OF Cons.prems(1), where op = op and may_fail = may_fail] may by blast
  have "\<not> may_fail \<Longrightarrow> used s1 + 2 * length ops \<le> K" using Cons.prems(2) 1(4) by simp
  then obtain rs m' s' B' where "hm_run alloc ops m1 s1 = Some (rs, m', s')" "hm_on m' s' B'" "hm_specs may_fail ops rs (hm_abs m1 B1) = Some (hm_abs m' B')"
    using Cons.IH [OF 1(2)] by blast
  then show ?case using 1 by (intro exI [of _ "r # rs"] exI [of _ m'] exI [of _ s'] exI [of _ B']) simp
qed

end

text \<open>A new map with fewer than \<open>2 ^ 30\<close> buckets has them all.\<close>

lemma hash_map_new_on:
  assumes "hash_map_new_internal n hash_fn key_fn data_fn None alloc s = Some m" and "n \<noteq> 0" and "unat n < 2 ^ 30"
  shows "hm_on m s' (\<lambda>_. []) \<and> hm_abs m (\<lambda>_. []) = Map.empty \<and> hm_key_fn m = key_fn \<and> hm_data_fn m = data_fn"
proof -
  have "unat (4 * n) = 4 * unat n" using assms(3) by (simp add: unat_word_ariths)
  then show ?thesis using assms
    by (auto simp: hash_map_new_internal_def hm_on_def bucket_on_def hm_abs_def default_key_equality_def fun_eq_iff split: option.splits)
qed

text \<open>An allocator of nodes and entries that takes the first free address of an arena.\<close>

definition first_entry :: "ptr list \<Rightarrow> ('k, 'v, 'u) hm_alloc" where
  "first_entry arena s = find (\<lambda>a. a \<noteq> 0 \<and> nodes s a = None \<and> entries (rest s) a = None) arena"

interpretation entry_arena: entry_alloc "first_entry arena"
  by unfold_locales (auto simp: first_entry_def find_Some_iff)

text \<open>C14: the hash map of the Bluetooth host is a map.  For every hash function, and an allocator that gives unused addresses as long as fewer than \<open>K\<close> nodes and entries are in use: after any series of
  setting, erasing and clearing on a new map, without an access outside of its memory and with every loop ending, looking up a key gives what the series stored last, and the results are those of the
  operations on a map.  A call of \<open>hash_map_set\<close> can only fail when the memory does not have room for two cells per operation, and it then leaves the key without its former value.\<close>

theorem hash_map_refines_map:
  assumes "entry_alloc alloc" and "\<And>s. used s < K \<Longrightarrow> alloc s \<noteq> None" and "hash_map_new_internal n hash_fn key_fn data_fn None alloc s0 = Some m" and "n \<noteq> 0" and "unat n < 2 ^ 30"
  shows "\<exists>rs m' s' M. hm_run alloc ops m s = Some (rs, m', s') \<and> hm_specs (K < used s + 2 * length ops) ops rs Map.empty = Some M \<and>
    (\<forall>k. hash_map_get m' k s' = Some (M k) \<and> hash_map_has_key m' k s' = Some (M k \<noteq> None))"
proof -
  have new: "hm_on m s (\<lambda>_. [])" "hm_abs m (\<lambda>_. []) = Map.empty" using hash_map_new_on [OF assms(3-5)] by blast+
  have "\<exists>rs m' s' B'. hm_run alloc ops m s = Some (rs, m', s') \<and> hm_on m' s' B' \<and> hm_specs (K < used s + 2 * length ops) ops rs (hm_abs m (\<lambda>_. [])) = Some (hm_abs m' B')"
    by (rule entry_alloc.hm_run_on [OF assms(1), where K = K]) (use assms(2) new(1) in auto)
  then obtain rs m' s' B where "hm_run alloc ops m s = Some (rs, m', s')" "hm_on m' s' B" "hm_specs (K < used s + 2 * length ops) ops rs Map.empty = Some (hm_abs m' B)"
    using new(2) by auto
  then show ?thesis using hash_map_get_on [of m' s' B] hash_map_has_key_on [of m' s' B]
    by (intro exI [of _ rs] exI [of _ m'] exI [of _ s'] exI [of _ "hm_abs m' B"]) (simp add: domIff)
qed

definition hm_store0 :: "(ptr, nat, unit) hm_store" where "hm_store0 = \<lparr>nodes = Map.empty, rest = \<lparr>entries = Map.empty, user = ()\<rparr>\<rparr>"

definition example_map :: "(ptr, nat, unit) hash_map_t" where
  "example_map = \<lparr>hm_bucket = replicate 2 None, hm_num_bucket = 2, hm_hash_size = 0, hm_hash_fn = hash_function_naive, hm_key_fn = None, hm_data_fn = None, hm_keys_are_equal = default_key_equality\<rparr>"

lemma first_entry_room: "used s < card (set arena - {0}) \<Longrightarrow> first_entry arena s \<noteq> None"
proof
  assume u: "used s < card (set arena - {0})" and "first_entry arena s = None"
  then have "set arena - {0} \<subseteq> dom (nodes s) \<union> dom (entries (rest s))" unfolding first_entry_def find_None_iff by auto
  then have "card (set arena - {0}) \<le> card (dom (nodes s) \<union> dom (entries (rest s)))" by (rule card_mono [rotated]) simp
  also have "\<dots> \<le> used s" unfolding used_def by (rule card_Un_le)
  finally show False using u by simp
qed

lemma arena_room: "used s < 6 \<Longrightarrow> first_entry [4, 8, 12, 16, 20, 24] s \<noteq> None"
  by (rule first_entry_room) simp

theorem hash_map_refines_map_witness:
  "\<exists>rs m' s'. hm_run (first_entry [4, 8, 12, 16, 20, 24]) [Set 1 10, Set 3 30, Erase 1] example_map hm_store0 = Some (rs, m', s') \<and>
     rs = [True, True, True] \<and> hash_map_get m' 1 s' = Some None \<and> hash_map_get m' 3 s' = Some (Some 30)"
proof -
  let ?ops = "[Set 1 10, Set 3 30, Erase 1] :: (ptr, nat) hm_op list" and ?al = "first_entry [4, 8, 12, 16, 20, 24] :: (ptr, nat, unit) hm_alloc"
  have new: "hash_map_new_internal 2 hash_function_naive None None None ?al hm_store0 = Some example_map"
    by (simp add: hash_map_new_internal_def first_entry_def hm_store0_def example_map_def)
  have k: "\<not> 6 < used hm_store0 + 2 * length ?ops" by (simp add: used_def hm_store0_def)
  obtain rs m' s' M where run: "hm_run ?al ?ops example_map hm_store0 = Some (rs, m', s')" "hm_specs (6 < used hm_store0 + 2 * length ?ops) ?ops rs Map.empty = Some M"
      "\<forall>k. hash_map_get m' k s' = Some (M k)"
    using hash_map_refines_map [where K = 6 and ops = ?ops and s = hm_store0, OF entry_arena.entry_alloc_axioms arena_room new] by force
  have "\<exists>r1 r2 r3. rs = [r1, r2, r3]" using run(2) k by (cases rs; cases "tl rs"; cases "tl (tl rs)"; cases "tl (tl (tl rs))") (auto split: if_splits bind_splits)
  then show ?thesis using run k by (auto split: if_splits)
qed

end
