(* ===== verification/HciFragmenter.thy ===== *)
theory HciFragmenter
  imports HashMap
begin

text \<open>
  \<^verbatim>\<open>components/bt/bluedroid/hci\<close>: packets between the Bluetooth host and the controller.  \<^verbatim>\<open>packet_fragmenter.c\<close> cuts outgoing ACL packets to the size the controller takes and
  puts incoming ones together again; \<^verbatim>\<open>hci_hal_h4.c\<close> sends the fragments and checks what arrives; from \<^verbatim>\<open>hci_layer.c\<close> come the callbacks between them and the step
  of the sending task that goes on with a packet in fragments.

  Packets have a heap of their own, in the caller's memory of the hash map \<open>partial_packets\<close>, which maps the handle of a connection to the packet that is being put together.  The fields of
  a \<open>BT_HDR\<close> are words of 16 bits and wrap around; its data are the bytes that were allocated behind the header.  Parameters are the two buffer sizes of the controller, the
  allocator of packets \<open>balloc\<close>, which gives an address and what the memory holds there, \<open>send\<close> for \<open>esp_vhci_host_send_packet\<close> and \<open>post\<close> for \<open>btu_task_post\<close>.
  The queue between the driver's callback and the receiving task passes packets on in order and is left out.
\<close>

section \<open>Data\<close>

record BT_HDR =
  hd_event :: "16 word"
  hd_len :: "16 word"
  hd_offset :: "16 word"
  hd_layer_specific :: "16 word"
  hd_data :: mem

record 'w hci_mem =
  packets :: "ptr \<rightharpoonup> BT_HDR"
  hci_world :: 'w

type_synonym 'w pm_store = "(ptr, ptr, 'w hci_mem) hm_store"
type_synonym 'w pm_alloc = "(ptr, ptr, 'w hci_mem) hm_alloc"
type_synonym 'w pkt_alloc = "nat \<Rightarrow> 'w hci_mem \<Rightarrow> (ptr \<times> BT_HDR) option"

record 'w fragmenter =
  fr_partial_packets :: "(ptr, ptr, 'w hci_mem) hash_map_t"
  fr_current_fragment_packet :: ptr
  fr_store :: "'w pm_store"

record 'w packet_fragmenter_callbacks_t =
  cb_fragmented :: "ptr \<Rightarrow> bool \<Rightarrow> 'w hci_mem \<Rightarrow> 'w hci_mem option"
  cb_reassembled :: "ptr \<Rightarrow> 'w hci_mem \<Rightarrow> 'w hci_mem option"
  cb_transmit_finished :: "ptr \<Rightarrow> bool \<Rightarrow> 'w hci_mem \<Rightarrow> 'w hci_mem option"

text \<open>The stream macros of \<^verbatim>\<open>bt_types.h\<close>: 16 bits, the low byte first.\<close>

definition STREAM_TO_UINT16 :: "mem \<Rightarrow> nat \<Rightarrow> 16 word option" where
  "STREAM_TO_UINT16 b p = do { x \<leftarrow> rd b p; y \<leftarrow> rd b (p + 1); Some (ucast x + push_bit 8 (ucast y)) }"

definition UINT16_TO_STREAM :: "mem \<Rightarrow> nat \<Rightarrow> 16 word \<Rightarrow> mem option" where
  "UINT16_TO_STREAM b p u = do { b \<leftarrow> wr b p (ucast u); wr b (p + 1) (ucast (drop_bit 8 u)) }"

definition copy_bytes :: "mem \<Rightarrow> nat \<Rightarrow> mem \<Rightarrow> nat \<Rightarrow> nat \<Rightarrow> mem option" where
  "copy_bytes dst p src q n = do { xs \<leftarrow> slice src q n; map_option fst (emit xs (dst, p)) }"

definition packet_at :: "'w hci_mem \<Rightarrow> ptr \<Rightarrow> BT_HDR option" where
  "packet_at u p = (if p = 0 then None else packets u p)"

definition put_packet :: "ptr \<Rightarrow> BT_HDR \<Rightarrow> 'w hci_mem \<Rightarrow> 'w hci_mem" where
  "put_packet p packet u = u\<lparr>packets := (packets u)(p \<mapsto> packet)\<rparr>"

text \<open>\<open>free\<close> of NULL does nothing, of an address that is not allocated it is undefined.\<close>

definition free_packet :: "ptr \<Rightarrow> 'w hci_mem \<Rightarrow> 'w hci_mem option" where
  "free_packet p u = (if p = 0 then Some u else if packets u p = None then None else Some (u\<lparr>packets := (packets u)(p := None)\<rparr>))"

definition mem_of :: "'w fragmenter \<Rightarrow> 'w hci_mem" where
  "mem_of fr = user (rest (fr_store fr))"

definition with_mem :: "'w hci_mem \<Rightarrow> 'w fragmenter \<Rightarrow> 'w fragmenter" where
  "with_mem u fr = fr\<lparr>fr_store := (fr_store fr)\<lparr>rest := (rest (fr_store fr))\<lparr>user := u\<rparr>\<rparr>\<rparr>"

definition call :: "('w hci_mem \<Rightarrow> 'w hci_mem option) \<Rightarrow> 'w fragmenter \<Rightarrow> 'w fragmenter option" where
  "call f fr = map_option (\<lambda>u. with_mem u fr) (f (mem_of fr))"

section \<open>Sending\<close>

definition MSG_EVT_MASK :: "16 word" where "MSG_EVT_MASK = 0xFF00"
definition MSG_SUB_EVT_MASK :: "16 word" where "MSG_SUB_EVT_MASK = 0x00FF"
definition MSG_STACK_TO_HC_HCI_ACL :: "16 word" where "MSG_STACK_TO_HC_HCI_ACL = 0x2100"
definition MSG_HC_TO_STACK_HCI_ACL :: "16 word" where "MSG_HC_TO_STACK_HCI_ACL = 0x1100"
definition MSG_HC_TO_STACK_L2C_SEG_XMIT :: "16 word" where "MSG_HC_TO_STACK_L2C_SEG_XMIT = 0x1900"

definition APPLY_CONTINUATION_FLAG :: "16 word \<Rightarrow> 16 word" where
  "APPLY_CONTINUATION_FLAG handle = (handle AND 0xCFFF) OR 0x1000"

text \<open>\<open>init\<close>: 42 buckets, pointer equality and no functions that free.\<close>

definition fragmenter_init :: "'w pm_alloc \<Rightarrow> 'w pm_store \<Rightarrow> 'w fragmenter option" where
  "fragmenter_init alloc s = map_option (\<lambda>m. \<lparr>fr_partial_packets = m, fr_current_fragment_packet = 0, fr_store = s\<rparr>)
     (hash_map_new_internal 42 hash_function_naive None None None alloc s)"

definition fragmenter_cleanup :: "'w fragmenter \<Rightarrow> 'w fragmenter option" where
  "fragmenter_cleanup fr = map_option (\<lambda>s. fr\<lparr>fr_store := s\<rparr>) (hash_map_free (Some (fr_partial_packets fr)) (fr_store fr))"

text \<open>The part of \<open>fragment_and_dispatch\<close> after a fragment was sent: the header of the next one overwrites the end of the last.\<close>

definition next_fragment :: "'w packet_fragmenter_callbacks_t \<Rightarrow> ptr \<Rightarrow> 16 word \<Rightarrow> 16 word \<Rightarrow> 16 word \<Rightarrow> 'w fragmenter \<Rightarrow> 'w fragmenter option" where
  "next_fragment cb p max_data_size remaining_length continuation_handle fr = do {
     packet \<leftarrow> packet_at (mem_of fr) p;
     let offset = hd_offset packet + max_data_size;
     let remaining_length = remaining_length - max_data_size;
     b \<leftarrow> UINT16_TO_STREAM (hd_data packet) (unat offset) continuation_handle;
     b \<leftarrow> UINT16_TO_STREAM b (unat offset + 2) (remaining_length - 4);
     let packet = packet\<lparr>hd_offset := offset, hd_len := remaining_length, hd_data := b\<rparr>;
     if hd_layer_specific packet \<noteq> 0 then do {
       let packet = packet\<lparr>hd_layer_specific := hd_layer_specific packet - 1\<rparr>;
       if hd_layer_specific packet = 0 then do {
         let packet = packet\<lparr>hd_event := MSG_HC_TO_STACK_L2C_SEG_XMIT\<rparr>;
         call (\<lambda>u. cb_transmit_finished cb p False (put_packet p packet u)) (fr\<lparr>fr_current_fragment_packet := 0\<rparr>) }
       else call (\<lambda>u. Some (put_packet p packet u)) fr }
     else call (\<lambda>u. Some (put_packet p packet u)) fr }"

definition fragment_and_dispatch :: "'w packet_fragmenter_callbacks_t \<Rightarrow> 16 word \<Rightarrow> 16 word \<Rightarrow> ptr \<Rightarrow> 'w fragmenter \<Rightarrow> 'w fragmenter option" where
  "fragment_and_dispatch cb classic ble p fr = do {
     packet \<leftarrow> packet_at (mem_of fr) p;
     if hd_event packet AND MSG_EVT_MASK \<noteq> MSG_STACK_TO_HC_HCI_ACL then call (cb_fragmented cb p True) fr
     else do {
       let max_data_size = (if hd_event packet AND MSG_SUB_EVT_MASK = 0 then classic else ble);
       let max_packet_size = max_data_size + 4;
       let remaining_length = hd_len packet;
       handle \<leftarrow> STREAM_TO_UINT16 (hd_data packet) (unat (hd_offset packet));
       if remaining_length > max_packet_size then do {
         b \<leftarrow> UINT16_TO_STREAM (hd_data packet) (unat (hd_offset packet) + 2) max_data_size;
         fr \<leftarrow> call (\<lambda>u. cb_fragmented cb p False (put_packet p (packet\<lparr>hd_data := b, hd_len := max_packet_size\<rparr>) u)) (fr\<lparr>fr_current_fragment_packet := p\<rparr>);
         next_fragment cb p max_data_size remaining_length (APPLY_CONTINUATION_FLAG handle) fr }
       else call (cb_fragmented cb p True) (fr\<lparr>fr_current_fragment_packet := 0\<rparr>) } }"

text \<open>\<open>hci_host_thread_handler\<close> goes on with the current packet as often as the controller takes one.\<close>

partial_function (option) transmit_packet :: "'w packet_fragmenter_callbacks_t \<Rightarrow> 16 word \<Rightarrow> 16 word \<Rightarrow> ptr \<Rightarrow> 'w fragmenter \<Rightarrow> 'w fragmenter option" where
  "transmit_packet cb classic ble p fr = do {
     fr \<leftarrow> fragment_and_dispatch cb classic ble p fr;
     if fr_current_fragment_packet fr = 0 then Some fr else transmit_packet cb classic ble (fr_current_fragment_packet fr) fr }"

definition event_to_data_type :: "16 word \<Rightarrow> int" where
  "event_to_data_type event = (if event = MSG_STACK_TO_HC_HCI_ACL then 2 else if event = 0x2200 then 3 else if event = 0x2000 then 1 else 0)"

text \<open>\<open>transmit_data\<close> puts the type in the byte before the data, sends, and restores that byte.\<close>

definition transmit_data :: "(byte list \<Rightarrow> 'w \<Rightarrow> 'w) \<Rightarrow> int \<Rightarrow> byte list \<Rightarrow> 'w \<Rightarrow> 'w" where
  "transmit_data send type xs w = (if type < 1 \<or> type > 3 then w else send (word_of_int type # xs) w)"

definition transmit_fragment :: "(byte list \<Rightarrow> 'w \<Rightarrow> 'w) \<Rightarrow> ptr \<Rightarrow> bool \<Rightarrow> 'w hci_mem \<Rightarrow> 'w hci_mem option" where
  "transmit_fragment send p send_transmit_finished u = do {
     packet \<leftarrow> packet_at u p;
     let event = hd_event packet AND MSG_EVT_MASK;
     xs \<leftarrow> slice (hd_data packet) (unat (hd_offset packet)) (unat (hd_len packet));
     let u = u\<lparr>hci_world := transmit_data send (event_to_data_type event) xs (hci_world u)\<rparr>;
     if event \<noteq> 0x2000 \<and> send_transmit_finished then free_packet p u else Some u }"

definition dispatch_reassembled :: "(ptr \<Rightarrow> 'w hci_mem \<Rightarrow> bool \<times> 'w hci_mem) \<Rightarrow> ptr \<Rightarrow> 'w hci_mem \<Rightarrow> 'w hci_mem option" where
  "dispatch_reassembled post p u = (let (ok, u) = post p u in if ok then Some u else free_packet p u)"

definition fragmenter_transmit_finished :: "(ptr \<Rightarrow> 'w hci_mem \<Rightarrow> bool \<times> 'w hci_mem) \<Rightarrow> ptr \<Rightarrow> bool \<Rightarrow> 'w hci_mem \<Rightarrow> 'w hci_mem option" where
  "fragmenter_transmit_finished post p all_fragments_sent u = (if all_fragments_sent then free_packet p u else dispatch_reassembled post p u)"

definition packet_fragmenter_callbacks :: "(byte list \<Rightarrow> 'w \<Rightarrow> 'w) \<Rightarrow> (ptr \<Rightarrow> 'w hci_mem \<Rightarrow> bool \<times> 'w hci_mem) \<Rightarrow> 'w packet_fragmenter_callbacks_t" where
  "packet_fragmenter_callbacks send post =
     \<lparr>cb_fragmented = transmit_fragment send, cb_reassembled = dispatch_reassembled post, cb_transmit_finished = fragmenter_transmit_finished post\<rparr>"

section \<open>Receiving\<close>

definition GET_BOUNDARY_FLAG :: "16 word \<Rightarrow> 16 word" where
  "GET_BOUNDARY_FLAG handle = drop_bit 12 handle AND 3"

text \<open>The two parts of \<open>reassemble_and_dispatch\<close>: the first packet of a message, and one that continues it.\<close>

definition start_packet :: "'w packet_fragmenter_callbacks_t \<Rightarrow> 'w pm_alloc \<Rightarrow> 'w pkt_alloc \<Rightarrow> ptr \<Rightarrow> BT_HDR \<Rightarrow> ptr \<Rightarrow> 16 word \<Rightarrow> ptr option \<Rightarrow> 'w fragmenter \<Rightarrow> 'w fragmenter option" where
  "start_packet cb alloc balloc p packet handle l2cap_length partial_packet fr = do {
     fr \<leftarrow> (case partial_packet of None \<Rightarrow> Some fr
       | Some old \<Rightarrow> do {
           (r, m, s) \<leftarrow> hash_map_erase (fr_partial_packets fr) handle (fr_store fr);
           call (free_packet old) (fr\<lparr>fr_partial_packets := m, fr_store := s\<rparr>) });
     let full_length = l2cap_length + 4 + 4;
     if full_length \<le> hd_len packet then call (cb_reassembled cb p) fr
     else do {
       (new, fresh) \<leftarrow> balloc (unat full_length) (mem_of fr);
       b \<leftarrow> copy_bytes (hd_data fresh) 0 (hd_data packet) (unat (hd_offset packet)) (unat (hd_len packet));
       b \<leftarrow> UINT16_TO_STREAM b 2 (full_length - 4);
       fr \<leftarrow> call (\<lambda>u. Some (put_packet new (fresh\<lparr>hd_event := hd_event packet, hd_len := full_length, hd_offset := hd_len packet, hd_data := b\<rparr>) u)) fr;
       (r, m, s) \<leftarrow> hash_map_set alloc (fr_partial_packets fr) handle new (fr_store fr);
       call (free_packet p) (fr\<lparr>fr_partial_packets := m, fr_store := s\<rparr>) } }"

definition continue_packet :: "'w packet_fragmenter_callbacks_t \<Rightarrow> ptr \<Rightarrow> BT_HDR \<Rightarrow> ptr \<Rightarrow> ptr option \<Rightarrow> 'w fragmenter \<Rightarrow> 'w fragmenter option" where
  "continue_packet cb p packet handle partial_packet fr = (case partial_packet of None \<Rightarrow> call (free_packet p) fr
     | Some q \<Rightarrow> do {
         part \<leftarrow> packet_at (mem_of fr) q;
         let offset = hd_offset packet + 4;
         let len = hd_len packet - 4;
         let projected_offset = hd_offset part + len;
         let (len, projected_offset) = (if projected_offset > hd_len part then (hd_len part - hd_offset part, hd_len part) else (len, projected_offset));
         b \<leftarrow> copy_bytes (hd_data part) (unat (hd_offset part)) (hd_data packet) (unat offset) (unat len);
         fr \<leftarrow> call (free_packet p) fr;
         let part = part\<lparr>hd_data := b, hd_offset := projected_offset\<rparr>;
         if hd_offset part = hd_len part then do {
           fr \<leftarrow> call (\<lambda>u. Some (put_packet q part u)) fr;
           (r, m, s) \<leftarrow> hash_map_erase (fr_partial_packets fr) handle (fr_store fr);
           call (\<lambda>u. cb_reassembled cb q (put_packet q (part\<lparr>hd_offset := 0\<rparr>) u)) (fr\<lparr>fr_partial_packets := m, fr_store := s\<rparr>) }
         else call (\<lambda>u. Some (put_packet q part u)) fr })"

definition reassemble_and_dispatch :: "'w packet_fragmenter_callbacks_t \<Rightarrow> 'w pm_alloc \<Rightarrow> 'w pkt_alloc \<Rightarrow> ptr \<Rightarrow> 'w fragmenter \<Rightarrow> 'w fragmenter option" where
  "reassemble_and_dispatch cb alloc balloc p fr = do {
     packet \<leftarrow> packet_at (mem_of fr) p;
     if hd_event packet AND MSG_EVT_MASK = MSG_HC_TO_STACK_HCI_ACL then do {
       let stream = unat (hd_offset packet);
       handle \<leftarrow> STREAM_TO_UINT16 (hd_data packet) stream;
       acl_length \<leftarrow> STREAM_TO_UINT16 (hd_data packet) (stream + 2);
       l2cap_length \<leftarrow> STREAM_TO_UINT16 (hd_data packet) (stream + 4);
       let boundary_flag = GET_BOUNDARY_FLAG handle;
       let handle = ucast (handle AND 0x0FFF);
       partial_packet \<leftarrow> hash_map_get (fr_partial_packets fr) handle (fr_store fr);
       if boundary_flag = 2 then start_packet cb alloc balloc p packet handle l2cap_length partial_packet fr
       else continue_packet cb p packet handle partial_packet fr }
     else call (cb_reassembled cb p) fr }"

text \<open>What the driver does with bytes from the controller: \<open>host_recv_pkt_cb\<close> copies them to a packet (NULL here, and the result -1, without memory), \<open>hci_hal_h4_hdl_rx_packet\<close> drops it unless type and length fit.\<close>

definition host_recv_pkt_cb :: "'w pkt_alloc \<Rightarrow> byte list \<Rightarrow> 'w hci_mem \<Rightarrow> ptr \<times> 'w hci_mem" where
  "host_recv_pkt_cb balloc data u = (case balloc (length data) u of None \<Rightarrow> (0, u)
     | Some (p, fresh) \<Rightarrow> (p, put_packet p (fresh\<lparr>hd_offset := 0, hd_len := word_of_nat (length data), hd_layer_specific := 0, hd_data := data\<rparr>) u))"

definition preamble_sizes :: "nat list" where "preamble_sizes = [3, 4, 3, 2]"

definition outbound_event_types :: "16 word list" where "outbound_event_types = [0x1300, 0x1100, 0x1200, 0x1000]"

definition hci_hal_h4_hdl_rx_packet :: "(ptr \<Rightarrow> 'w fragmenter \<Rightarrow> 'w fragmenter option) \<Rightarrow> ptr \<Rightarrow> 'w fragmenter \<Rightarrow> 'w fragmenter option" where
  "hci_hal_h4_hdl_rx_packet packet_ready p fr = do {
     packet \<leftarrow> packet_at (mem_of fr) p;
     let stream = unat (hd_offset packet);
     type \<leftarrow> rd (hd_data packet) stream;
     let packet = packet\<lparr>hd_offset := hd_offset packet + 1, hd_len := hd_len packet - 1\<rparr>;
     let drop_it = call (\<lambda>u. free_packet p (put_packet p packet u)) fr;
     if type = 0x3e then do { l \<leftarrow> rd (hd_data packet) (stream + 1); drop_it }
     else if type < 2 \<or> type > 4 then drop_it
     else do {
       let hdr_size = preamble_sizes ! (unat type - 1);
       if unat (hd_len packet) < hdr_size then drop_it
       else do {
         len \<leftarrow> (if type = 2 then map_option unat (STREAM_TO_UINT16 (hd_data packet) (stream + 1 + hdr_size - 2))
                else map_option unat (rd (hd_data packet) (stream + 1 + hdr_size - 1)));
         if len + hdr_size \<noteq> unat (hd_len packet) then drop_it
         else do {
           fr \<leftarrow> call (\<lambda>u. Some (put_packet p (packet\<lparr>hd_event := outbound_event_types ! (unat type - 1)\<rparr>) u)) fr;
           packet_ready p fr } } } }"

text \<open>\<open>hal_says_packet_ready\<close>: events go through \<open>filter_incoming_event\<close> (theory \<open>HciCommands\<close>), a parameter \<open>filter_event\<close> here, and up if it does not keep them.
  Bytes that arrive go through all of these.\<close>

definition hal_says_packet_ready ::
    "'w packet_fragmenter_callbacks_t \<Rightarrow> 'w pm_alloc \<Rightarrow> 'w pkt_alloc \<Rightarrow> (ptr \<Rightarrow> 'w fragmenter \<Rightarrow> (bool \<times> 'w fragmenter) option) \<Rightarrow> ptr \<Rightarrow> 'w fragmenter \<Rightarrow> 'w fragmenter option" where
  "hal_says_packet_ready cb alloc balloc filter_event p fr = do {
     packet \<leftarrow> packet_at (mem_of fr) p;
     if hd_event packet \<noteq> 0x1000 then reassemble_and_dispatch cb alloc balloc p fr
     else do { (kept, fr) \<leftarrow> filter_event p fr; if kept then Some fr else call (cb_reassembled cb p) fr } }"

definition receive ::
    "'w packet_fragmenter_callbacks_t \<Rightarrow> 'w pm_alloc \<Rightarrow> 'w pkt_alloc \<Rightarrow> (ptr \<Rightarrow> 'w fragmenter \<Rightarrow> (bool \<times> 'w fragmenter) option) \<Rightarrow> byte list \<Rightarrow> 'w fragmenter \<Rightarrow> 'w fragmenter option" where
  "receive cb alloc balloc filter_event data fr = (let (p, u) = host_recv_pkt_cb balloc data (mem_of fr) in
     if p = 0 then Some (with_mem u fr) else hci_hal_h4_hdl_rx_packet (hal_says_packet_ready cb alloc balloc filter_event) p (with_mem u fr))"

fun receive_all ::
    "'w packet_fragmenter_callbacks_t \<Rightarrow> 'w pm_alloc \<Rightarrow> 'w pkt_alloc \<Rightarrow> (ptr \<Rightarrow> 'w fragmenter \<Rightarrow> (bool \<times> 'w fragmenter) option) \<Rightarrow> byte list list \<Rightarrow> 'w fragmenter \<Rightarrow> 'w fragmenter option" where
  "receive_all cb alloc balloc filter_event [] fr = Some fr"
| "receive_all cb alloc balloc filter_event (x # xs) fr = do { fr \<leftarrow> receive cb alloc balloc filter_event x fr; receive_all cb alloc balloc filter_event xs fr }"

section \<open>Streams\<close>

definition le16 :: "16 word \<Rightarrow> byte list" where "le16 x = [ucast x, ucast (drop_bit 8 x)]"

lemma length_le16 [simp]: "length (le16 x) = 2"
  by (simp add: le16_def)

lemma le16_value: "(ucast (ucast x :: byte) + push_bit 8 (ucast (ucast (drop_bit 8 x) :: byte)) :: 16 word) = x"
proof -
  let ?lo = "ucast (ucast x :: byte) :: 16 word" and ?hi = "push_bit 8 (ucast (ucast (drop_bit 8 x) :: byte)) :: 16 word"
  have "?lo + ?hi = ?lo OR ?hi" by (rule disjunctive_add) (auto simp: bit_simps)
  also have "\<dots> = x" by (rule bit_word_eqI) (auto simp: bit_simps)
  finally show ?thesis .
qed

lemma stream_read: "drop p b = le16 x @ ys \<Longrightarrow> STREAM_TO_UINT16 b p = Some x"
  using drop_prefix_nth [of p b "le16 x" ys 0] drop_prefix_nth [of p b "le16 x" ys 1] le16_value [of x]
  by (simp add: STREAM_TO_UINT16_def le16_def)

lemma stream_write: "p + 2 \<le> length b \<Longrightarrow> UINT16_TO_STREAM b p x = Some (put p (le16 x) b)"
  using put_append [of p "[ucast x]" "[ucast (drop_bit 8 x)]" b]
  by (simp add: UINT16_TO_STREAM_def wr_def le16_def put_singleton)

section \<open>Fragments\<close>

text \<open>How a body of bytes is cut: every fragment has the handle, its own length and at most \<open>m\<close> bytes.\<close>

function fragments :: "nat \<Rightarrow> 16 word \<Rightarrow> byte list \<Rightarrow> byte list list" where
  "fragments m h body = (if m = 0 \<or> length body \<le> m then [le16 h @ le16 (word_of_nat (length body)) @ body]
     else (le16 h @ le16 (word_of_nat m) @ take m body) # fragments m (APPLY_CONTINUATION_FLAG h) (drop m body))"
  by pat_completeness auto
termination by (relation "measure (\<lambda>(m, h, body). length body)") auto

declare fragments.simps [simp del]

text \<open>An outgoing ACL packet with its handle, its length and its body.\<close>

definition acl_packet :: "BT_HDR \<Rightarrow> 16 word \<Rightarrow> byte list \<Rightarrow> bool" where
  "acl_packet packet h body \<longleftrightarrow> hd_event packet AND MSG_EVT_MASK = MSG_STACK_TO_HC_HCI_ACL \<and> hd_layer_specific packet = 0 \<and>
     hd_len packet = word_of_nat (4 + length body) \<and> unat (hd_offset packet) + 4 + length body < 65536 \<and>
     (\<exists>pre tl. hd_data packet = pre @ le16 h @ le16 (word_of_nat (length body)) @ body @ tl \<and> length pre = unat (hd_offset packet))"

lemma call_mem [simp]:
  "mem_of (with_mem u fr) = u" "fr_current_fragment_packet (with_mem u fr) = fr_current_fragment_packet fr" "fr_partial_packets (with_mem u fr) = fr_partial_packets fr"
  "mem_of (fr\<lparr>fr_current_fragment_packet := c\<rparr>) = mem_of fr" "with_mem u (with_mem v fr) = with_mem u fr"
  "(with_mem u fr)\<lparr>fr_current_fragment_packet := c\<rparr> = with_mem u (fr\<lparr>fr_current_fragment_packet := c\<rparr>)"
  by (simp_all add: mem_of_def with_mem_def)

lemma put_packet_simps [simp]:
  "packets (put_packet p x u) = (packets u)(p \<mapsto> x)" "hci_world (put_packet p x u) = hci_world u" "put_packet p x (put_packet p y u) = put_packet p x u"
  by (simp_all add: put_packet_def)

lemma unat_of_nat16 [simp]: "n < 65536 \<Longrightarrow> unat (word_of_nat n :: 16 word) = n"
  by (simp add: unat_of_nat take_bit_nat_eq_self)

lemma put_mid: "length ys = length zs \<Longrightarrow> put (length xs) zs (xs @ ys @ ws) = xs @ zs @ ws"
  by (simp add: put_def)

lemma stream_read_at: "length xs = p \<Longrightarrow> STREAM_TO_UINT16 (xs @ le16 x @ ys) p = Some x"
  by (rule stream_read [of _ _ _ ys]) simp

lemma stream_write_at: "length xs = p \<Longrightarrow> length ys = 2 \<Longrightarrow> UINT16_TO_STREAM (xs @ ys @ ws) p x = Some (xs @ le16 x @ ws)"
  using stream_write [of p "xs @ ys @ ws" x] put_mid [of ys "le16 x" xs ws] by simp

text \<open>One step on a packet that is too long: a fragment goes out and the packet shrinks.\<close>

lemma fragment_step:
  assumes p: "p \<noteq> 0" "packets (mem_of fr) p = Some packet" and a: "acl_packet packet h body"
    and m: "m = (if hd_event packet AND MSG_SUB_EVT_MASK = 0 then classic else ble)" "unat m < length body"
  shows "\<exists>packet' u. fragment_and_dispatch (packet_fragmenter_callbacks send post) classic ble p fr = Some (with_mem u (fr\<lparr>fr_current_fragment_packet := p\<rparr>)) \<and>
    u = (mem_of fr)\<lparr>hci_world := send (2 # le16 h @ le16 m @ take (unat m) body) (hci_world (mem_of fr)), packets := (packets (mem_of fr))(p \<mapsto> packet')\<rparr> \<and>
    acl_packet packet' (APPLY_CONTINUATION_FLAG h) (drop (unat m) body) \<and> hd_event packet' = hd_event packet"
proof -
  define o' n where "o' = unat (hd_offset packet)" and "n = unat m"
  obtain pre tl where d: "hd_data packet = pre @ le16 h @ le16 (word_of_nat (length body)) @ body @ tl" "length pre = o'"
      and ev: "hd_event packet AND MSG_EVT_MASK = MSG_STACK_TO_HC_HCI_ACL" "hd_layer_specific packet = 0" and len: "hd_len packet = word_of_nat (4 + length body)" "o' + 4 + length body < 65536"
    using a by (auto simp: acl_packet_def o'_def)
  have mn: "m = word_of_nat n" "n < length body" using m(2) by (simp_all add: n_def)
  have m4: "m + 4 = word_of_nat (n + 4)" by (simp add: mn(1))
  have long: "hd_len packet > m + 4" using mn(2) len by (simp add: word_less_nat_alt m4 del: of_nat_add)
  let ?b = "pre @ le16 h @ le16 m @ body @ tl"
  have h: "STREAM_TO_UINT16 (hd_data packet) o' = Some h" using stream_read_at [of pre o' h] d by simp
  have w: "UINT16_TO_STREAM (hd_data packet) (o' + 2) m = Some ?b" using stream_write_at [of "pre @ le16 h" "o' + 2" "le16 (word_of_nat (length body))" "body @ tl" m] d by simp
  have sent: "slice ?b o' (n + 4) = Some (le16 h @ le16 m @ take n body)" using d(2) mn(2) by (simp add: slice_def)
  define A B C where "A = pre @ take n (le16 h @ le16 m @ take n body)" and "B = drop n (le16 h @ le16 m @ take n body)" and "C = drop n body @ tl"
  have split: "?b = A @ take 2 B @ drop 2 B @ C" unfolding A_def B_def C_def by (metis append.assoc append_take_drop_id)
  have lA: "length A = o' + n" and lB: "length B = 4" using d(2) mn(2) by (simp_all add: A_def B_def)
  let ?c = "APPLY_CONTINUATION_FLAG h" and ?r = "word_of_nat (length body - n) :: 16 word"
  have off: "hd_offset packet + m = word_of_nat (o' + n)" by (simp add: o'_def mn(1))
  have uo: "unat (hd_offset packet + m) = o' + n" unfolding off using len(2) mn(2) by (intro unat_of_nat16) simp
  have rem: "hd_len packet - m = word_of_nat (4 + length (drop n body))" "hd_len packet - m - 4 = ?r" using len(1) mn by (simp_all add: of_nat_diff)
  have w1: "UINT16_TO_STREAM ?b (o' + n) ?c = Some (A @ le16 ?c @ drop 2 B @ C)" unfolding split by (rule stream_write_at) (use lA lB in simp_all)
  have w2: "UINT16_TO_STREAM (A @ le16 ?c @ drop 2 B @ C) (o' + n + 2) ?r = Some (A @ le16 ?c @ le16 ?r @ C)"
    using stream_write_at [of "A @ le16 ?c" "o' + n + 2" "drop 2 B" C ?r] lA lB by simp
  let ?p = "packet\<lparr>hd_offset := hd_offset packet + m, hd_len := hd_len packet - m, hd_data := A @ le16 ?c @ le16 ?r @ C\<rparr>"
  have "\<exists>pre tl'. hd_data ?p = pre @ le16 ?c @ le16 (word_of_nat (length (drop n body))) @ drop n body @ tl' \<and> length pre = o' + n"
    by (rule exI [of _ A], rule exI [of _ tl]) (simp add: C_def lA)
  then have "acl_packet ?p ?c (drop n body)" unfolding acl_packet_def using ev rem(1) uo len(2) mn(2) by simp
  moreover have "fragment_and_dispatch (packet_fragmenter_callbacks send post) classic ble p fr =
      Some (with_mem ((mem_of fr)\<lparr>hci_world := send (2 # le16 h @ le16 m @ take n body) (hci_world (mem_of fr)), packets := (packets (mem_of fr))(p \<mapsto> ?p)\<rparr>) (fr\<lparr>fr_current_fragment_packet := p\<rparr>))"
  proof -
    have um: "unat (m + 4) = n + 4" unfolding m4 using len(2) mn(2) by (intro unat_of_nat16) simp
    have acl: "hd_event packet AND MSG_EVT_MASK = 8448" using ev(1) by (simp add: MSG_STACK_TO_HC_HCI_ACL_def)
    show ?thesis using p h w sent w1 w2 long ev uo um acl rem(2) m(1)
      by (simp add: fragment_and_dispatch_def next_fragment_def packet_fragmenter_callbacks_def transmit_fragment_def transmit_data_def event_to_data_type_def
          packet_at_def call_def put_packet_def MSG_STACK_TO_HC_HCI_ACL_def Let_def flip: o'_def)
  qed
  ultimately show ?thesis unfolding n_def by (intro exI conjI) (assumption | rule refl | simp)+
qed

lemma fragment_last:
  assumes p: "p \<noteq> 0" "packets (mem_of fr) p = Some packet" and a: "acl_packet packet h body"
    and m: "m = (if hd_event packet AND MSG_SUB_EVT_MASK = 0 then classic else ble)" "length body \<le> unat m" "unat m < 65532"
  shows "fragment_and_dispatch (packet_fragmenter_callbacks send post) classic ble p fr = Some (with_mem
    ((mem_of fr)\<lparr>hci_world := send (2 # le16 h @ le16 (word_of_nat (length body)) @ body) (hci_world (mem_of fr)), packets := (packets (mem_of fr))(p := None)\<rparr>)
    (fr\<lparr>fr_current_fragment_packet := 0\<rparr>))"
proof -
  define o' where "o' = unat (hd_offset packet)"
  obtain pre tl where d: "hd_data packet = pre @ le16 h @ le16 (word_of_nat (length body)) @ body @ tl" "length pre = o'"
      and ev: "hd_event packet AND MSG_EVT_MASK = MSG_STACK_TO_HC_HCI_ACL" and len: "hd_len packet = word_of_nat (4 + length body)" "o' + 4 + length body < 65536"
    using a by (auto simp: acl_packet_def o'_def)
  have "unat (word_of_nat (unat m + 4) :: 16 word) = unat m + 4" using m(3) by (intro unat_of_nat16) simp
  then have m4: "unat (m + 4) = unat m + 4" by simp
  have ul: "unat (hd_len packet) = 4 + length body" unfolding len(1) using len(2) by (intro unat_of_nat16) simp
  have short: "\<not> hd_len packet > m + 4" using m(2) by (simp add: word_less_nat_alt m4 ul)
  have h: "STREAM_TO_UINT16 (hd_data packet) o' = Some h" using stream_read_at [of pre o' h] d by simp
  have sent: "slice (hd_data packet) o' (4 + length body) = Some (le16 h @ le16 (word_of_nat (length body)) @ body)" using d by (simp add: slice_def)
  have acl: "hd_event packet AND MSG_EVT_MASK = 8448" using ev by (simp add: MSG_STACK_TO_HC_HCI_ACL_def)
  show ?thesis using p h sent short ul acl m(1)
    by (simp add: fragment_and_dispatch_def packet_fragmenter_callbacks_def transmit_fragment_def transmit_data_def event_to_data_type_def free_packet_def
        packet_at_def call_def put_packet_def MSG_STACK_TO_HC_HCI_ACL_def Let_def flip: o'_def)
qed

lemma transmit_packet_fragments:
  assumes "p \<noteq> 0" and "m = (if hd_event packet AND MSG_SUB_EVT_MASK = 0 then classic else ble)" and "0 < m" and "unat m < 65532"
    and "packets (mem_of fr) p = Some packet" and "acl_packet packet h body"
  shows "transmit_packet (packet_fragmenter_callbacks send post) classic ble p fr = Some (with_mem
    ((mem_of fr)\<lparr>hci_world := fold (\<lambda>f. send (2 # f)) (fragments (unat m) h body) (hci_world (mem_of fr)), packets := (packets (mem_of fr))(p := None)\<rparr>)
    (fr\<lparr>fr_current_fragment_packet := 0\<rparr>))"
  using assms(2,5,6)
proof (induction "unat m" h body arbitrary: packet fr rule: fragments.induct)
  case (1 h body)
  let ?cb = "packet_fragmenter_callbacks send post"
  have m: "unat m \<noteq> 0" using assms(3) by (simp add: unat_eq_zero word_gt_0)
  show ?case
  proof (cases "length body \<le> unat m")
    case True
    have "transmit_packet ?cb classic ble p fr = fragment_and_dispatch ?cb classic ble p fr"
      by (subst transmit_packet.simps) (simp add: fragment_last [OF assms(1) 1(3,4,2) True assms(4)])
    then show ?thesis using fragment_last [OF assms(1) 1(3,4,2) True assms(4)] True by (simp add: fragments.simps [of _ h body])
  next
    case False
    then have lt: "unat m < length body" by simp
    obtain packet' u where s: "fragment_and_dispatch ?cb classic ble p fr = Some (with_mem u (fr\<lparr>fr_current_fragment_packet := p\<rparr>))"
        "u = (mem_of fr)\<lparr>hci_world := send (2 # le16 h @ le16 m @ take (unat m) body) (hci_world (mem_of fr)), packets := (packets (mem_of fr))(p \<mapsto> packet')\<rparr>"
        "acl_packet packet' (APPLY_CONTINUATION_FLAG h) (drop (unat m) body)" "hd_event packet' = hd_event packet"
      using fragment_step [OF assms(1) 1(3,4,2) lt] by blast
    let ?fr = "with_mem u (fr\<lparr>fr_current_fragment_packet := p\<rparr>)"
    have "transmit_packet ?cb classic ble p fr = transmit_packet ?cb classic ble p ?fr"
      by (subst transmit_packet.simps) (simp add: s(1) assms(1))
    also have "\<dots> = Some (with_mem ((mem_of ?fr)\<lparr>hci_world := fold (\<lambda>f. send (2 # f)) (fragments (unat m) (APPLY_CONTINUATION_FLAG h) (drop (unat m) body)) (hci_world (mem_of ?fr)),
        packets := (packets (mem_of ?fr))(p := None)\<rparr>) (?fr\<lparr>fr_current_fragment_packet := 0\<rparr>))"
      by (rule 1(1) [of packet']) (use False m 1(2) s(2-4) in \<open>simp_all\<close>)
    also have "\<dots> = Some (with_mem ((mem_of fr)\<lparr>hci_world := fold (\<lambda>f. send (2 # f)) (fragments (unat m) h body) (hci_world (mem_of fr)), packets := (packets (mem_of fr))(p := None)\<rparr>)
        (fr\<lparr>fr_current_fragment_packet := 0\<rparr>))"
      using False m by (simp add: s(2) fragments.simps [of _ h body])
    finally show ?thesis .
  qed
qed

section \<open>The map of partial packets\<close>

definition frag_ok :: "'w fragmenter \<Rightarrow> bool" where
  "frag_ok fr \<longleftrightarrow> (\<exists>B. hm_on (fr_partial_packets fr) (fr_store fr) B) \<and> hm_key_fn (fr_partial_packets fr) = None \<and> hm_data_fn (fr_partial_packets fr) = None"

definition pmap :: "'w fragmenter \<Rightarrow> ptr \<rightharpoonup> ptr" where
  "pmap fr k = the (hash_map_get (fr_partial_packets fr) k (fr_store fr))"

definition cells :: "'w fragmenter \<Rightarrow> nat" where "cells fr = used (fr_store fr)"

lemma hm_on_user: "hm_on m (s\<lparr>rest := (rest s)\<lparr>user := u\<rparr>\<rparr>) B = hm_on m s B"
  by (simp add: hm_on_def bucket_on_def cell_ok_def cong: option.case_cong)

lemma frag_ok_get: "frag_ok fr \<Longrightarrow> hash_map_get (fr_partial_packets fr) k (fr_store fr) = Some (pmap fr k)"
  by (auto simp: frag_ok_def pmap_def hash_map_get_on)

lemma pmap_on: "hm_on (fr_partial_packets fr) (fr_store fr) B \<Longrightarrow> pmap fr = hm_abs (fr_partial_packets fr) B"
  by (auto simp: pmap_def fun_eq_iff hash_map_get_on)

lemma frag_ok_mem [simp]: "frag_ok (with_mem u fr) = frag_ok fr" "cells (with_mem u fr) = cells fr"
  by (simp_all add: frag_ok_def with_mem_def hm_on_user cells_def used_def)

lemma pmap_mem [simp]: "frag_ok fr \<Longrightarrow> pmap (with_mem u fr) = pmap fr"
proof -
  assume "frag_ok fr"
  then obtain B where "hm_on (fr_partial_packets fr) (fr_store fr) B" by (auto simp: frag_ok_def)
  then show ?thesis using pmap_on [of fr B] pmap_on [of "with_mem u fr" B] by (simp add: with_mem_def hm_on_user)
qed

lemma no_release: "hm_key_fn m = None \<Longrightarrow> hm_data_fn m = None \<Longrightarrow> release m k v u = u"
  by (simp add: release_def)

lemma frag_erase:
  assumes "frag_ok fr"
  shows "\<exists>r m s. hash_map_erase (fr_partial_packets fr) k (fr_store fr) = Some (r, m, s) \<and> frag_ok (fr\<lparr>fr_partial_packets := m, fr_store := s\<rparr>) \<and>
    pmap (fr\<lparr>fr_partial_packets := m, fr_store := s\<rparr>) = (pmap fr)(k := None) \<and> user (rest s) = mem_of fr \<and> used s \<le> cells fr"
proof -
  obtain B where on: "hm_on (fr_partial_packets fr) (fr_store fr) B" and f: "hm_key_fn (fr_partial_packets fr) = None" "hm_data_fn (fr_partial_packets fr) = None"
    using assms by (auto simp: frag_ok_def)
  obtain r m s B' where e: "hash_map_erase (fr_partial_packets fr) k (fr_store fr) = Some (r, m, s)" "hm_on m s B'" "same_functions (fr_partial_packets fr) m"
      "hm_abs m B' = (hm_abs (fr_partial_packets fr) B)(k := None)" "user (rest s) = mem_of fr" "used s \<le> cells fr"
    using hash_map_erase_on [OF on, of k] no_release [OF f] by (auto simp: mem_of_def cells_def split: option.splits)
  let ?fr = "fr\<lparr>fr_partial_packets := m, fr_store := s\<rparr>"
  have "frag_ok ?fr" using e(2,3) f by (auto simp: frag_ok_def same_functions_def)
  moreover have "pmap ?fr = (pmap fr)(k := None)" using pmap_on [OF on] pmap_on [of ?fr B'] e(2,4) by simp
  ultimately show ?thesis using e(1,5,6) by blast
qed

text \<open>The contracts of the two allocators, with room for \<open>K\<close> cells of the map and \<open>N\<close> packets.\<close>

locale hci_memory = entry_alloc alloc for alloc :: "'w pm_alloc" +
  fixes K N :: nat and balloc :: "'w pkt_alloc"
  assumes cell_room: "used s < K \<Longrightarrow> alloc s \<noteq> None"
    and packet_fresh: "balloc n u = Some (p, x) \<Longrightarrow> p \<noteq> 0 \<and> packets u p = None \<and> length (hd_data x) = n"
    and packet_room: "card (dom (packets u)) < N \<Longrightarrow> balloc n u \<noteq> None"
begin

lemma frag_set:
  assumes "frag_ok fr" and "cells fr + 2 \<le> K"
  shows "\<exists>m s. hash_map_set alloc (fr_partial_packets fr) k q (fr_store fr) = Some (True, m, s) \<and> frag_ok (fr\<lparr>fr_partial_packets := m, fr_store := s\<rparr>) \<and>
    pmap (fr\<lparr>fr_partial_packets := m, fr_store := s\<rparr>) = (pmap fr)(k \<mapsto> q) \<and> user (rest s) = mem_of fr"
proof -
  obtain B where on: "hm_on (fr_partial_packets fr) (fr_store fr) B" and f: "hm_key_fn (fr_partial_packets fr) = None" "hm_data_fn (fr_partial_packets fr) = None"
    using assms by (auto simp: frag_ok_def)
  obtain r m s B' where e: "hash_map_set alloc (fr_partial_packets fr) k q (fr_store fr) = Some (r, m, s)" "hm_on m s B'" "same_functions (fr_partial_packets fr) m"
      "hm_abs m B' = (hm_abs (fr_partial_packets fr) B)(k := if r then Some q else None)" "\<not> r \<longrightarrow> (\<exists>t. alloc t = None \<and> used t \<le> cells fr + 1)"
      "user (rest s) = released (fr_partial_packets fr) (hm_abs (fr_partial_packets fr) B) k (mem_of fr)"
    using hash_map_set_on [OF on, of k q] unfolding mem_of_def cells_def by blast
  have r: r
  proof (rule ccontr)
    assume "\<not> r"
    then obtain t where "alloc t = None" "used t \<le> cells fr + 1" using e(5) by blast
    then show False using cell_room [of t] assms(2) by simp
  qed
  have u: "user (rest s) = mem_of fr" using e(6) no_release [OF f] by (simp add: released_def split: option.splits)
  let ?fr = "fr\<lparr>fr_partial_packets := m, fr_store := s\<rparr>"
  have "frag_ok ?fr" using e(2,3) f by (auto simp: frag_ok_def same_functions_def)
  moreover have "pmap ?fr = (pmap fr)(k \<mapsto> q)" using pmap_on [OF on] pmap_on [of ?fr B'] e(2,4) r by simp
  ultimately show ?thesis using e(1) r u by auto
qed

end

section \<open>Putting fragments together\<close>

text \<open>The packet that the driver makes of a frame, when it is handed to the fragmenter.\<close>

definition arrived_packet :: "BT_HDR \<Rightarrow> 16 word \<Rightarrow> byte list \<Rightarrow> BT_HDR" where
  "arrived_packet x h b = x\<lparr>hd_layer_specific := 0, hd_data := 2 # le16 h @ le16 (word_of_nat (length b)) @ b, hd_offset := 1, hd_len := word_of_nat (4 + length b), hd_event := 0x1100\<rparr>"

lemma receive_acl:
  assumes al: "balloc (5 + length b) (mem_of fr) = Some (p, x)" and p: "p \<noteq> 0" and len: "length b < 65531"
  shows "receive cb alloc balloc filter_event (2 # le16 h @ le16 (word_of_nat (length b)) @ b) fr =
    reassemble_and_dispatch cb alloc balloc p (with_mem (put_packet p (arrived_packet x h b) (mem_of fr)) fr)"
proof -
  let ?d = "2 # le16 h @ le16 (word_of_nat (length b)) @ b" and ?L = "word_of_nat (length b) :: 16 word"
  have ld: "length ?d = 5 + length b" by simp
  let ?x = "x\<lparr>hd_offset := 0, hd_len := word_of_nat (5 + length b), hd_layer_specific := 0, hd_data := ?d\<rparr>"
  have recv: "host_recv_pkt_cb balloc ?d (mem_of fr) = (p, put_packet p ?x (mem_of fr))" by (simp only: host_recv_pkt_cb_def ld al option.case prod.case)
  have rd: "STREAM_TO_UINT16 ?d 3 = Some ?L" using stream_read_at [of "2 # le16 h" 3 ?L b] by simp
  have l4: "word_of_nat (5 + length b) - 1 = (word_of_nat (4 + length b) :: 16 word)" by simp
  have ul: "unat (word_of_nat (4 + length b) :: 16 word) = 4 + length b" "unat ?L = length b" using len by (intro unat_of_nat16, simp)+
  let ?fr = "with_mem (put_packet p ?x (mem_of fr)) fr"
  have "hci_hal_h4_hdl_rx_packet (hal_says_packet_ready cb alloc balloc filter_event) p ?fr =
      hal_says_packet_ready cb alloc balloc filter_event p (with_mem (put_packet p (arrived_packet x h b) (mem_of fr)) fr)"
    using p rd ul l4 by (simp add: hci_hal_h4_hdl_rx_packet_def packet_at_def rd_def preamble_sizes_def outbound_event_types_def arrived_packet_def call_def Let_def del: of_nat_add)
  moreover have "\<dots> = reassemble_and_dispatch cb alloc balloc p (with_mem (put_packet p (arrived_packet x h b) (mem_of fr)) fr)"
    using p by (simp add: hal_says_packet_ready_def packet_at_def arrived_packet_def)
  ultimately show ?thesis using recv p by (simp add: receive_def Let_def del: of_nat_add)
qed

text \<open>A packet of which \<open>j\<close> bytes of the body have arrived.\<close>

definition part_ok :: "BT_HDR \<Rightarrow> 16 word \<Rightarrow> byte list \<Rightarrow> nat \<Rightarrow> bool" where
  "part_ok part h body j \<longleftrightarrow> hd_len part = word_of_nat (4 + length body) \<and> hd_offset part = word_of_nat (4 + j) \<and> hd_event part = 0x1100 \<and> j \<le> length body \<and>
     length (hd_data part) = 4 + length body \<and> take (4 + j) (hd_data part) = le16 h @ le16 (word_of_nat (length body)) @ take j body"

definition conn_handle :: "16 word \<Rightarrow> ptr" where "conn_handle h = ucast (h AND 0x0FFF)"

lemma reassemble_acl:
  assumes p: "p \<noteq> 0" "packets (mem_of fr) p = Some (arrived_packet x h b)" and b: "2 \<le> length b" and ok: "frag_ok fr"
  shows "\<exists>l2. (\<forall>l c. b = le16 l @ c \<longrightarrow> l2 = l) \<and> reassemble_and_dispatch cb alloc balloc p fr =
    (if GET_BOUNDARY_FLAG h = 2 then start_packet cb alloc balloc p (arrived_packet x h b) (conn_handle h) l2 (pmap fr (conn_handle h)) fr
     else continue_packet cb p (arrived_packet x h b) (conn_handle h) (pmap fr (conn_handle h)) fr)"
proof -
  let ?d = "2 # le16 h @ le16 (word_of_nat (length b)) @ b"
  obtain b0 b1 c where bc: "b = b0 # b1 # c" using b by (metis Suc_le_length_iff numeral_2_eq_2)
  let ?l2 = "ucast b0 + push_bit 8 (ucast b1) :: 16 word"
  have r: "STREAM_TO_UINT16 ?d (Suc 0) = Some h" "STREAM_TO_UINT16 ?d (Suc (Suc (Suc 0))) = Some (word_of_nat (length b))" "STREAM_TO_UINT16 ?d 5 = Some ?l2"
    using stream_read_at [of "[2]" 1 h "le16 (word_of_nat (length b)) @ b"] stream_read_at [of "2 # le16 h" "Suc (Suc (Suc 0))" "word_of_nat (length b)" b]
    by (simp_all add: STREAM_TO_UINT16_def rd_def bc nth_append nth_Cons' le16_def)
  have "\<forall>l c. b = le16 l @ c \<longrightarrow> ?l2 = l" using le16_value by (auto simp: bc le16_def)
  moreover have "0x1100 AND MSG_EVT_MASK = MSG_HC_TO_STACK_HCI_ACL" by (simp add: MSG_EVT_MASK_def MSG_HC_TO_STACK_HCI_ACL_def)
  ultimately show ?thesis using p r frag_ok_get [OF ok]
    by (intro exI [of _ ?l2]) (simp add: reassemble_and_dispatch_def packet_at_def arrived_packet_def conn_handle_def Let_def)
qed

lemma copy_bytes_at: "length xs = q \<Longrightarrow> length ys = n \<Longrightarrow> p + n \<le> length dst \<Longrightarrow> copy_bytes dst p (xs @ ys @ zs) q n = Some (put p ys dst)"
  by (simp add: copy_bytes_def slice_def emit_eq)

lemma start_packet_new:
  assumes "full = l2cap_length + 4 + 4" "\<not> full \<le> hd_len packet" "balloc (unat full) (mem_of fr) = Some (q, y)"
    "copy_bytes (hd_data y) 0 (hd_data packet) (unat (hd_offset packet)) (unat (hd_len packet)) = Some b0" "UINT16_TO_STREAM b0 2 (full - 4) = Some b1"
    "fr2 = with_mem (put_packet q (y\<lparr>hd_event := hd_event packet, hd_len := full, hd_offset := hd_len packet, hd_data := b1\<rparr>) (mem_of fr)) fr"
    "hash_map_set alloc (fr_partial_packets fr2) handle q (fr_store fr2) = Some (r, m, s)"
  shows "start_packet cb alloc balloc p packet handle l2cap_length None fr = call (free_packet p) (fr2\<lparr>fr_partial_packets := m, fr_store := s\<rparr>)"
  using assms(2-) unfolding assms(1) by (simp add: start_packet_def Let_def call_def [of "\<lambda>u. Some (_ u)"])

lemma free_temporary: "p \<noteq> 0 \<Longrightarrow> packets u p = None \<Longrightarrow> q \<noteq> p \<Longrightarrow> free_packet p (put_packet q y (put_packet p x u)) = Some (put_packet q y u)"
  by (auto simp: free_packet_def put_packet_def fun_eq_iff intro!: arg_cong [where f = "\<lambda>f. packets_update f u"])

context hci_memory
begin

lemma receive_start:
  assumes ok: "frag_ok fr" "cells fr + 2 \<le> K" "card (dom (packets (mem_of fr))) + 2 \<le> N" and k: "pmap fr (conn_handle h) = None" "GET_BOUNDARY_FLAG h = 2"
    and body: "body = le16 (word_of_nat (length body - 4)) @ ws" "4 \<le> length body" "length body < 65531" and j: "2 \<le> j" "j < length body"
  shows "\<exists>q part fr'. receive cb alloc balloc filter_event (2 # le16 h @ le16 (word_of_nat j) @ take j body) fr = Some fr' \<and> frag_ok fr' \<and> pmap fr' = (pmap fr)(conn_handle h \<mapsto> q) \<and>
    q \<noteq> 0 \<and> packets (mem_of fr) q = None \<and> part_ok part h body j \<and> mem_of fr' = put_packet q part (mem_of fr)"
proof -
  let ?b = "take j body" and ?u = "mem_of fr"
  have lb: "length ?b = j" using j by simp
  obtain p x where p: "balloc (5 + j) ?u = Some (p, x)" using packet_room [of ?u "5 + j"] ok(3) by fastforce
  have pf: "p \<noteq> 0" "packets ?u p = None" using packet_fresh [OF p] by auto
  let ?pk = "arrived_packet x h ?b"
  let ?u1 = "put_packet p ?pk ?u"
  let ?fr1 = "with_mem ?u1 fr"
  have recv: "receive cb alloc balloc filter_event (2 # le16 h @ le16 (word_of_nat j) @ ?b) fr = reassemble_and_dispatch cb alloc balloc p ?fr1"
    using receive_acl [of balloc ?b fr p x cb alloc filter_event h] p pf(1) lb body(3) j by simp
  have bl: "?b = le16 (word_of_nat (length body - 4)) @ take (j - 2) ws" using body(1) j(1) by (metis length_le16 take_all take_append)
  have st: "reassemble_and_dispatch cb alloc balloc p ?fr1 = start_packet cb alloc balloc p ?pk (conn_handle h) (word_of_nat (length body - 4)) None ?fr1"
    using reassemble_acl [of p ?fr1 x h ?b cb alloc balloc] pf j lb k ok(1) bl by (auto simp: k)
  have full: "word_of_nat (length body - 4) + 4 + 4 = (word_of_nat (4 + length body) :: 16 word)" using body(2) by (simp add: of_nat_diff)
  have uf: "unat (word_of_nat (4 + length body) :: 16 word) = 4 + length body" and uj: "unat (word_of_nat (4 + j) :: 16 word) = 4 + j"
    using body(3) j(2) by (intro unat_of_nat16, simp)+
  have "card (dom (packets ?u1)) < N" using ok(3) pf(2) card_insert_le_m1 by (simp add: card_insert_if)
  then obtain q y where q: "balloc (4 + length body) ?u1 = Some (q, y)" using packet_room by fastforce
  have qf: "q \<noteq> 0" "packets ?u1 q = None" "length (hd_data y) = 4 + length body" using packet_fresh [OF q] by auto
  have qp: "q \<noteq> p" using qf(2) by auto
  let ?d0 = "put 0 (le16 h @ le16 (word_of_nat j) @ ?b) (hd_data y)"
  have cp: "copy_bytes (hd_data y) 0 (hd_data ?pk) (Suc 0) (4 + j) = Some ?d0"
    using copy_bytes_at [of "[2]" "Suc 0" "le16 h @ le16 (word_of_nat j) @ ?b" "4 + j" 0 "hd_data y" "[]"] lb j qf(3) by (simp add: arrived_packet_def)
  let ?d1 = "le16 h @ le16 (word_of_nat (length body)) @ ?b @ drop (4 + j) (hd_data y)"
  have wr: "UINT16_TO_STREAM ?d0 2 (word_of_nat (length body)) = Some ?d1"
  proof -
    have "?d0 = le16 h @ le16 (word_of_nat j) @ ?b @ drop (4 + j) (hd_data y)" using lb by (simp add: put_0 numeral_eq_Suc)
    then show ?thesis by (simp only:) (rule stream_write_at, simp_all)
  qed
  let ?part = "y\<lparr>hd_event := hd_event ?pk, hd_len := word_of_nat (4 + length body), hd_offset := hd_len ?pk, hd_data := ?d1\<rparr>"
  have part: "part_ok ?part h body j" using j qf(3) lb by (simp add: part_ok_def arrived_packet_def)
  let ?fr2 = "with_mem (put_packet q ?part ?u1) fr"
  have c2: "frag_ok ?fr2" "cells ?fr2 + 2 \<le> K" using ok by simp_all
  obtain m s where set: "hash_map_set alloc (fr_partial_packets ?fr2) (conn_handle h) q (fr_store ?fr2) = Some (True, m, s)" "frag_ok (?fr2\<lparr>fr_partial_packets := m, fr_store := s\<rparr>)"
      "pmap (?fr2\<lparr>fr_partial_packets := m, fr_store := s\<rparr>) = (pmap ?fr2)(conn_handle h \<mapsto> q)" "user (rest s) = put_packet q ?part ?u1"
    using frag_set [OF c2, of "conn_handle h" q] unfolding call_mem(1) by blast
  let ?fr3 = "?fr2\<lparr>fr_partial_packets := m, fr_store := s\<rparr>"
  have m3: "mem_of ?fr3 = put_packet q ?part ?u1" using set(4) by (simp add: mem_of_def)
  have fin: "call (free_packet p) ?fr3 = Some (with_mem (put_packet q ?part ?u) ?fr3)"
    by (simp only: call_def m3 free_temporary [OF pf qp] option.map)
  have nle: "\<not> word_of_nat (4 + length body) \<le> hd_len ?pk" using uf uj j lb by (simp add: arrived_packet_def word_le_nat_alt del: of_nat_add)
  have "start_packet cb alloc balloc p ?pk (conn_handle h) (word_of_nat (length body - 4)) None ?fr1 = Some (with_mem (put_packet q ?part ?u) ?fr3)"
  proof -
    have o: "unat (hd_offset ?pk) = Suc 0" "unat (hd_len ?pk) = 4 + j" using uj lb by (simp_all add: arrived_packet_def del: of_nat_add)
    have f4: "word_of_nat (4 + length body) - 4 = (word_of_nat (length body) :: 16 word)" by simp
    have "start_packet cb alloc balloc p ?pk (conn_handle h) (word_of_nat (length body - 4)) None ?fr1 = call (free_packet p) ?fr3"
    proof (rule start_packet_new [OF full [symmetric] nle _ _ _ _ set(1)])
      show "balloc (unat (word_of_nat (4 + length body) :: 16 word)) (mem_of ?fr1) = Some (q, y)" by (simp only: uf call_mem(1) q)
      show "copy_bytes (hd_data y) 0 (hd_data ?pk) (unat (hd_offset ?pk)) (unat (hd_len ?pk)) = Some ?d0" unfolding o by (rule cp)
      show "UINT16_TO_STREAM ?d0 2 (word_of_nat (4 + length body) - 4) = Some ?d1" unfolding f4 by (rule wr)
    qed (simp only: call_mem(1,5))
    then show ?thesis using fin by simp
  qed
  then show ?thesis using recv st set(2,3) ok(1) qf qp part by (intro exI [of _ q] exI [of _ ?part] exI [of _ "with_mem (put_packet q ?part ?u) ?fr3"]) simp
qed

end

text \<open>A continuation adds its bytes behind those that are there.\<close>

definition extended :: "BT_HDR \<Rightarrow> nat \<Rightarrow> byte list \<Rightarrow> BT_HDR" where
  "extended part j ys = part\<lparr>hd_data := put (4 + j) ys (hd_data part), hd_offset := word_of_nat (4 + j + length ys)\<rparr>"

lemma part_ok_extended:
  assumes "part_ok part h body j" and "j + n \<le> length body"
  shows "part_ok (extended part j (take n (drop j body))) h body (j + n)"
proof -
  have "take (4 + (j + n)) (put (4 + j) (take n (drop j body)) (hd_data part)) = take (4 + j) (hd_data part) @ take n (drop j body)"
    using assms by (simp add: put_def part_ok_def)
  moreover have "take (j + n) body = take j body @ take n (drop j body)" by (simp add: take_add)
  moreover have "length (take n (drop j body)) = n" using assms(2) by simp
  ultimately show ?thesis using assms by (simp add: part_ok_def extended_def add.assoc del: length_take)
qed

lemma continue_packet_part:
  assumes p: "p \<noteq> 0" "packets (mem_of fr) p = Some (arrived_packet x c ys)" and q: "q \<noteq> 0" "q \<noteq> p" "packets (mem_of fr) q = Some part"
    and part: "part_ok part h body j" "j + length ys \<le> length body" "length body < 65531"
    and fr2: "fr2 = with_mem (put_packet q (extended part j ys) ((mem_of fr)\<lparr>packets := (packets (mem_of fr))(p := None)\<rparr>)) fr"
  shows "continue_packet cb p (arrived_packet x c ys) k (Some q) fr =
    (if j + length ys = length body then do {
       (r, m, s) \<leftarrow> hash_map_erase (fr_partial_packets fr2) k (fr_store fr2);
       call (\<lambda>u. cb_reassembled cb q (put_packet q ((extended part j ys)\<lparr>hd_offset := 0\<rparr>) u)) (fr2\<lparr>fr_partial_packets := m, fr_store := s\<rparr>) }
     else Some fr2)"
proof -
  let ?pk = "arrived_packet x c ys" and ?n = "length ys"
  have po: "hd_len part = word_of_nat (4 + length body)" "hd_offset part = word_of_nat (4 + j)" "length (hd_data part) = 4 + length body"
    using part(1) by (simp_all add: part_ok_def)
  have u: "unat (word_of_nat (4 + j) :: 16 word) = 4 + j" "unat (word_of_nat (4 + j + ?n) :: 16 word) = 4 + j + ?n" "unat (word_of_nat (4 + length body) :: 16 word) = 4 + length body"
      "unat (word_of_nat ?n :: 16 word) = ?n" using part(2,3) by (intro unat_of_nat16, simp)+
  have off: "hd_offset ?pk + 4 = 5" and len: "hd_len ?pk - 4 = word_of_nat ?n" by (simp_all add: arrived_packet_def)
  have proj: "hd_offset part + word_of_nat ?n = word_of_nat (4 + j + ?n)" by (simp add: po)
  have nlt: "\<not> word_of_nat (4 + j + ?n) > hd_len part" using u part(2) by (simp only: po word_less_nat_alt)
  have eq: "word_of_nat (4 + j + ?n) = hd_len part \<longleftrightarrow> j + ?n = length body" unfolding po using u(2,3) by (metis add.assoc add_left_cancel)
  have cp: "copy_bytes (hd_data part) (unat (hd_offset part)) (hd_data ?pk) (unat (5 :: 16 word)) (unat (word_of_nat ?n :: 16 word)) = Some (put (4 + j) ys (hd_data part))"
    unfolding po(2) u using copy_bytes_at [of "2 # le16 c @ le16 (word_of_nat ?n)" 5 ys ?n "4 + j" "hd_data part" "[]"] po(3) part(2) by (simp add: arrived_packet_def)
  have fp: "call (free_packet p) fr = Some (with_mem ((mem_of fr)\<lparr>packets := (packets (mem_of fr))(p := None)\<rparr>) fr)" using p by (simp add: call_def free_packet_def)
  have fin: "part\<lparr>hd_data := put (4 + j) ys (hd_data part), hd_offset := word_of_nat (4 + j + ?n)\<rparr> = extended part j ys" by (simp add: extended_def)
  have e: "(hd_offset (extended part j ys) = hd_len (extended part j ys)) = (j + ?n = length body)" unfolding eq [symmetric] by (simp add: extended_def)
  have c: "call (\<lambda>u. Some (put_packet q (extended part j ys) u)) (with_mem ((mem_of fr)\<lparr>packets := (packets (mem_of fr))(p := None)\<rparr>) fr) = Some fr2"
    by (simp add: call_def fr2)
  have pq: "packet_at (mem_of fr) q = Some part" using q by (simp add: packet_at_def)
  show ?thesis
    by (simp only: continue_packet_def option.case pq bind.bind_lunit Let_def off len proj nlt if_False prod.case cp fp fin e c cong: if_cong)
qed

context hci_memory
begin

lemma receive_continue:
  assumes ok: "frag_ok fr" "card (dom (packets (mem_of fr))) < N" and k: "pmap fr (conn_handle c) = Some q" "GET_BOUNDARY_FLAG c \<noteq> 2"
    and q: "q \<noteq> 0" "packets (mem_of fr) q = Some part" and part: "part_ok part h body j" "length body < 65531"
    and ys: "ys = take n (drop j body)" "2 \<le> n" "j + n \<le> length body"
    and fr2: "fr2 = with_mem (put_packet q (extended part j ys) (mem_of fr)) fr"
  shows "receive cb alloc balloc filter_event (2 # le16 c @ le16 (word_of_nat n) @ ys) fr =
    (if j + n = length body then do {
       (r, m, s) \<leftarrow> hash_map_erase (fr_partial_packets fr2) (conn_handle c) (fr_store fr2);
       call (\<lambda>u. cb_reassembled cb q (put_packet q ((extended part j ys)\<lparr>hd_offset := 0\<rparr>) u)) (fr2\<lparr>fr_partial_packets := m, fr_store := s\<rparr>) }
     else Some fr2)"
proof -
  let ?u = "mem_of fr"
  have ly: "length ys = n" using ys by simp
  obtain p x where p: "balloc (5 + n) ?u = Some (p, x)" using packet_room [of ?u "5 + n"] ok(2) by fastforce
  have pf: "p \<noteq> 0" "packets ?u p = None" using packet_fresh [OF p] by auto
  have qp: "q \<noteq> p" using pf(2) q(2) by auto
  let ?u1 = "put_packet p (arrived_packet x c ys) ?u"
  let ?fr1 = "with_mem ?u1 fr"
  have restored: "put_packet q y (?u1\<lparr>packets := (packets ?u1)(p := None)\<rparr>) = put_packet q y ?u" for y
    using free_temporary [OF pf qp] pf qp by (simp add: free_packet_def put_packet_def fun_upd_twist)
  have recv: "receive cb alloc balloc filter_event (2 # le16 c @ le16 (word_of_nat n) @ ys) fr = reassemble_and_dispatch cb alloc balloc p ?fr1"
    using receive_acl [of balloc ys fr p x cb alloc filter_event c] p pf(1) ly part(2) ys(3) by simp
  have st: "reassemble_and_dispatch cb alloc balloc p ?fr1 = continue_packet cb p (arrived_packet x c ys) (conn_handle c) (Some q) ?fr1"
    using reassemble_acl [of p ?fr1 x c ys cb alloc balloc] pf ly ys(2) k ok(1) by auto
  have fr2': "fr2 = with_mem (put_packet q (extended part j ys) ((mem_of ?fr1)\<lparr>packets := (packets (mem_of ?fr1))(p := None)\<rparr>)) ?fr1"
    by (simp only: fr2 call_mem restored)
  have m1: "packets (mem_of ?fr1) p = Some (arrived_packet x c ys)" "packets (mem_of ?fr1) q = Some part" using qp q(2) by simp_all
  show ?thesis
    using continue_packet_part [OF pf(1) m1(1) q(1) qp m1(2) part(1) _ part(2) fr2', of cb "conn_handle c"] recv st ys(3) ly by simp
qed

end

text \<open>A packet that is handed on: header and body in one piece.\<close>

definition whole_packet :: "BT_HDR \<Rightarrow> 16 word \<Rightarrow> byte list \<Rightarrow> bool" where
  "whole_packet packet h body \<longleftrightarrow> hd_event packet = MSG_HC_TO_STACK_HCI_ACL \<and>
     slice (hd_data packet) (unat (hd_offset packet)) (unat (hd_len packet)) = Some (le16 h @ le16 (word_of_nat (length body)) @ body)"

lemma part_ok_whole:
  assumes "part_ok part h body (length body)" and "length body < 65531"
  shows "whole_packet (part\<lparr>hd_offset := 0\<rparr>) h body"
proof -
  have "unat (word_of_nat (4 + length body) :: 16 word) = 4 + length body" using assms(2) by (intro unat_of_nat16) simp
  then show ?thesis using assms(1) by (simp add: part_ok_def whole_packet_def slice_def MSG_HC_TO_STACK_HCI_ACL_def del: of_nat_add)
qed

lemma arrived_whole:
  assumes "length body < 65531"
  shows "whole_packet (arrived_packet x h body) h body"
proof -
  have "unat (word_of_nat (4 + length body) :: 16 word) = 4 + length body" using assms by (intro unat_of_nat16) simp
  then show ?thesis by (simp add: arrived_packet_def whole_packet_def slice_def MSG_HC_TO_STACK_HCI_ACL_def del: of_nat_add)
qed

lemma continuation_handle: "GET_BOUNDARY_FLAG (APPLY_CONTINUATION_FLAG h) = 1" "conn_handle (APPLY_CONTINUATION_FLAG h) = conn_handle h"
  by (simp_all add: GET_BOUNDARY_FLAG_def APPLY_CONTINUATION_FLAG_def conn_handle_def drop_bit_and drop_bit_or bit.conj_disj_distrib2 and.assoc)

lemma receive_all_Nil: "receive_all cb alloc balloc filter_event [] = Some"
  by (rule ext) simp

lemma chunk_bounds:
  assumes "2 \<le> m" and "length bs mod m \<noteq> 1" and "bs \<noteq> []"
  shows "length bs \<le> m \<Longrightarrow> 2 \<le> length bs" "m < length bs \<Longrightarrow> length (drop m bs) mod m \<noteq> 1 \<and> drop m bs \<noteq> []"
proof -
  assume "length bs \<le> m"
  then show "2 \<le> length bs" using assms by (cases "length bs = m") (auto simp: le_less numeral_2_eq_2 Suc_le_eq neq_Nil_conv)
next
  assume "m < length bs"
  then show "length (drop m bs) mod m \<noteq> 1 \<and> drop m bs \<noteq> []" using assms(2) by (simp add: le_mod_geq [symmetric])
qed

context hci_memory
begin

lemma receive_rest:
  assumes m: "2 \<le> m" and body: "length body < 65531"
    and "frag_ok fr" "card (dom (packets (mem_of fr))) < N" "pmap fr (conn_handle c) = Some q" "GET_BOUNDARY_FLAG c \<noteq> 2"
      "q \<noteq> 0" "packets (mem_of fr) q = Some part" "part_ok part h body j" "bs = drop j body" "bs \<noteq> []" "length bs mod m \<noteq> 1"
  shows "\<exists>packet fr'. receive_all cb alloc balloc filter_event (map ((#) 2) (fragments m c bs)) fr = call (cb_reassembled cb q) fr' \<and> frag_ok fr' \<and>
    pmap fr' = (pmap fr)(conn_handle c := None) \<and> mem_of fr' = put_packet q packet (mem_of fr) \<and> whole_packet packet h body"
  using assms(1,3-)
proof (induction m c bs arbitrary: fr part j rule: fragments.induct)
  case (1 m c bs)
  have "j \<le> length body" using "1.prems" by (simp add: part_ok_def)
  then have j: "j + length bs = length body" using "1.prems"(9) by simp
  note prems = "1.prems"
  note chunk = chunk_bounds [OF prems(1,11,10)]
  show ?case
  proof (cases "length bs \<le> m")
    case True
    let ?part = "extended part j bs"
    let ?fr2 = "with_mem (put_packet q ?part (mem_of fr)) fr"
    have two: "2 \<le> length bs" using chunk(1) True by simp
    have all: "bs = take (length bs) (drop j body)" using prems(9) by simp
    have recv: "receive cb alloc balloc filter_event (2 # le16 c @ le16 (word_of_nat (length bs)) @ bs) fr = do {
        (r, m, s) \<leftarrow> hash_map_erase (fr_partial_packets ?fr2) (conn_handle c) (fr_store ?fr2);
        call (\<lambda>u. cb_reassembled cb q (put_packet q (?part\<lparr>hd_offset := 0\<rparr>) u)) (?fr2\<lparr>fr_partial_packets := m, fr_store := s\<rparr>) }"
      using receive_continue [OF prems(2-8) body all two _ refl, of cb filter_event] j by simp
    obtain r m' s where e: "hash_map_erase (fr_partial_packets ?fr2) (conn_handle c) (fr_store ?fr2) = Some (r, m', s)" "frag_ok (?fr2\<lparr>fr_partial_packets := m', fr_store := s\<rparr>)"
        "pmap (?fr2\<lparr>fr_partial_packets := m', fr_store := s\<rparr>) = (pmap ?fr2)(conn_handle c := None)" "user (rest s) = mem_of ?fr2"
      using frag_erase [of ?fr2 "conn_handle c"] prems(2) unfolding frag_ok_mem by blast
    let ?fr3 = "?fr2\<lparr>fr_partial_packets := m', fr_store := s\<rparr>"
    let ?fr4 = "with_mem (put_packet q (?part\<lparr>hd_offset := 0\<rparr>) (mem_of ?fr3)) ?fr3"
    have m3: "mem_of ?fr3 = put_packet q ?part (mem_of fr)" using e(4) unfolding call_mem(1) by (simp add: mem_of_def)
    have "receive_all cb alloc balloc filter_event (map ((#) 2) (fragments m c bs)) fr = call (cb_reassembled cb q) ?fr4"
      using True recv e(1) by (simp add: fragments.simps [of _ c bs] call_def receive_all_Nil)
    moreover have "whole_packet (?part\<lparr>hd_offset := 0\<rparr>) h body"
      using part_ok_extended [OF prems(8), of "length bs"] j body prems(9) by (intro part_ok_whole) simp_all
    moreover have "mem_of ?fr4 = put_packet q (?part\<lparr>hd_offset := 0\<rparr>) (mem_of fr)" by (simp add: m3)
    moreover have "frag_ok ?fr4" "pmap ?fr4 = (pmap fr)(conn_handle c := None)" using e(2,3) prems(2) by simp_all
    ultimately show ?thesis by blast
  next
    case False
    then have lt: "m < length bs" by simp
    let ?ys = "take m (drop j body)"
    let ?part = "extended part j ?ys"
    let ?fr2 = "with_mem (put_packet q ?part (mem_of fr)) fr" and ?c = "APPLY_CONTINUATION_FLAG c"
    have jm: "j + m \<le> length body" "j + m \<noteq> length body" using j lt by simp_all
    have recv: "receive cb alloc balloc filter_event (2 # le16 c @ le16 (word_of_nat m) @ ?ys) fr = Some ?fr2"
      using receive_continue [OF prems(2-8) body refl prems(1) jm(1) refl, of cb filter_event] jm(2) by simp
    have split: "fragments m c bs = (le16 c @ le16 (word_of_nat m) @ ?ys) # fragments m ?c (drop m bs)"
      unfolding prems(9) [symmetric] using False prems(1) by (simp add: fragments.simps [of _ c bs])
    have "\<exists>packet fr'. receive_all cb alloc balloc filter_event (map ((#) 2) (fragments m ?c (drop m bs))) ?fr2 = call (cb_reassembled cb q) fr' \<and> frag_ok fr' \<and>
        pmap fr' = (pmap ?fr2)(conn_handle ?c := None) \<and> mem_of fr' = put_packet q packet (mem_of ?fr2) \<and> whole_packet packet h body"
    proof (rule "1.IH")
      show "part_ok ?part h body (j + m)" by (rule part_ok_extended [OF prems(8) jm(1)])
      have "dom (packets (mem_of ?fr2)) = dom (packets (mem_of fr))" using prems(7) by auto
      then show "card (dom (packets (mem_of ?fr2))) < N" using prems(3) by simp
    qed (use False prems chunk(2) lt in \<open>simp_all add: continuation_handle add.commute [of j m]\<close>)
    moreover have "receive_all cb alloc balloc filter_event (map ((#) 2) (fragments m c bs)) fr = receive_all cb alloc balloc filter_event (map ((#) 2) (fragments m ?c (drop m bs))) ?fr2"
      by (simp add: split recv)
    ultimately show ?thesis by (simp only: continuation_handle pmap_mem [OF prems(2)] call_mem put_packet_simps)
  qed
qed

lemma receive_single:
  assumes ok: "frag_ok fr" "card (dom (packets (mem_of fr))) < N" and k: "pmap fr (conn_handle h) = None" "GET_BOUNDARY_FLAG h = 2"
    and body: "body = le16 (word_of_nat (length body - 4)) @ ws" "4 \<le> length body" "length body < 65531"
  shows "\<exists>q packet. receive cb alloc balloc filter_event (2 # le16 h @ le16 (word_of_nat (length body)) @ body) fr = call (cb_reassembled cb q) (with_mem (put_packet q packet (mem_of fr)) fr) \<and>
    q \<noteq> 0 \<and> packets (mem_of fr) q = None \<and> whole_packet packet h body"
proof -
  let ?u = "mem_of fr"
  obtain p x where p: "balloc (5 + length body) ?u = Some (p, x)" using packet_room [of ?u "5 + length body"] ok(2) by fastforce
  have pf: "p \<noteq> 0" "packets ?u p = None" using packet_fresh [OF p] by auto
  let ?pk = "arrived_packet x h body"
  let ?fr1 = "with_mem (put_packet p ?pk ?u) fr"
  have recv: "receive cb alloc balloc filter_event (2 # le16 h @ le16 (word_of_nat (length body)) @ body) fr = reassemble_and_dispatch cb alloc balloc p ?fr1"
    by (rule receive_acl) (use p pf(1) body(3) in simp_all)
  have st: "reassemble_and_dispatch cb alloc balloc p ?fr1 = start_packet cb alloc balloc p ?pk (conn_handle h) (word_of_nat (length body - 4)) None ?fr1"
    using reassemble_acl [of p ?fr1 x h body cb alloc balloc] pf body(2) k ok(1) body(1) by (auto simp: k)
  have full: "word_of_nat (length body - 4) + 4 + 4 = hd_len ?pk" using body(2) by (simp add: of_nat_diff arrived_packet_def)
  have "start_packet cb alloc balloc p ?pk (conn_handle h) (word_of_nat (length body - 4)) None ?fr1 = call (cb_reassembled cb p) ?fr1"
    by (simp add: start_packet_def full)
  then show ?thesis using recv st pf arrived_whole [OF body(3)] by auto
qed

text \<open>All fragments of a packet give the packet again, and nothing else is left of them.\<close>

lemma receive_fragments:
  assumes ok: "frag_ok fr" "cells fr + 2 \<le> K" "card (dom (packets (mem_of fr))) + 2 \<le> N" and k: "pmap fr (conn_handle h) = None" "GET_BOUNDARY_FLAG h = 2"
    and body: "body = le16 (word_of_nat (length body - 4)) @ ws" "4 \<le> length body" "length body < 65531" and m: "2 \<le> m" "length body mod m \<noteq> 1"
  shows "\<exists>q packet fr'. receive_all cb alloc balloc filter_event (map ((#) 2) (fragments m h body)) fr = call (cb_reassembled cb q) fr' \<and> frag_ok fr' \<and> pmap fr' = pmap fr \<and>
    q \<noteq> 0 \<and> packets (mem_of fr) q = None \<and> mem_of fr' = put_packet q packet (mem_of fr) \<and> whole_packet packet h body"
proof (cases "length body \<le> m")
  case True
  have "card (dom (packets (mem_of fr))) < N" using ok(3) by simp
  from receive_single [OF ok(1) this k body, of cb filter_event] obtain q packet where
    r: "receive cb alloc balloc filter_event (2 # le16 h @ le16 (word_of_nat (length body)) @ body) fr = call (cb_reassembled cb q) (with_mem (put_packet q packet (mem_of fr)) fr)"
      "q \<noteq> 0" "packets (mem_of fr) q = None" "whole_packet packet h body" by blast
  let ?fr = "with_mem (put_packet q packet (mem_of fr)) fr"
  have "receive_all cb alloc balloc filter_event (map ((#) 2) (fragments m h body)) fr = call (cb_reassembled cb q) ?fr"
    using True r(1) by (simp add: fragments.simps [of _ h body] receive_all_Nil)
  moreover have "frag_ok ?fr" "pmap ?fr = pmap fr" "mem_of ?fr = put_packet q packet (mem_of fr)" using ok(1) by simp_all
  ultimately show ?thesis using r(2-4) by blast
next
  case False
  then have lt: "m < length body" by simp
  obtain q part fr1 where s: "receive cb alloc balloc filter_event (2 # le16 h @ le16 (word_of_nat m) @ take m body) fr = Some fr1" "frag_ok fr1" "pmap fr1 = (pmap fr)(conn_handle h \<mapsto> q)"
      "q \<noteq> 0" "packets (mem_of fr) q = None" "part_ok part h body m" "mem_of fr1 = put_packet q part (mem_of fr)"
    using receive_start [OF ok k body m(1) lt, of cb filter_event] by blast
  have ne: "body \<noteq> []" using body(2) by auto
  note chunk = chunk_bounds(2) [OF m ne lt]
  have card: "card (dom (packets (mem_of fr1))) < N"
    using ok(3) s(7) by (cases "finite (dom (packets (mem_of fr)))") (auto simp: card_insert_if)
  have "\<exists>packet fr'. receive_all cb alloc balloc filter_event (map ((#) 2) (fragments m (APPLY_CONTINUATION_FLAG h) (drop m body))) fr1 = call (cb_reassembled cb q) fr' \<and> frag_ok fr' \<and>
      pmap fr' = (pmap fr1)(conn_handle (APPLY_CONTINUATION_FLAG h) := None) \<and> mem_of fr' = put_packet q packet (mem_of fr1) \<and> whole_packet packet h body"
    by (rule receive_rest [OF m(1) body(3) s(2) card _ _ s(4) _ s(6) refl]) (use s chunk in \<open>simp_all add: continuation_handle\<close>)
  then obtain packet fr' where r: "receive_all cb alloc balloc filter_event (map ((#) 2) (fragments m (APPLY_CONTINUATION_FLAG h) (drop m body))) fr1 = call (cb_reassembled cb q) fr'" "frag_ok fr'"
      "pmap fr' = (pmap fr1)(conn_handle h := None)" "mem_of fr' = put_packet q packet (mem_of fr1)" "whole_packet packet h body"
    unfolding continuation_handle by blast
  have "receive_all cb alloc balloc filter_event (map ((#) 2) (fragments m h body)) fr = call (cb_reassembled cb q) fr'"
    using False m(1) s(1) r(1) by (simp add: fragments.simps [of _ h body])
  moreover have "pmap fr' = pmap fr" using r(3) s(3) k(1) by (simp add: fun_eq_iff)
  ultimately show ?thesis using r(2,4,5) s(4,5,7) by (intro exI [of _ q] exI [of _ packet] exI [of _ fr']) simp
qed

end

section \<open>From one host to another\<close>

text \<open>An allocator that takes the first free place of a pool, and cleared memory.\<close>

definition first_packet :: "ptr list \<Rightarrow> 'w pkt_alloc" where
  "first_packet pool n u = map_option (\<lambda>p. (p, \<lparr>hd_event = 0, hd_len = 0, hd_offset = 0, hd_layer_specific = 0, hd_data = replicate n 0\<rparr>))
     (find (\<lambda>a. a \<noteq> 0 \<and> packets u a = None) pool)"

interpretation hci_arena: hci_memory "first_entry arena" "card (set arena - {0})" "card (set pool - {0})" "first_packet pool"
proof unfold_locales
  fix s :: "'a pm_store"
  assume "used s < card (set arena - {0})"
  then show "first_entry arena s \<noteq> None" by (rule first_entry_room)
next
  fix n p x and u :: "'a hci_mem"
  assume "first_packet pool n u = Some (p, x)"
  then show "p \<noteq> 0 \<and> packets u p = None \<and> length (hd_data x) = n" by (auto simp: first_packet_def find_Some_iff)
next
  fix n and u :: "'a hci_mem"
  assume less: "card (dom (packets u)) < card (set pool - {0})"
  show "first_packet pool n u \<noteq> None"
  proof
    assume "first_packet pool n u = None"
    then have "set pool - {0} \<subseteq> dom (packets u)" by (auto simp: first_packet_def find_None_iff)
    then have "card (set pool - {0}) \<le> card (dom (packets u))" by (rule card_mono [rotated]) simp
    then show False using less by simp
  qed
qed

lemma fragmenter_init_ok:
  assumes "fragmenter_init alloc s = Some fr"
  shows "frag_ok fr" "pmap fr = Map.empty" "fr_store fr = s"
proof -
  obtain m where m: "hash_map_new_internal 42 hash_function_naive None None None alloc s = Some m" and fr: "fr = \<lparr>fr_partial_packets = m, fr_current_fragment_packet = 0, fr_store = s\<rparr>"
    using assms by (auto simp: fragmenter_init_def)
  have on: "hm_on m s (\<lambda>_. [])" "hm_abs m (\<lambda>_. []) = Map.empty" using hash_map_new_on [OF m] by simp_all
  moreover have "hm_key_fn m = None" "hm_data_fn m = None" using m by (auto simp: hash_map_new_internal_def split: option.splits if_splits)
  ultimately show "frag_ok fr" "fr_store fr = s" by (auto simp: fr frag_ok_def)
  show "pmap fr = Map.empty" using pmap_on [of fr "\<lambda>_. []"] on by (simp add: fr)
qed

lemma fragments_bounded: "f \<in> set (fragments m h body) \<Longrightarrow> 0 < m \<Longrightarrow> length f \<le> m + 4"
  by (induction m h body rule: fragments.induct) (subst (asm) (2) fragments.simps, auto split: if_splits)

lemma record_frames: "fold (\<lambda>f w. w @ [2 # f]) fs w = w @ map ((#) 2) fs"
  by (induction fs arbitrary: w) simp_all

text \<open>C17: an ACL packet survives the way from one host to another.  Sending a packet ends, frees it and gives the controller frames of at most its buffer size (and the header); when these frames arrive
  at a host that has no other packet of that connection in progress, it hands on exactly one packet, whose header and body are those that were sent, and apart from that packet its memory and its map of
  partial packets are as before.  The body starts with its length, as L2CAP has it; the contract of the memory is that of \<open>hci_memory\<close>, and no fragment has less than two bytes, which the
  receiver reads.\<close>

theorem acl_packet_round_trip:
  assumes "hci_memory alloc K N balloc"
    and "p \<noteq> 0" "packets (mem_of fr) p = Some packet" "acl_packet packet h body" "GET_BOUNDARY_FLAG h = 2"
    and "body = le16 (word_of_nat (length body - 4)) @ ws" "4 \<le> length body" "length body < 65531"
    and "m = (if hd_event packet AND MSG_SUB_EVT_MASK = 0 then classic else ble)" "2 \<le> unat m" "unat m < 65532" "length body mod unat m \<noteq> 1"
    and "frag_ok fr2" "pmap fr2 (conn_handle h) = None" "cells fr2 + 2 \<le> K" "card (dom (packets (mem_of fr2))) + 2 \<le> N"
  shows "\<exists>frames fr1 q packet' fr3.
    transmit_packet (packet_fragmenter_callbacks (\<lambda>f w. w @ [f]) post) classic ble p fr = Some fr1 \<and> hci_world (mem_of fr1) = hci_world (mem_of fr) @ frames \<and>
    packets (mem_of fr1) = (packets (mem_of fr))(p := None) \<and> (\<forall>f \<in> set frames. length f \<le> unat m + 5) \<and>
    receive_all cb alloc balloc filter_event frames fr2 = call (cb_reassembled cb q) fr3 \<and> frag_ok fr3 \<and> pmap fr3 = pmap fr2 \<and>
    q \<noteq> 0 \<and> packets (mem_of fr2) q = None \<and> mem_of fr3 = put_packet q packet' (mem_of fr2) \<and> whole_packet packet' h body"
proof -
  let ?fs = "fragments (unat m) h body"
  have m0: "0 < m" using assms(10) by (simp add: word_less_nat_alt)
  have tx: "transmit_packet (packet_fragmenter_callbacks (\<lambda>f w. w @ [f]) post) classic ble p fr = Some (with_mem
      ((mem_of fr)\<lparr>hci_world := hci_world (mem_of fr) @ map ((#) 2) ?fs, packets := (packets (mem_of fr))(p := None)\<rparr>) (fr\<lparr>fr_current_fragment_packet := 0\<rparr>))"
    using transmit_packet_fragments [OF assms(2,9) m0 assms(11,3,4), of "\<lambda>f w. w @ [f]" post] by (simp add: record_frames)
  have bound: "\<forall>f \<in> set (map ((#) 2) ?fs). length f \<le> unat m + 5" using fragments_bounded assms(10) by fastforce
  from hci_memory.receive_fragments [OF assms(1,13,15,16,14,5-8,10,12), of cb filter_event]
  obtain q packet' fr3 where rx: "receive_all cb alloc balloc filter_event (map ((#) 2) ?fs) fr2 = call (cb_reassembled cb q) fr3" "frag_ok fr3" "pmap fr3 = pmap fr2"
      "q \<noteq> 0" "packets (mem_of fr2) q = None" "mem_of fr3 = put_packet q packet' (mem_of fr2)" "whole_packet packet' h body" by blast
  show ?thesis
    by (intro exI [of _ "map ((#) 2) ?fs"] exI conjI, rule tx) (use rx bound in \<open>simp_all\<close>)
qed

definition tx_packet :: BT_HDR where
  "tx_packet = \<lparr>hd_event = 0x2100, hd_len = 12, hd_offset = 1, hd_layer_specific = 0, hd_data = 0 # le16 0x2001 @ le16 8 @ le16 4 @ [1, 2, 3, 4, 5, 6]\<rparr>"

definition hci_store0 :: "'w \<Rightarrow> 'w pm_store" where
  "hci_store0 w = \<lparr>nodes = Map.empty, rest = \<lparr>entries = Map.empty, user = \<lparr>packets = Map.empty, hci_world = w\<rparr>\<rparr>\<rparr>"

definition hci_host0 :: "'w \<Rightarrow> 'w fragmenter" where
  "hci_host0 w = the (fragmenter_init (first_entry [4, 8]) (hci_store0 w))"

lemma hci_host0_ok: "frag_ok (hci_host0 w)" "pmap (hci_host0 w) = Map.empty" "cells (hci_host0 w) = 0" "mem_of (hci_host0 w) = \<lparr>packets = Map.empty, hci_world = w\<rparr>"
proof -
  have "fragmenter_init (first_entry [4, 8]) (hci_store0 w) = Some (hci_host0 w)" by (simp add: hci_host0_def fragmenter_init_def hash_map_new_internal_def first_entry_def hci_store0_def)
  from fragmenter_init_ok [OF this] show "frag_ok (hci_host0 w)" "pmap (hci_host0 w) = Map.empty" "cells (hci_host0 w) = 0" "mem_of (hci_host0 w) = \<lparr>packets = Map.empty, hci_world = w\<rparr>"
    by (simp_all add: cells_def used_def mem_of_def hci_store0_def)
qed

theorem acl_packet_round_trip_witness:
  "\<exists>frames fr1 q packet' fr3.
    transmit_packet (packet_fragmenter_callbacks (\<lambda>f w. w @ [f]) (\<lambda>_ u. (True, u))) 3 3 4 (with_mem (put_packet 4 tx_packet (mem_of (hci_host0 []))) (hci_host0 [])) = Some fr1 \<and>
    hci_world (mem_of fr1) = frames \<and>
    receive_all (packet_fragmenter_callbacks (\<lambda>_ w. w) (\<lambda>_ u. (True, u))) (first_entry [4, 8]) (first_packet [4, 8]) (\<lambda>_ fr. Some (False, fr)) frames (hci_host0 ()) = Some fr3 \<and>
    packets (mem_of fr3) = [q \<mapsto> packet'] \<and> whole_packet packet' 0x2001 (le16 4 @ [1, 2, 3, 4, 5, 6])"
proof -
  let ?fr = "with_mem (put_packet 4 tx_packet (mem_of (hci_host0 []))) (hci_host0 []) :: byte list list fragmenter"
  let ?body = "le16 4 @ [1, 2, 3, 4, 5, 6] :: byte list"
  let ?cb = "packet_fragmenter_callbacks (\<lambda>_ w. w) (\<lambda>_ u. (True, u)) :: unit packet_fragmenter_callbacks_t"
  have acl: "acl_packet tx_packet 0x2001 ?body"
    unfolding acl_packet_def by (simp add: tx_packet_def MSG_EVT_MASK_def MSG_STACK_TO_HC_HCI_ACL_def) (rule exI [of _ "[0]"], simp)
  have "card (set [4, 8 :: ptr] - {0}) = 2" by simp
  then have mem: "hci_memory (first_entry [4, 8]) 2 2 (first_packet [4, 8])" using hci_arena.hci_memory_axioms [of "[4, 8]" "[4, 8]"] by (simp only:)
  have "\<exists>frames fr1 q packet' fr3.
      transmit_packet (packet_fragmenter_callbacks (\<lambda>f w. w @ [f]) (\<lambda>_ u. (True, u))) 3 3 4 ?fr = Some fr1 \<and> hci_world (mem_of fr1) = hci_world (mem_of ?fr) @ frames \<and>
      packets (mem_of fr1) = (packets (mem_of ?fr))(4 := None) \<and> (\<forall>f \<in> set frames. length f \<le> unat (3 :: 16 word) + 5) \<and>
      receive_all ?cb (first_entry [4, 8]) (first_packet [4, 8]) (\<lambda>_ fr. Some (False, fr)) frames (hci_host0 ()) = call (cb_reassembled ?cb q) fr3 \<and> frag_ok fr3 \<and> pmap fr3 = pmap (hci_host0 ()) \<and>
      q \<noteq> 0 \<and> packets (mem_of (hci_host0 ())) q = None \<and> mem_of fr3 = put_packet q packet' (mem_of (hci_host0 ())) \<and> whole_packet packet' 0x2001 ?body"
    by (rule acl_packet_round_trip [OF mem _ _ acl, where ws = "[1, 2, 3, 4, 5, 6]"])
      (simp_all add: hci_host0_ok GET_BOUNDARY_FLAG_def)
  then obtain frames fr1 q packet' fr3 where r: "transmit_packet (packet_fragmenter_callbacks (\<lambda>f w. w @ [f]) (\<lambda>_ u. (True, u))) 3 3 4 ?fr = Some fr1" "hci_world (mem_of fr1) = frames"
      "receive_all ?cb (first_entry [4, 8]) (first_packet [4, 8]) (\<lambda>_ fr. Some (False, fr)) frames (hci_host0 ()) = call (cb_reassembled ?cb q) fr3"
      "mem_of fr3 = put_packet q packet' (mem_of (hci_host0 ()))" "whole_packet packet' 0x2001 ?body" by (auto simp: hci_host0_ok)
  have "call (cb_reassembled ?cb q) fr3 = Some (with_mem (mem_of fr3) fr3)" by (simp add: call_def packet_fragmenter_callbacks_def dispatch_reassembled_def)
  then have "receive_all ?cb (first_entry [4, 8]) (first_packet [4, 8]) (\<lambda>_ fr. Some (False, fr)) frames (hci_host0 ()) = Some (with_mem (mem_of fr3) fr3)" using r(3) by simp
  moreover have "packets (mem_of (with_mem (mem_of fr3) fr3)) = [q \<mapsto> packet']" by (simp add: r(4) hci_host0_ok)
  ultimately show ?thesis using r(1,2,5) by blast
qed

end
