(* ===== verification/FixedQueue.thy ===== *)
theory FixedQueue
  imports OsiList
begin

text \<open>
  \<^verbatim>\<open>components/bt/bluedroid/osi/fixed_queue.c\<close>, with the semaphores and mutexes of \<^verbatim>\<open>semaphore.c\<close> and \<^verbatim>\<open>mutex.c\<close>: the bounded queue between the tasks of the Bluetooth host.

  An operation is the sequence of its atomic parts: taking and giving a semaphore, locking and unlocking the mutex, and each call on the list, which only the holder of the mutex makes.  Any number
  of tasks run operations at the same time, and the step relation interleaves their parts in every order.  A part that waits (for a semaphore or the mutex) is not enabled, one that reads memory that is
  not there has no result.  The state remembers the data that were put into the list and taken out of it, in order, which no operation looks at.

  \<open>fixed_queue_try_dequeue\<close> and \<open>fixed_queue_try_remove_from_queue\<close> pass a semaphore instead of its address and are left out; \<open>fixed_queue_process\<close> calls the function that was registered,
  which belongs to the user of the queue.
\<close>

section \<open>The queue\<close>

record ('d, 'w) fixed_queue_t =
  fq_list :: "('d, 'w) list_t"
  fq_enqueue_sem :: nat
  fq_dequeue_sem :: nat
  fq_lock :: "nat option"
  fq_capacity :: nat

text \<open>Two flags say whether the semaphores can be created.\<close>

definition fixed_queue_new :: "bool \<Rightarrow> bool \<Rightarrow> nat \<Rightarrow> ('d, 'w) allocator \<Rightarrow> ('d, 'w) store \<Rightarrow> ('d, 'w) fixed_queue_t option" where
  "fixed_queue_new sem1 sem2 capacity alloc s = (case alloc s of None \<Rightarrow> None
     | Some _ \<Rightarrow> do {
         l \<leftarrow> list_new_internal None alloc s;
         if sem1 \<and> sem2 then Some \<lparr>fq_list = l, fq_enqueue_sem = capacity, fq_dequeue_sem = 0, fq_lock = None, fq_capacity = capacity\<rparr> else None })"

partial_function (option) fixed_queue_free_loop :: "('d \<Rightarrow> 'w \<Rightarrow> 'w option) \<Rightarrow> ptr \<Rightarrow> ptr \<Rightarrow> ('d, 'w) store \<Rightarrow> ('d, 'w) store option" where
  "fixed_queue_free_loop free_cb node end s = (if node = end then Some s
     else do {
       d \<leftarrow> list_node s node;
       w \<leftarrow> free_cb d (rest s);
       node \<leftarrow> list_next (s\<lparr>rest := w\<rparr>) node;
       fixed_queue_free_loop free_cb node end (s\<lparr>rest := w\<rparr>) })"

definition fixed_queue_free :: "('d, 'w) fixed_queue_t option \<Rightarrow> ('d \<Rightarrow> 'w \<Rightarrow> 'w option) option \<Rightarrow> ('d, 'w) store \<Rightarrow> ('d, 'w) store option" where
  "fixed_queue_free queue free_cb s = (case queue of None \<Rightarrow> Some s
     | Some q \<Rightarrow> do {
         s \<leftarrow> (case free_cb of None \<Rightarrow> Some s | Some f \<Rightarrow> fixed_queue_free_loop f (list_begin (fq_list q)) (list_end (fq_list q)) s);
         list_free (Some (fq_list q)) s })"

definition fixed_queue_capacity :: "('d, 'w) fixed_queue_t \<Rightarrow> nat" where "fixed_queue_capacity queue = fq_capacity queue"

definition fixed_queue_get_list :: "('d, 'w) fixed_queue_t \<Rightarrow> ('d, 'w) list_t" where "fixed_queue_get_list queue = fq_list queue"

section \<open>The parts of an operation\<close>

datatype 'd instr = Take_enqueue | Try_enqueue | Take_dequeue | Give_enqueue | Give_dequeue | Lock | Unlock
  | is_Put: Put 'd | Front | Take_out | Read_empty | Read_length | Peek_first | Peek_last

datatype 'd retval = Void | Null | Data 'd | Flag bool | Size "32 word"

record 'd task =
  tk_code :: "'d instr list"
  tk_ret :: "'d retval"

definition fixed_queue_is_empty :: "'d instr list" where "fixed_queue_is_empty = [Lock, Read_empty, Unlock]"
definition fixed_queue_length :: "'d instr list" where "fixed_queue_length = [Lock, Read_length, Unlock]"
definition fixed_queue_enqueue :: "'d \<Rightarrow> 'd instr list" where "fixed_queue_enqueue d = [Take_enqueue, Lock, Put d, Unlock, Give_dequeue]"
definition fixed_queue_dequeue :: "'d instr list" where "fixed_queue_dequeue = [Take_dequeue, Lock, Front, Take_out, Unlock, Give_enqueue]"
definition fixed_queue_try_enqueue :: "'d \<Rightarrow> 'd instr list" where "fixed_queue_try_enqueue d = [Try_enqueue, Lock, Put d, Unlock, Give_dequeue]"
definition fixed_queue_try_peek_first :: "'d instr list" where "fixed_queue_try_peek_first = [Lock, Peek_first, Unlock]"
definition fixed_queue_try_peek_last :: "'d instr list" where "fixed_queue_try_peek_last = [Lock, Peek_last, Unlock]"

datatype 'd fq_call = Is_empty | Length | Enqueue 'd | Dequeue | Try_to_enqueue 'd | First | Last

fun code_of :: "'d fq_call \<Rightarrow> 'd instr list" where
  "code_of Is_empty = fixed_queue_is_empty"
| "code_of Length = fixed_queue_length"
| "code_of (Enqueue d) = fixed_queue_enqueue d"
| "code_of Dequeue = fixed_queue_dequeue"
| "code_of (Try_to_enqueue d) = fixed_queue_try_enqueue d"
| "code_of First = fixed_queue_try_peek_first"
| "code_of Last = fixed_queue_try_peek_last"

text \<open>\<open>osi_sem_take\<close> and \<open>osi_mutex_lock\<close> without a time limit wait; a semaphore is not given beyond its maximum.\<close>

fun waits :: "'d instr \<Rightarrow> ('d, 'w) fixed_queue_t \<Rightarrow> bool" where
  "waits Take_enqueue q \<longleftrightarrow> fq_enqueue_sem q = 0"
| "waits Take_dequeue q \<longleftrightarrow> fq_dequeue_sem q = 0"
| "waits Lock q \<longleftrightarrow> fq_lock q \<noteq> None"
| "waits _ q \<longleftrightarrow> False"

definition osi_sem_give :: "nat \<Rightarrow> nat \<Rightarrow> nat" where
  "osi_sem_give max_count n = (if n < max_count then n + 1 else n)"

type_synonym ('d, 'w) fq_result = "('d task \<times> ('d, 'w) fixed_queue_t \<times> ('d, 'w) store) option"

fun execute :: "('d, 'w) allocator \<Rightarrow> nat \<Rightarrow> 'd instr \<Rightarrow> 'd task \<Rightarrow> ('d, 'w) fixed_queue_t \<Rightarrow> ('d, 'w) store \<Rightarrow> ('d, 'w) fq_result" where
  "execute alloc i Take_enqueue t q s = Some (t, q\<lparr>fq_enqueue_sem := fq_enqueue_sem q - 1\<rparr>, s)"
| "execute alloc i Try_enqueue t q s = Some (if fq_enqueue_sem q = 0 then (t\<lparr>tk_code := [], tk_ret := Flag False\<rparr>, q, s)
     else (t\<lparr>tk_ret := Flag True\<rparr>, q\<lparr>fq_enqueue_sem := fq_enqueue_sem q - 1\<rparr>, s))"
| "execute alloc i Take_dequeue t q s = Some (t, q\<lparr>fq_dequeue_sem := fq_dequeue_sem q - 1\<rparr>, s)"
| "execute alloc i Give_enqueue t q s = Some (t, q\<lparr>fq_enqueue_sem := osi_sem_give (fq_capacity q) (fq_enqueue_sem q)\<rparr>, s)"
| "execute alloc i Give_dequeue t q s = Some (t, q\<lparr>fq_dequeue_sem := osi_sem_give (fq_capacity q) (fq_dequeue_sem q)\<rparr>, s)"
| "execute alloc i Lock t q s = Some (t, q\<lparr>fq_lock := Some i\<rparr>, s)"
| "execute alloc i Unlock t q s = Some (t, q\<lparr>fq_lock := None\<rparr>, s)"
| "execute alloc i (Put d) t q s = do { (r, l, s) \<leftarrow> list_append alloc (fq_list q) d s; Some (t, q\<lparr>fq_list := l\<rparr>, s) }"
| "execute alloc i Front t q s = do { d \<leftarrow> list_front (fq_list q) s; Some (t\<lparr>tk_ret := Data d\<rparr>, q, s) }"
| "execute alloc i Take_out t q s = (case tk_ret t of Data d \<Rightarrow> do { (r, l, s) \<leftarrow> list_remove (fq_list q) d s; Some (t, q\<lparr>fq_list := l\<rparr>, s) } | _ \<Rightarrow> None)"
| "execute alloc i Read_empty t q s = Some (t\<lparr>tk_ret := Flag (list_is_empty (fq_list q))\<rparr>, q, s)"
| "execute alloc i Read_length t q s = Some (t\<lparr>tk_ret := Size (list_length (fq_list q))\<rparr>, q, s)"
| "execute alloc i Peek_first t q s = (if list_is_empty (fq_list q) then Some (t\<lparr>tk_ret := Null\<rparr>, q, s)
     else do { d \<leftarrow> list_front (fq_list q) s; Some (t\<lparr>tk_ret := Data d\<rparr>, q, s) })"
| "execute alloc i Peek_last t q s = (if list_is_empty (fq_list q) then Some (t\<lparr>tk_ret := Null\<rparr>, q, s)
     else do { d \<leftarrow> list_back (fq_list q) s; Some (t\<lparr>tk_ret := Data d\<rparr>, q, s) })"

section \<open>Interleaving\<close>

record ('d, 'w) fq_state =
  st_queue :: "('d, 'w) fixed_queue_t"
  st_store :: "('d, 'w) store"
  st_tasks :: "'d task list"
  st_in :: "'d list"
  st_out :: "'d list"

fun put_data :: "'d instr \<Rightarrow> 'd list" where
  "put_data (Put d) = [d]"
| "put_data _ = []"

fun taken_data :: "'d instr \<Rightarrow> 'd retval \<Rightarrow> 'd list" where
  "taken_data Take_out (Data d) = [d]"
| "taken_data _ _ = []"

inductive fq_step :: "('d, 'w) allocator \<Rightarrow> ('d, 'w) fq_state \<Rightarrow> ('d, 'w) fq_state \<Rightarrow> bool" for alloc where
  call: "i < length (st_tasks st) \<Longrightarrow> tk_code (st_tasks st ! i) = [] \<Longrightarrow>
    fq_step alloc st (st\<lparr>st_tasks := (st_tasks st)[i := \<lparr>tk_code = code_of c, tk_ret = Void\<rparr>]\<rparr>)"
| part: "i < length (st_tasks st) \<Longrightarrow> st_tasks st ! i = t \<Longrightarrow> tk_code t = ins # code \<Longrightarrow> \<not> waits ins (st_queue st) \<Longrightarrow>
    execute alloc i ins (t\<lparr>tk_code := code\<rparr>) (st_queue st) (st_store st) = Some (t', q, s) \<Longrightarrow>
    fq_step alloc st \<lparr>st_queue = q, st_store = s, st_tasks = (st_tasks st)[i := t'], st_in = st_in st @ put_data ins, st_out = st_out st @ taken_data ins (tk_ret t)\<rparr>"

definition fq_start :: "nat \<Rightarrow> ('d, 'w) fixed_queue_t \<Rightarrow> ('d, 'w) store \<Rightarrow> ('d, 'w) fq_state" where
  "fq_start n q s = \<lparr>st_queue = q, st_store = s, st_tasks = replicate n \<lparr>tk_code = [], tk_ret = Void\<rparr>, st_in = [], st_out = []\<rparr>"

section \<open>Freeing a queue\<close>

lemma free_loop_on:
  "chain (nodes s) p ns 0 \<Longrightarrow> free_all f (map snd ns) (rest s) = Some w \<Longrightarrow> fixed_queue_free_loop f p 0 s = Some (s\<lparr>rest := w\<rparr>)"
proof (induction ns arbitrary: p s)
  case (Cons n ns)
  obtain a d where n: "n = (a, d)" by (cases n)
  obtain nx where nx: "p = a" "a \<noteq> 0" "nodes s a = Some \<lparr>ln_next = nx, ln_data = d\<rparr>" "chain (nodes s) nx ns 0" using Cons.prems(1) n by auto
  obtain v where v: "f d (rest s) = Some v" "free_all f (map snd ns) v = Some w" using Cons.prems(2) n by (auto split: bind_splits)
  have "fixed_queue_free_loop f nx 0 (s\<lparr>rest := v\<rparr>) = Some (s\<lparr>rest := w\<rparr>)" using Cons.IH [of "s\<lparr>rest := v\<rparr>" nx] nx(4) v(2) by simp
  then show ?case using nx v(1) by (simp add: fixed_queue_free_loop.simps [of f a] list_defs)
qed (simp add: fixed_queue_free_loop.simps)

lemma free_all_none: "free_all (\<lambda>d w. Some w) ds w = Some w"
  by (induction ds) simp_all

text \<open>\<open>fixed_queue_free\<close> gives every datum to \<open>free_cb\<close> once, in order, and frees every node.\<close>

lemma fixed_queue_free_on:
  assumes "list_on (nodes s) (fq_list q) ns" "lt_free_cb (fq_list q) = None" "free_all f (map snd ns) (rest s) = Some w"
  shows "fixed_queue_free (Some q) (Some f) s = Some (s\<lparr>nodes := nodes s |` (- fst ` set ns), rest := w\<rparr>)"
proof -
  have "fixed_queue_free_loop f (lt_head (fq_list q)) 0 s = Some (s\<lparr>rest := w\<rparr>)" using assms by (intro free_loop_on) (auto simp: list_on_def)
  moreover have "free_data (fq_list q) = (\<lambda>d w. Some w)" using assms(2) by (simp add: free_data_def fun_eq_iff)
  then have "list_clear (fq_list q) (s\<lparr>rest := w\<rparr>) = Some ((fq_list q)\<lparr>lt_head := 0, lt_tail := 0, lt_length := 0\<rparr>, s\<lparr>rest := w, nodes := nodes s |` (- fst ` set ns)\<rparr>)"
    using list_clear_on [of "s\<lparr>rest := w\<rparr>" "fq_list q" ns w] assms(1) by (simp add: free_all_none)
  ultimately show ?thesis by (simp add: fixed_queue_free_def list_free_def list_begin_def list_end_def)
qed

section \<open>Where a task stands\<close>

definition adding :: "'d instr list \<Rightarrow> nat" where "adding code = of_bool (list_ex is_Put code \<and> Take_enqueue \<notin> set code \<and> Try_enqueue \<notin> set code)"

definition added :: "'d instr list \<Rightarrow> nat" where "added code = of_bool (Give_dequeue \<in> set code \<and> \<not> list_ex is_Put code)"

definition taking :: "'d instr list \<Rightarrow> nat" where "taking code = of_bool (Take_out \<in> set code \<and> Take_dequeue \<notin> set code)"

definition taken :: "'d instr list \<Rightarrow> nat" where "taken code = of_bool (Give_enqueue \<in> set code \<and> Take_out \<notin> set code)"

definition holds :: "'d instr list \<Rightarrow> bool" where "holds code \<longleftrightarrow> Unlock \<in> set code \<and> Lock \<notin> set code"

definition part_of_call :: "'d instr list \<Rightarrow> bool" where "part_of_call code \<longleftrightarrow> (\<exists>c n. code = drop n (code_of c))"

definition total :: "('d instr list \<Rightarrow> nat) \<Rightarrow> 'd task list \<Rightarrow> nat" where "total f ts = sum_list (map (f \<circ> tk_code) ts)"

lemmas places = adding_def added_def taking_def taken_def holds_def

lemmas call_codes = fixed_queue_is_empty_def fixed_queue_length_def fixed_queue_enqueue_def fixed_queue_dequeue_def fixed_queue_try_enqueue_def fixed_queue_try_peek_first_def fixed_queue_try_peek_last_def

lemma part_of_call_code: "part_of_call (code_of c)" "part_of_call []"
proof -
  show "part_of_call (code_of c)" unfolding part_of_call_def by (rule exI [of _ c], rule exI [of _ 0]) simp
  show "part_of_call []" unfolding part_of_call_def by (rule exI [of _ Dequeue], rule exI [of _ 6]) (simp add: fixed_queue_dequeue_def)
qed

lemma part_of_call_rest: "part_of_call (ins # code) \<Longrightarrow> part_of_call code"
proof -
  assume "part_of_call (ins # code)"
  then obtain c n where "ins # code = drop n (code_of c)" by (auto simp: part_of_call_def)
  then have "code = drop (Suc n) (code_of c)" by (metis drop_Suc list.sel(3) tl_drop)
  then show ?thesis by (auto simp: part_of_call_def)
qed

lemma part_of_call_cases:
  assumes "part_of_call (ins # code)"
  obtains "ins \<in> {Take_enqueue, Try_enqueue}" "\<exists>d. code = [Lock, Put d, Unlock, Give_dequeue]"
  | "ins = Take_dequeue" "code = [Lock, Front, Take_out, Unlock, Give_enqueue]"
  | "ins = Lock" "\<exists>d. code = [Put d, Unlock, Give_dequeue]"
  | "ins = Lock" "code = [Front, Take_out, Unlock, Give_enqueue]"
  | "ins = Lock" "\<exists>r \<in> {Read_empty, Read_length, Peek_first, Peek_last}. code = [r, Unlock]"
  | d where "ins = Put d" "code = [Unlock, Give_dequeue]"
  | "ins = Front" "code = [Take_out, Unlock, Give_enqueue]"
  | "ins = Take_out" "code = [Unlock, Give_enqueue]"
  | "ins \<in> {Read_empty, Read_length, Peek_first, Peek_last}" "code = [Unlock]"
  | "ins = Unlock" "code \<in> {[], [Give_enqueue], [Give_dequeue]}"
  | "ins \<in> {Give_enqueue, Give_dequeue}" "code = []"
proof -
  obtain c n where "ins # code = drop n (code_of c)" using assms by (auto simp: part_of_call_def)
  then show ?thesis by (cases c) (auto simp: call_codes drop_Cons' split: if_splits intro: that)
qed

lemma total_update:
  assumes "i < length ts"
  shows "total f (ts[i := t]) + f (tk_code (ts ! i)) = total f ts + f (tk_code t)"
proof -
  have "ts = take i ts @ ts ! i # drop (Suc i) ts" by (rule id_take_nth_drop [OF assms])
  then have "total f ts = total f (take i ts) + f (tk_code (ts ! i)) + total f (drop (Suc i) ts)" by (metis (no_types) total_def add.assoc comp_apply list.simps(9) map_append sum_list.Cons sum_list_append)
  moreover have "total f (ts[i := t]) = total f (take i ts) + f (tk_code t) + total f (drop (Suc i) ts)" using assms by (simp add: total_def upd_conv_take_nth_drop)
  ultimately show ?thesis by simp
qed

lemma total_ge: "i < length ts \<Longrightarrow> f (tk_code (ts ! i)) \<le> total f ts"
  unfolding total_def by (intro member_le_sum_list) simp_all

section \<open>The invariant\<close>

text \<open>\<open>ns\<close> are the nodes of the list and \<open>c0\<close> the nodes of others.  Every place of the queue is free, in use or on its way, and every datum is announced, about to be or being taken; a task holds the
  mutex exactly between its locking and unlocking.\<close>

definition fq_ok :: "nat \<Rightarrow> (ptr \<times> 'd) list \<Rightarrow> ('d, 'w) fq_state \<Rightarrow> bool" where
  "fq_ok c0 ns st \<longleftrightarrow> (let q = st_queue st; ts = st_tasks st in
     list_on (nodes (st_store st)) (fq_list q) ns \<and> lt_free_cb (fq_list q) = None \<and> st_in st = st_out st @ map snd ns \<and> card (dom (nodes (st_store st))) \<le> c0 + length ns \<and>
     fq_enqueue_sem q + total adding ts + length ns + total taken ts = fq_capacity q \<and> fq_dequeue_sem q + total added ts + total taking ts = length ns \<and>
     (\<forall>i < length ts. part_of_call (tk_code (ts ! i)) \<and> (holds (tk_code (ts ! i)) \<longleftrightarrow> fq_lock q = Some i) \<and>
        (\<forall>code. tk_code (ts ! i) = Take_out # code \<longrightarrow> ns \<noteq> [] \<and> tk_ret (ts ! i) = Data (snd (hd ns)))) \<and>
     (\<forall>i. fq_lock q = Some i \<longrightarrow> i < length ts))"

lemma holds_take_out: "part_of_call (Take_out # code) \<Longrightarrow> holds (Take_out # code)"
  by (elim part_of_call_cases) (auto simp: holds_def)

lemma fq_ok_update:
  assumes ok: "fq_ok c0 ns st" and i: "i < length (st_tasks st)" "tk_code (st_tasks st ! i) = c"
    and list: "list_on (nodes s) (fq_list q) ns'" "lt_free_cb (fq_list q) = None" "xs = ys @ map snd ns'" "card (dom (nodes s)) \<le> c0 + length ns'"
    and cap: "fq_capacity q = fq_capacity (st_queue st)"
    and enq: "fq_enqueue_sem q + adding (tk_code t) + length ns' + taken (tk_code t) = fq_enqueue_sem (st_queue st) + adding c + length ns + taken c"
    and deq: "fq_dequeue_sem q + added (tk_code t) + taking (tk_code t) + length ns = fq_dequeue_sem (st_queue st) + added c + taking c + length ns'"
    and code: "part_of_call (tk_code t)" "holds (tk_code t) \<longleftrightarrow> fq_lock q = Some i" "\<And>code. tk_code t = Take_out # code \<Longrightarrow> ns' \<noteq> [] \<and> tk_ret t = Data (snd (hd ns'))"
    and lock: "fq_lock q = fq_lock (st_queue st) \<or> fq_lock (st_queue st) \<in> {None, Some i} \<and> fq_lock q \<in> {None, Some i}" "ns' = ns \<or> fq_lock (st_queue st) = Some i"
  shows "fq_ok c0 ns' \<lparr>st_queue = q, st_store = s, st_tasks = (st_tasks st)[i := t], st_in = xs, st_out = ys\<rparr>"
proof -
  let ?ts = "st_tasks st"
  let ?ts' = "?ts[i := t]"
  note ok = ok [unfolded fq_ok_def Let_def]
  have upd: "total f ?ts' + f c = total f ?ts + f (tk_code t)" for f :: "'a instr list \<Rightarrow> nat" using total_update [OF i(1), of f t] i(2) by simp
  have "fq_enqueue_sem q + total adding ?ts' + length ns' + total taken ?ts' = fq_capacity q" using ok enq cap upd [of adding] upd [of taken] by linarith
  moreover have "fq_dequeue_sem q + total added ?ts' + total taking ?ts' = length ns'" using ok deq upd [of added] upd [of taking] by linarith
  moreover have "part_of_call (tk_code (?ts' ! k)) \<and> (holds (tk_code (?ts' ! k)) \<longleftrightarrow> fq_lock q = Some k) \<and>
      (\<forall>code. tk_code (?ts' ! k) = Take_out # code \<longrightarrow> ns' \<noteq> [] \<and> tk_ret (?ts' ! k) = Data (snd (hd ns')))" if k: "k < length ?ts'" for k
  proof (cases "k = i")
    case True
    then show ?thesis using code i by auto
  next
    case False
    have old: "part_of_call (tk_code (?ts ! k))" "holds (tk_code (?ts ! k)) \<longleftrightarrow> fq_lock (st_queue st) = Some k"
        "\<And>code. tk_code (?ts ! k) = Take_out # code \<Longrightarrow> ns \<noteq> [] \<and> tk_ret (?ts ! k) = Data (snd (hd ns))" using ok k by auto
    have "holds (tk_code (?ts ! k)) \<longleftrightarrow> fq_lock q = Some k" using old(2) lock(1) False by auto
    moreover have "ns' \<noteq> [] \<and> tk_ret (?ts ! k) = Data (snd (hd ns'))" if "tk_code (?ts ! k) = Take_out # code" for code
      using old holds_take_out [of code] that lock(2) False by auto
    ultimately show ?thesis using False old(1) by simp
  qed
  moreover have "k < length ?ts'" if "fq_lock q = Some k" for k using that ok lock(1) i(1) by auto
  ultimately show ?thesis unfolding fq_ok_def Let_def using list by simp
qed

context fresh_alloc
begin

text \<open>Every part of an operation that does not wait has a result, and keeps the invariant.\<close>

lemma put_ok:
  assumes ok: "fq_ok c0 ns st" and i: "i < length (st_tasks st)" "tk_code (st_tasks st ! i) = [Put d, Unlock, Give_dequeue]"
    and room: "\<And>s. card (dom (nodes s)) < c0 + fq_capacity (st_queue st) \<Longrightarrow> alloc s \<noteq> None"
  shows "\<exists>l s ns'. list_append alloc (fq_list (st_queue st)) d (st_store st) = Some (True, l, s) \<and>
    fq_ok c0 ns' \<lparr>st_queue = (st_queue st)\<lparr>fq_list := l\<rparr>, st_store = s, st_tasks = (st_tasks st)[i := (st_tasks st ! i)\<lparr>tk_code := [Unlock, Give_dequeue]\<rparr>], st_in = st_in st @ [d], st_out = st_out st\<rparr>"
proof -
  note ok' = ok [unfolded fq_ok_def Let_def]
  have "1 \<le> total adding (st_tasks st)" using total_ge [OF i(1), of adding] i(2) by (simp add: adding_def)
  then have "length ns < fq_capacity (st_queue st)" using ok' by linarith
  then have al: "alloc (st_store st) \<noteq> None" using ok' by (intro room) linarith
  have cb: "\<And>d w. free_data (fq_list (st_queue st)) d w \<noteq> None" using ok' by (simp add: free_data_def)
  from list_exec_on [of "st_store st" "fq_list (st_queue st)" ns False "Append d"] al cb ok'
  obtain l s ns' where a: "list_append alloc (fq_list (st_queue st)) d (st_store st) = Some (True, l, s)" "list_on (nodes s) l ns'" "lt_free_cb l = None"
      "map snd ns' = map snd ns @ [d]" "only_moves ns ns' (st_store st) s" by (auto split: if_splits)
  have len: "length ns' = length ns + 1" using arg_cong [OF a(4), of length] by simp
  have lk: "fq_lock (st_queue st) = Some i" using ok' i by (auto simp: holds_def)
  have "card (dom (nodes s)) \<le> c0 + length ns'" using only_moves_card [OF _ a(5), of "fq_list (st_queue st)"] ok' by linarith
  then have "fq_ok c0 ns' \<lparr>st_queue = (st_queue st)\<lparr>fq_list := l\<rparr>, st_store = s, st_tasks = (st_tasks st)[i := (st_tasks st ! i)\<lparr>tk_code := [Unlock, Give_dequeue]\<rparr>], st_in = st_in st @ [d], st_out = st_out st\<rparr>"
    using ok' a len lk part_of_call_rest [of "Put d" "[Unlock, Give_dequeue]"] i
    by (intro fq_ok_update [OF ok i]) (auto simp: places)
  then show ?thesis using a(1) by blast
qed

lemma take_out_ok:
  fixes st :: "('d, 'w) fq_state"
  assumes ok: "fq_ok c0 ns st" and i: "i < length (st_tasks st)" "tk_code (st_tasks st ! i) = [Take_out, Unlock, Give_enqueue]"
  shows "\<exists>d l s ns'. tk_ret (st_tasks st ! i) = Data d \<and> list_remove (fq_list (st_queue st)) d (st_store st) = Some (True, l, s) \<and>
    fq_ok c0 ns' \<lparr>st_queue = (st_queue st)\<lparr>fq_list := l\<rparr>, st_store = s, st_tasks = (st_tasks st)[i := (st_tasks st ! i)\<lparr>tk_code := [Unlock, Give_enqueue]\<rparr>], st_in = st_in st, st_out = st_out st @ [d]\<rparr>"
proof -
  note ok' = ok [unfolded fq_ok_def Let_def]
  have ns: "ns \<noteq> []" "tk_ret (st_tasks st ! i) = Data (snd (hd ns))" using ok' i by auto
  let ?d = "snd (hd ns)"
  have cb: "\<And>d w. free_data (fq_list (st_queue st)) d w \<noteq> None" using ok' by (simp add: free_data_def)
  have hd: "map snd ns = ?d # map snd (tl ns)" using ns(1) by (cases ns) auto
  have on: "list_on (nodes (st_store st)) (fq_list (st_queue st)) ns" "lt_free_cb (fq_list (st_queue st)) = None" using ok' by blast+
  obtain r l s ns' where e: "list_exec alloc (Remove ?d) (fq_list (st_queue st)) (st_store st) = Some (r, l, s)" "list_on (nodes s) l ns'" "lt_free_cb l = None"
      "list_spec True (Remove ?d) r (map snd ns) = Some (map snd ns')" "only_moves ns ns' (st_store st) s"
    using list_exec_on [OF on(1) cb, of True "Remove ?d"] on(2) by auto
  have "r" "map snd ns' = map snd (tl ns)" using e(4) unfolding hd by (simp_all split: if_splits)
  then have a: "list_remove (fq_list (st_queue st)) ?d (st_store st) = Some (True, l, s)" "list_on (nodes s) l ns'" "lt_free_cb l = None"
      "map snd ns' = map snd (tl ns)" "only_moves ns ns' (st_store st) s" using e by simp_all
  have "part_of_call (tk_code (st_tasks st ! i))" using ok' i(1) by blast
  then have pc: "part_of_call [Unlock, Give_enqueue :: 'd instr]" unfolding i(2) by (rule part_of_call_rest)
  have len: "length ns = length ns' + 1" using arg_cong [OF a(4), of length] ns(1) by (cases ns) auto
  have lk: "fq_lock (st_queue st) = Some i" using ok' i by (auto simp: holds_def)
  have "card (dom (nodes s)) \<le> c0 + length ns'" using only_moves_card [OF _ a(5), of "fq_list (st_queue st)"] ok' by linarith
  then have "fq_ok c0 ns' \<lparr>st_queue = (st_queue st)\<lparr>fq_list := l\<rparr>, st_store = s, st_tasks = (st_tasks st)[i := (st_tasks st ! i)\<lparr>tk_code := [Unlock, Give_enqueue]\<rparr>], st_in = st_in st, st_out = st_out st @ [?d]\<rparr>"
    using ok' a len lk pc i
    by (intro fq_ok_update [OF ok i]) (auto simp: places hd [symmetric])
  then show ?thesis using a(1) ns(2) by blast
qed


text \<open>The other parts leave the list alone.\<close>

lemma other_part_ok:
  fixes st :: "('d, 'w) fq_state"
  assumes ok: "fq_ok c0 ns st" and i: "i < length (st_tasks st)" "tk_code (st_tasks st ! i) = ins # code" and w: "\<not> waits ins (st_queue st)" and o: "\<not> is_Put ins" "ins \<noteq> Take_out"
  shows "\<exists>t q. execute alloc i ins ((st_tasks st ! i)\<lparr>tk_code := code\<rparr>) (st_queue st) (st_store st) = Some (t, q, st_store st) \<and>
    fq_ok c0 ns \<lparr>st_queue = q, st_store = st_store st, st_tasks = (st_tasks st)[i := t], st_in = st_in st, st_out = st_out st\<rparr>"
proof -
  note ok' = ok [unfolded fq_ok_def Let_def]
  let ?q = "st_queue st" and ?ts = "st_tasks st"
  have pc: "part_of_call (ins # code)" using ok' i by (metis (no_types))
  have lk: "holds (ins # code) \<longleftrightarrow> fq_lock ?q = Some i" using ok' i by (metis (no_types))
  have on: "list_on (nodes (st_store st)) (fq_list ?q) ns" using ok' by blast
  have sems: "fq_enqueue_sem ?q + adding (ins # code) + length ns + taken (ins # code) \<le> fq_capacity ?q" "added (ins # code) + taking (ins # code) + fq_dequeue_sem ?q \<le> length ns"
    using ok' total_ge [OF i(1), of adding] total_ge [OF i(1), of taken] total_ge [OF i(1), of added] total_ge [OF i(1), of taking] unfolding i(2) by linarith+
  let ?t = "(st_tasks st ! i)\<lparr>tk_code := code\<rparr>"
  have step: ?thesis if "execute alloc i ins ?t ?q (st_store st) = Some (t, q, st_store st)" "fq_list q = fq_list ?q" "fq_capacity q = fq_capacity ?q" "part_of_call (tk_code t)"
      "fq_enqueue_sem q + adding (tk_code t) + taken (tk_code t) = fq_enqueue_sem ?q + adding (ins # code) + taken (ins # code)"
      "fq_dequeue_sem q + added (tk_code t) + taking (tk_code t) = fq_dequeue_sem ?q + added (ins # code) + taking (ins # code)"
      "holds (tk_code t) \<longleftrightarrow> fq_lock q = Some i" "fq_lock q = fq_lock ?q \<or> fq_lock ?q \<in> {None, Some i} \<and> fq_lock q \<in> {None, Some i}"
      "\<And>code. tk_code t = Take_out # code \<Longrightarrow> ns \<noteq> [] \<and> tk_ret t = Data (snd (hd ns))" for t q
    using that ok' by (intro exI [of _ t] exI [of _ q] conjI fq_ok_update [OF ok i]) auto
  have pc': "part_of_call code" by (rule part_of_call_rest [OF pc])
  note sets = places part_of_call_code(2) osi_sem_give_def
  show ?thesis
  proof (cases ins)
    case Take_enqueue
    then show ?thesis using pc pc' lk w by (intro step [of ?t "?q\<lparr>fq_enqueue_sem := fq_enqueue_sem ?q - 1\<rparr>"]) (auto simp: sets elim!: part_of_call_cases)
  next
    case Try_enqueue
    show ?thesis
    proof (cases "fq_enqueue_sem ?q = 0")
      case True
      then show ?thesis using Try_enqueue pc pc' lk by (intro step [of "?t\<lparr>tk_code := [], tk_ret := Flag False\<rparr>" ?q]) (auto simp: sets elim!: part_of_call_cases)
    next
      case False
      then show ?thesis using Try_enqueue pc pc' lk
        by (intro step [of "?t\<lparr>tk_ret := Flag True\<rparr>" "?q\<lparr>fq_enqueue_sem := fq_enqueue_sem ?q - 1\<rparr>"]) (auto simp: sets elim!: part_of_call_cases)
    qed
  next
    case Take_dequeue
    then show ?thesis using pc pc' lk w by (intro step [of ?t "?q\<lparr>fq_dequeue_sem := fq_dequeue_sem ?q - 1\<rparr>"]) (auto simp: sets elim!: part_of_call_cases)
  next
    case Give_enqueue
    then show ?thesis using pc pc' lk sems by (intro step [of ?t "?q\<lparr>fq_enqueue_sem := osi_sem_give (fq_capacity ?q) (fq_enqueue_sem ?q)\<rparr>"]) (auto simp: sets elim!: part_of_call_cases)
  next
    case Give_dequeue
    then show ?thesis using pc pc' lk sems by (intro step [of ?t "?q\<lparr>fq_dequeue_sem := osi_sem_give (fq_capacity ?q) (fq_dequeue_sem ?q)\<rparr>"]) (auto simp: sets elim!: part_of_call_cases)
  next
    case Lock
    then show ?thesis using pc pc' lk w by (intro step [of ?t "?q\<lparr>fq_lock := Some i\<rparr>"]) (auto simp: sets elim!: part_of_call_cases)
  next
    case Unlock
    then show ?thesis using pc pc' lk by (intro step [of ?t "?q\<lparr>fq_lock := None\<rparr>"]) (auto simp: sets elim!: part_of_call_cases)
  next
    case Front
    then have ne: "ns \<noteq> []" using pc sems(2) by (auto simp: places elim!: part_of_call_cases)
    then show ?thesis using Front pc pc' lk list_front_on [OF on] by (intro step [of "?t\<lparr>tk_ret := Data (snd (hd ns))\<rparr>" ?q]) (auto simp: sets elim!: part_of_call_cases)
  next
    case Read_empty
    then show ?thesis using pc pc' lk by (intro step [of "?t\<lparr>tk_ret := Flag (list_is_empty (fq_list ?q))\<rparr>" ?q]) (auto simp: sets elim!: part_of_call_cases)
  next
    case Read_length
    then show ?thesis using pc pc' lk by (intro step [of "?t\<lparr>tk_ret := Size (list_length (fq_list ?q))\<rparr>" ?q]) (auto simp: sets elim!: part_of_call_cases)
  next
    case Peek_first
    then show ?thesis using pc pc' lk list_front_on [OF on] list_on_empty [OF on]
      by (intro step [of "?t\<lparr>tk_ret := if ns = [] then Null else Data (snd (hd ns))\<rparr>" ?q]) (auto simp: sets elim!: part_of_call_cases)
  next
    case Peek_last
    then show ?thesis using pc pc' lk list_back_on [OF on] list_on_empty [OF on]
      by (intro step [of "?t\<lparr>tk_ret := if ns = [] then Null else Data (snd (last ns))\<rparr>" ?q]) (auto simp: sets elim!: part_of_call_cases)
  qed (use o in auto)
qed


lemma part_ok:
  assumes ok: "fq_ok c0 ns st" and i: "i < length (st_tasks st)" "tk_code (st_tasks st ! i) = ins # code" and w: "\<not> waits ins (st_queue st)"
    and room: "\<And>s. card (dom (nodes s)) < c0 + fq_capacity (st_queue st) \<Longrightarrow> alloc s \<noteq> None"
  shows "\<exists>t q s ns'. execute alloc i ins ((st_tasks st ! i)\<lparr>tk_code := code\<rparr>) (st_queue st) (st_store st) = Some (t, q, s) \<and> fq_ok c0 ns' \<lparr>st_queue = q, st_store = s,
    st_tasks = (st_tasks st)[i := t], st_in = st_in st @ put_data ins, st_out = st_out st @ taken_data ins (tk_ret (st_tasks st ! i))\<rparr>"
proof -
  have pc: "part_of_call (ins # code)" using ok i unfolding fq_ok_def Let_def by (metis (no_types))
  consider d where "ins = Put d" | "ins = Take_out" | "\<not> is_Put ins" "ins \<noteq> Take_out" by (cases ins) auto
  then show ?thesis
  proof cases
    case (1 d)
    then have "code = [Unlock, Give_dequeue]" using pc by (auto elim!: part_of_call_cases)
    then show ?thesis using put_ok [OF ok i(1) _ room, of d] i(2) 1 by fastforce
  next
    case 2
    then have "code = [Unlock, Give_enqueue]" using pc by (auto elim!: part_of_call_cases)
    then show ?thesis using take_out_ok [OF ok i(1)] i(2) 2 by fastforce
  next
    case 3
    then have "put_data ins = []" "taken_data ins (tk_ret (st_tasks st ! i)) = []" by (cases ins; simp)+
    then show ?thesis using other_part_ok [OF ok i w 3] by fastforce
  qed
qed

end

section \<open>All runs\<close>

lemma execute_capacity: "execute alloc i ins t q s = Some (t', q', s') \<Longrightarrow> fq_capacity q' = fq_capacity q"
  by (cases ins) (auto split: if_splits bind_splits retval.splits)

lemma call_ok:
  assumes ok: "fq_ok c0 ns st" and i: "i < length (st_tasks st)" "tk_code (st_tasks st ! i) = []"
  shows "fq_ok c0 ns (st\<lparr>st_tasks := (st_tasks st)[i := \<lparr>tk_code = code_of c, tk_ret = Void\<rparr>]\<rparr>)"
proof -
  note ok' = ok [unfolded fq_ok_def Let_def]
  have z: "adding (code_of c) = 0" "added (code_of c) = 0" "taking (code_of c) = 0" "taken (code_of c) = 0" "\<not> holds (code_of c)" "\<And>code. code_of c \<noteq> Take_out # code"
    by (cases c; simp add: places call_codes)+
  have "fq_ok c0 ns \<lparr>st_queue = st_queue st, st_store = st_store st, st_tasks = (st_tasks st)[i := \<lparr>tk_code = code_of c, tk_ret = Void\<rparr>], st_in = st_in st, st_out = st_out st\<rparr>"
  proof (rule fq_ok_update [OF ok i])
    have "\<not> holds (tk_code (st_tasks st ! i))" using i(2) by (simp add: holds_def)
    then show "holds (tk_code \<lparr>tk_code = code_of c, tk_ret = Void\<rparr>) \<longleftrightarrow> fq_lock (st_queue st) = Some i" using ok' i(1) z(5) by auto
  qed (use ok' z part_of_call_code(1) in \<open>auto simp: places\<close>)
  then show ?thesis by (simp add: fq_ok_def)
qed

lemma fq_start_ok:
  assumes "fixed_queue_new sem1 sem2 capacity alloc s = Some q"
  shows "fq_ok (card (dom (nodes s))) [] (fq_start n q s)" "fq_capacity q = capacity"
proof -
  obtain l where l: "list_new_internal None alloc s = Some l" "q = \<lparr>fq_list = l, fq_enqueue_sem = capacity, fq_dequeue_sem = 0, fq_lock = None, fq_capacity = capacity\<rparr>"
    using assms by (auto simp: fixed_queue_new_def split: option.splits bind_splits if_splits)
  have "total f (replicate n \<lparr>tk_code = [], tk_ret = Void\<rparr>) = n * f []" for f :: "'a instr list \<Rightarrow> nat" by (simp add: total_def map_replicate_const sum_list_replicate)
  then show "fq_ok (card (dom (nodes s))) [] (fq_start n q s)"
    using l part_of_call_code(2) by (auto simp: fq_ok_def fq_start_def Let_def places list_new_internal_def list_on_def split: option.splits)
  show "fq_capacity q = capacity" using l by simp
qed

context fresh_alloc
begin

lemma fq_reachable_ok:
  assumes "(fq_step alloc)\<^sup>*\<^sup>* (fq_start n q s0) st" and new: "fixed_queue_new sem1 sem2 capacity alloc s0 = Some q"
    and room: "\<And>s. card (dom (nodes s)) < card (dom (nodes s0)) + capacity \<Longrightarrow> alloc s \<noteq> None"
  shows "\<exists>ns. fq_ok (card (dom (nodes s0))) ns st \<and> length (st_tasks st) = n \<and> fq_capacity (st_queue st) = capacity"
  using assms(1)
proof induction
  case base
  then show ?case using fq_start_ok(1) [OF new, of n] fq_start_ok(2) [OF new] by (auto simp: fq_start_def)
next
  case (step st st')
  then obtain ns where ok: "fq_ok (card (dom (nodes s0))) ns st" "length (st_tasks st) = n" "fq_capacity (st_queue st) = capacity" by blast
  from step(2) show ?case
  proof cases
    case (call i c)
    then show ?thesis using call_ok [OF ok(1), of i c] ok(2,3) by auto
  next
    case (part i t ins code t' q s)
    have code: "tk_code (st_tasks st ! i) = ins # code" using part(3,4) by simp
    have rm: "\<And>s. card (dom (nodes s)) < card (dom (nodes s0)) + fq_capacity (st_queue st) \<Longrightarrow> alloc s \<noteq> None" using room ok(3) by simp
    from part_ok [OF ok(1) part(2) code part(5) rm] part(3,6)
    obtain ns' where "fq_ok (card (dom (nodes s0))) ns' st'" unfolding part(1) by auto
    then show ?thesis using part(1) ok(2,3) execute_capacity [OF part(6)] by auto
  qed
qed

end

text \<open>C15: the queue is first in, first out, under every interleaving of the tasks.  For a new queue, any number of tasks and any calls of them, an allocator that gives unused addresses and has room for
  as many nodes as the queue has capacity: at every moment the data that were put in are those that were taken out followed by the contents of the list, in order, which never exceed the capacity; at most
  one task is between locking and unlocking; and whatever part of an operation comes next, it waits or has a result, so that no task reads the front of an empty list.\<close>

theorem fixed_queue_fifo:
  assumes "fresh_alloc alloc" and "\<And>s. card (dom (nodes s)) < card (dom (nodes s0)) + capacity \<Longrightarrow> alloc s \<noteq> None"
    and "fixed_queue_new sem1 sem2 capacity alloc s0 = Some q" and "(fq_step alloc)\<^sup>*\<^sup>* (fq_start n q s0) st"
  shows "\<exists>ns. list_on (nodes (st_store st)) (fq_list (st_queue st)) ns \<and> st_in st = st_out st @ map snd ns \<and> length ns \<le> capacity \<and>
    (\<forall>i < n. \<forall>j < n. holds (tk_code (st_tasks st ! i)) \<and> holds (tk_code (st_tasks st ! j)) \<longrightarrow> i = j) \<and>
    (\<forall>i < n. \<forall>ins code. tk_code (st_tasks st ! i) = ins # code \<longrightarrow>
       waits ins (st_queue st) \<or> execute alloc i ins ((st_tasks st ! i)\<lparr>tk_code := code\<rparr>) (st_queue st) (st_store st) \<noteq> None)"
proof -
  obtain ns where ok: "fq_ok (card (dom (nodes s0))) ns st" "length (st_tasks st) = n" "fq_capacity (st_queue st) = capacity"
    using fresh_alloc.fq_reachable_ok [OF assms(1,4,3,2)] by blast
  have rm: "\<And>s. card (dom (nodes s)) < card (dom (nodes s0)) + fq_capacity (st_queue st) \<Longrightarrow> alloc s \<noteq> None" using assms(2) ok(3) by simp
  have "execute alloc i ins ((st_tasks st ! i)\<lparr>tk_code := code\<rparr>) (st_queue st) (st_store st) \<noteq> None"
    if "i < n" "tk_code (st_tasks st ! i) = ins # code" "\<not> waits ins (st_queue st)" for i ins code
    using fresh_alloc.part_ok [OF assms(1) ok(1) _ that(2,3) rm] that(1) ok(2) by auto
  moreover have "i = j" if "i < n" "j < n" "holds (tk_code (st_tasks st ! i))" "holds (tk_code (st_tasks st ! j))" for i j
    using that ok(1,2) unfolding fq_ok_def Let_def by (metis option.inject)
  moreover have "length ns \<le> capacity" using ok(1,3) unfolding fq_ok_def Let_def by linarith
  ultimately show ?thesis using ok(1) unfolding fq_ok_def Let_def by (intro exI [of _ ns]) blast
qed

text \<open>The steps as a function: task \<open>i\<close> begins a call or goes on with its next part.\<close>

fun do_step :: "('d, 'w) allocator \<Rightarrow> nat \<times> 'd fq_call option \<Rightarrow> ('d, 'w) fq_state \<Rightarrow> ('d, 'w) fq_state option" where
  "do_step alloc (i, Some c) st = (if i < length (st_tasks st) \<and> tk_code (st_tasks st ! i) = [] then Some (st\<lparr>st_tasks := (st_tasks st)[i := \<lparr>tk_code = code_of c, tk_ret = Void\<rparr>]\<rparr>) else None)"
| "do_step alloc (i, None) st = (if i < length (st_tasks st) then (case tk_code (st_tasks st ! i) of [] \<Rightarrow> None
     | ins # code \<Rightarrow> if waits ins (st_queue st) then None
         else map_option (\<lambda>(t, q, s). \<lparr>st_queue = q, st_store = s, st_tasks = (st_tasks st)[i := t], st_in = st_in st @ put_data ins, st_out = st_out st @ taken_data ins (tk_ret (st_tasks st ! i))\<rparr>)
           (execute alloc i ins ((st_tasks st ! i)\<lparr>tk_code := code\<rparr>) (st_queue st) (st_store st))) else None)"

fun do_steps :: "('d, 'w) allocator \<Rightarrow> (nat \<times> 'd fq_call option) list \<Rightarrow> ('d, 'w) fq_state \<Rightarrow> ('d, 'w) fq_state option" where
  "do_steps alloc [] st = Some st"
| "do_steps alloc (x # xs) st = do { st \<leftarrow> do_step alloc x st; do_steps alloc xs st }"

lemma do_step_sound: "do_step alloc x st = Some st' \<Longrightarrow> fq_step alloc st st'"
  by (induction alloc x st rule: do_step.induct) (auto split: if_splits list.splits intro: fq_step.intros)

lemma do_steps_sound: "do_steps alloc xs st = Some st' \<Longrightarrow> (fq_step alloc)\<^sup>*\<^sup>* st st'"
  by (induction xs arbitrary: st) (auto split: bind_splits dest: do_step_sound intro: converse_rtranclp_into_rtranclp)

lemma first_fit_room: "card (dom (nodes s)) < card (set arena - {0}) \<Longrightarrow> first_fit arena s \<noteq> None"
proof
  assume u: "card (dom (nodes s)) < card (set arena - {0})" and "first_fit arena s = None"
  then have "set arena - {0} \<subseteq> dom (nodes s)" by (auto simp: first_fit_def find_None_iff)
  then have "card (set arena - {0}) \<le> card (dom (nodes s))" by (rule card_mono [rotated]) simp
  then show False using u by simp
qed

definition fq_queue0 :: "(nat, unit) fixed_queue_t" where
  "fq_queue0 = \<lparr>fq_list = empty_list, fq_enqueue_sem = 1, fq_dequeue_sem = 0, fq_lock = None, fq_capacity = 1\<rparr>"

lemma fq_queue0_new: "fixed_queue_new True True 1 (first_fit [4]) empty_store = Some fq_queue0"
  by (simp add: fixed_queue_new_def list_new_internal_def first_fit_def empty_store_def fq_queue0_def empty_list_def)

lemma fq_queue0_room: "card (dom (nodes s)) < card (dom (nodes empty_store)) + 1 \<Longrightarrow> first_fit [4] s \<noteq> None"
  by (rule first_fit_room) (simp add: empty_store_def)

text \<open>Two tasks: one puts in 7 and is about to unlock, the other waits for the semaphore.\<close>

theorem fixed_queue_fifo_witness:
  "\<exists>st ns. (fq_step (first_fit [4]))\<^sup>*\<^sup>* (fq_start 2 fq_queue0 empty_store) st \<and> st_in st = [7] \<and> tk_code (st_tasks st ! 1) = fixed_queue_dequeue \<and>
     list_on (nodes (st_store st)) (fq_list (st_queue st)) ns \<and> st_in st = st_out st @ map snd ns \<and> length ns \<le> 1"
proof -
  let ?al = "first_fit [4] :: (nat, unit) allocator" and ?xs = "[(1, Some Dequeue), (0, Some (Enqueue 7)), (0, None), (0, None), (0, None)] :: (nat \<times> nat fq_call option) list"
  have "\<exists>st. do_steps ?al ?xs (fq_start 2 fq_queue0 empty_store) = Some st \<and> st_in st = [7] \<and> tk_code (st_tasks st ! 1) = fixed_queue_dequeue"
    by (simp add: fq_start_def call_codes numeral_2_eq_2 list_append_def list_defs fq_queue0_def empty_list_def empty_store_def first_fit_def)
  then obtain st where st: "do_steps ?al ?xs (fq_start 2 fq_queue0 empty_store) = Some st" "st_in st = [7]" "tk_code (st_tasks st ! 1) = fixed_queue_dequeue" by blast
  have "\<exists>ns. list_on (nodes (st_store st)) (fq_list (st_queue st)) ns \<and> st_in st = st_out st @ map snd ns \<and> length ns \<le> 1"
    using fixed_queue_fifo [OF arena.fresh_alloc_axioms fq_queue0_room fq_queue0_new do_steps_sound [OF st(1)]] by blast
  then show ?thesis using st(2,3) do_steps_sound [OF st(1)] by blast
qed

text \<open>C16: no deadlock.  At every moment of every run of tasks on a queue that can hold something, some task can go on with its call, or no task is in a call, or every task that is in a call waits to put
  something into the queue, which is full, or every one waits to take something out, and the queue is empty.\<close>

theorem fixed_queue_progress:
  assumes "fresh_alloc alloc" and "\<And>s. card (dom (nodes s)) < card (dom (nodes s0)) + capacity \<Longrightarrow> alloc s \<noteq> None"
    and "fixed_queue_new sem1 sem2 capacity alloc s0 = Some q" and "(fq_step alloc)\<^sup>*\<^sup>* (fq_start n q s0) st" and "0 < capacity"
  shows "(\<exists>i < n. \<exists>st'. do_step alloc (i, None) st = Some st') \<or>
    (\<forall>i < n. tk_code (st_tasks st ! i) = [] \<or> hd (tk_code (st_tasks st ! i)) = Take_enqueue) \<and> unat (list_length (fq_list (st_queue st))) = capacity \<or>
    (\<forall>i < n. tk_code (st_tasks st ! i) = [] \<or> hd (tk_code (st_tasks st ! i)) = Take_dequeue) \<and> list_is_empty (fq_list (st_queue st)) \<or>
    (\<forall>i < n. tk_code (st_tasks st ! i) = [])"
proof (cases "\<exists>i < n. \<exists>st'. do_step alloc (i, None) st = Some st'")
  case False
  let ?c = "\<lambda>i. tk_code (st_tasks st ! i)" and ?q = "st_queue st"
  obtain ns where ok: "fq_ok (card (dom (nodes s0))) ns st" "length (st_tasks st) = n" "fq_capacity ?q = capacity"
    using fresh_alloc.fq_reachable_ok [OF assms(1,4,3,2)] by blast
  note ok' = ok(1) [unfolded fq_ok_def Let_def ok(2)]
  have rm: "\<And>s. card (dom (nodes s)) < card (dom (nodes s0)) + fq_capacity ?q \<Longrightarrow> alloc s \<noteq> None" using assms(2) ok(3) by simp
  have stuck: "waits ins ?q" if "i < n" "?c i = ins # code" for i ins code
  proof (rule ccontr)
    assume w: "\<not> waits ins ?q"
    from fresh_alloc.part_ok [OF assms(1) ok(1) _ that(2) w rm] that ok(2) w have "\<exists>st'. do_step alloc (i, None) st = Some st'" by auto
    then show False using False that(1) by blast
  qed
  have pc: "part_of_call (?c i)" "holds (?c i) \<longleftrightarrow> fq_lock ?q = Some i" if "i < n" for i using ok' that by blast+
  have unlocked: "fq_lock ?q = None"
  proof (rule ccontr)
    assume "fq_lock ?q \<noteq> None"
    then obtain i where i: "fq_lock ?q = Some i" "i < n" using ok' by blast
    then have h: "holds (?c i)" using pc(2) by blast
    then obtain ins code where c: "?c i = ins # code" by (cases "?c i") (auto simp: holds_def)
    then show False using stuck [OF i(2) c] pc(1) [OF i(2)] h by (auto simp: holds_def elim!: part_of_call_cases)
  qed
  have at: "?c i = [] \<or> hd (?c i) = Take_enqueue \<and> fq_enqueue_sem ?q = 0 \<or> hd (?c i) = Take_dequeue \<and> fq_dequeue_sem ?q = 0" if "i < n" for i
  proof (cases "?c i")
    case (Cons ins code)
    then show ?thesis using stuck [OF that Cons] unlocked by (cases ins) auto
  qed simp
  have zero: "adding (?c i) = 0 \<and> added (?c i) = 0 \<and> taking (?c i) = 0 \<and> taken (?c i) = 0" if "i < n" for i
    using at [OF that] pc(1) [OF that] by (cases "?c i") (auto simp: places elim!: part_of_call_cases)
  have "total adding (st_tasks st) = 0" "total added (st_tasks st) = 0" "total taking (st_tasks st) = 0" "total taken (st_tasks st) = 0"
    using zero ok(2) by (auto simp: total_def in_set_conv_nth)
  then have sems: "fq_enqueue_sem ?q + length ns = capacity" "fq_dequeue_sem ?q = length ns" using ok' ok(3) by simp_all
  have len: "unat (list_length (fq_list ?q)) = length ns" "list_is_empty (fq_list ?q) \<longleftrightarrow> ns = []" using ok' list_length_on list_on_empty by blast+
  show ?thesis
  proof (cases "fq_enqueue_sem ?q = 0")
    case True
    then have "fq_dequeue_sem ?q \<noteq> 0" using sems assms(5) by simp
    then show ?thesis using at len(1) sems True by auto
  next
    case False
    show ?thesis
    proof (cases "fq_dequeue_sem ?q = 0")
      case True
      then show ?thesis using at len(2) sems(2) False by auto
    qed (use at False in auto)
  qed
qed simp

theorem fixed_queue_progress_witness:
  "\<exists>st. (fq_step (first_fit [4]))\<^sup>*\<^sup>* (fq_start 2 fq_queue0 empty_store) st \<and> tk_code (st_tasks st ! 1) = fixed_queue_dequeue \<and>
     (\<exists>i < 2. \<exists>st'. do_step (first_fit [4]) (i, None) st = Some st')"
proof -
  let ?al = "first_fit [4] :: (nat, unit) allocator" and ?xs = "[(1, Some Dequeue), (0, Some (Enqueue 7)), (0, None), (0, None), (0, None)] :: (nat \<times> nat fq_call option) list"
  have "\<exists>st. do_steps ?al ?xs (fq_start 2 fq_queue0 empty_store) = Some st \<and> tk_code (st_tasks st ! 0) = [Unlock, Give_dequeue] \<and> tk_code (st_tasks st ! 1) = fixed_queue_dequeue"
    by (simp add: fq_start_def call_codes numeral_2_eq_2 list_append_def list_defs fq_queue0_def empty_list_def empty_store_def first_fit_def)
  then obtain st where st: "do_steps ?al ?xs (fq_start 2 fq_queue0 empty_store) = Some st" "tk_code (st_tasks st ! 0) = [Unlock, Give_dequeue]" "tk_code (st_tasks st ! 1) = fixed_queue_dequeue" by blast
  have busy: "tk_code (st_tasks st ! 0) \<noteq> []" "hd (tk_code (st_tasks st ! 0)) \<noteq> Take_enqueue" "hd (tk_code (st_tasks st ! 0)) \<noteq> Take_dequeue" and two: "(0 :: nat) < 2" by (simp_all add: st(2))
  have "\<exists>i < 2. \<exists>st'. do_step ?al (i, None) st = Some st'"
    using fixed_queue_progress [OF arena.fresh_alloc_axioms fq_queue0_room fq_queue0_new do_steps_sound [OF st(1)] zero_less_one] busy two by blast
  then show ?thesis using st(3) do_steps_sound [OF st(1)] by blast
qed

end
