(* ===== verification/HciCommands.thy ===== *)
theory HciCommands
  imports HciFragmenter FixedQueue "HOL-Library.Sublist"
begin

text \<open>
  \<^verbatim>\<open>components/bt/bluedroid/hci/hci_layer.c\<close> and \<^verbatim>\<open>osi/future.c\<close>: commands to the controller and the events that answer them.  A command waits in a queue until the controller has a credit for it, is sent by
  the task of the host, and stays in the list of commands pending response until an event with its opcode arrives.

  The state of the layer is the world of the fragmenter: every operation works on a fragmenter whose world is the record \<open>henv\<close>.  The two queues and the list are sequences, which the theories \<open>FixedQueue\<close>
  and \<open>OsiList\<close> justify, and each handler is one step.  Callbacks are numbers, which the parameters \<open>complete\<close> and \<open>status\<close> interpret on the whole state, so that a callback may send further commands; futures are
  numbers, too, with \<open>fut\<close> for a new one.  \<open>he_posts\<close> counts the messages to the task, \<open>he_alarm\<close> says whether the alarm is set; when it goes off, \<open>command_timed_out\<close> only prints.
\<close>

section \<open>State\<close>

record future_t =
  fu_ready_can_be_called :: bool
  fu_semaphore :: nat
  fu_result :: ptr

record waiting_command_t =
  wc_opcode :: "16 word"
  wc_complete_future :: "nat option"
  wc_complete_callback :: "nat option"
  wc_status_callback :: "nat option"
  wc_context :: ptr
  wc_command :: ptr

record 'w henv =
  he_command_credits :: int
  he_command_queue :: "waiting_command_t list"
  he_packet_queue :: "ptr list"
  he_timer_is_set :: bool
  he_alarm :: bool
  he_pending :: "waiting_command_t list"
  he_started :: bool
  he_posts :: nat
  he_futures :: "nat \<rightharpoonup> future_t"
  he_wire :: 'w

type_synonym 'w host = "'w henv fragmenter"

definition env_of :: "'w host \<Rightarrow> 'w henv" where "env_of fr = hci_world (mem_of fr)"

definition set_env :: "'w henv \<Rightarrow> 'w host \<Rightarrow> 'w host" where
  "set_env h fr = with_mem ((mem_of fr)\<lparr>hci_world := h\<rparr>) fr"

text \<open>\<open>hci_layer_init_env\<close>, when its queues, list and alarm can be created.\<close>

definition hci_layer_init_env :: "'w henv \<Rightarrow> 'w henv" where
  "hci_layer_init_env h = h\<lparr>he_command_credits := 1, he_command_queue := [], he_packet_queue := [], he_timer_is_set := False, he_pending := [], he_alarm := False\<rparr>"

definition hci_host_task_post :: "'w host \<Rightarrow> bool \<times> 'w host" where
  "hci_host_task_post fr = (if \<not> he_started (env_of fr) then (False, fr) else (True, set_env ((env_of fr)\<lparr>he_posts := he_posts (env_of fr) + 1\<rparr>) fr))"

section \<open>Sending\<close>

definition enqueue_command :: "waiting_command_t \<Rightarrow> 'w host \<Rightarrow> 'w host" where
  "enqueue_command wait_entry fr = snd (hci_host_task_post (set_env ((env_of fr)\<lparr>he_command_queue := he_command_queue (env_of fr) @ [wait_entry]\<rparr>) fr))"

text \<open>\<open>memory\<close> says whether the entry can be allocated.\<close>

definition transmit_command :: "bool \<Rightarrow> ptr \<Rightarrow> nat option \<Rightarrow> nat option \<Rightarrow> ptr \<Rightarrow> 'w host \<Rightarrow> 'w host option" where
  "transmit_command memory command complete_callback status_callback context fr = (if \<not> memory then Some fr
     else do {
       packet \<leftarrow> packet_at (mem_of fr) command;
       opcode \<leftarrow> STREAM_TO_UINT16 (hd_data packet) (unat (hd_offset packet));
       fr \<leftarrow> call (\<lambda>u. Some (put_packet command (packet\<lparr>hd_event := 0x2000\<rparr>) u)) fr;
       Some (enqueue_command \<lparr>wc_opcode = opcode, wc_complete_future = None, wc_complete_callback = complete_callback, wc_status_callback = status_callback,
         wc_context = context, wc_command = command\<rparr> fr) })"

definition future_new :: "nat \<Rightarrow> 'w host \<Rightarrow> 'w host" where
  "future_new fut fr = set_env ((env_of fr)\<lparr>he_futures := (he_futures (env_of fr))(fut \<mapsto> \<lparr>fu_ready_can_be_called = True, fu_semaphore = 0, fu_result = 0\<rparr>)\<rparr>) fr"

definition transmit_command_futured :: "nat \<Rightarrow> ptr \<Rightarrow> 'w host \<Rightarrow> (nat \<times> 'w host) option" where
  "transmit_command_futured fut command fr = do {
     let fr = future_new fut fr;
     packet \<leftarrow> packet_at (mem_of fr) command;
     opcode \<leftarrow> STREAM_TO_UINT16 (hd_data packet) (unat (hd_offset packet));
     fr \<leftarrow> call (\<lambda>u. Some (put_packet command (packet\<lparr>hd_event := 0x2000\<rparr>) u)) fr;
     Some (fut, enqueue_command \<lparr>wc_opcode = opcode, wc_complete_future = Some fut, wc_complete_callback = None, wc_status_callback = None, wc_context = 0, wc_command = command\<rparr> fr) }"

definition transmit_downward :: "bool \<Rightarrow> 16 word \<Rightarrow> ptr \<Rightarrow> 'w host \<Rightarrow> 'w host option" where
  "transmit_downward memory type data fr = do {
     fr \<leftarrow> (if type = 0x2000 then transmit_command memory data None None 0 fr
           else Some (set_env ((env_of fr)\<lparr>he_packet_queue := he_packet_queue (env_of fr) @ [data]\<rparr>) fr));
     Some (snd (hci_host_task_post fr)) }"

definition restart_command_waiting_response_timer :: "'w host \<Rightarrow> 'w host" where
  "restart_command_waiting_response_timer fr = (let h = env_of fr;
     h = (if he_timer_is_set h then h\<lparr>he_alarm := False, he_timer_is_set := False\<rparr> else h);
     h = (if he_pending h \<noteq> [] then h\<lparr>he_alarm := True, he_timer_is_set := True\<rparr> else h)
     in set_env h fr)"

type_synonym 'w hci_callbacks = "'w henv packet_fragmenter_callbacks_t"

text \<open>Taking from an empty queue would wait; \<open>hci_host_thread_handler\<close> does not let it happen.\<close>

definition event_command_ready :: "'w hci_callbacks \<Rightarrow> 16 word \<Rightarrow> 16 word \<Rightarrow> 'w host \<Rightarrow> 'w host option" where
  "event_command_ready cb classic ble fr = (case he_command_queue (env_of fr) of [] \<Rightarrow> None
     | wait_entry # queue \<Rightarrow> do {
         let fr = set_env ((env_of fr)\<lparr>he_command_queue := queue, he_command_credits := he_command_credits (env_of fr) - 1, he_pending := he_pending (env_of fr) @ [wait_entry]\<rparr>) fr;
         fr \<leftarrow> fragment_and_dispatch cb classic ble (wc_command wait_entry) fr;
         Some (restart_command_waiting_response_timer fr) })"

definition event_packet_ready :: "'w hci_callbacks \<Rightarrow> 16 word \<Rightarrow> 16 word \<Rightarrow> 'w host \<Rightarrow> 'w host option" where
  "event_packet_ready cb classic ble fr = (case he_packet_queue (env_of fr) of [] \<Rightarrow> None
     | packet # queue \<Rightarrow> fragment_and_dispatch cb classic ble packet (set_env ((env_of fr)\<lparr>he_packet_queue := queue\<rparr>) fr))"

text \<open>One message to the task; \<open>available\<close> is the answer of \<open>esp_vhci_host_check_send_available\<close>.  Without a message the task waits.\<close>

definition hci_host_thread_handler :: "'w hci_callbacks \<Rightarrow> 16 word \<Rightarrow> 16 word \<Rightarrow> bool \<Rightarrow> 'w host \<Rightarrow> 'w host option" where
  "hci_host_thread_handler cb classic ble available fr = (if he_posts (env_of fr) = 0 then Some fr
     else let fr = set_env ((env_of fr)\<lparr>he_posts := he_posts (env_of fr) - 1\<rparr>) fr in
       if \<not> available then Some fr
       else if fr_current_fragment_packet fr \<noteq> 0 then fragment_and_dispatch cb classic ble (fr_current_fragment_packet fr) fr
       else if he_command_queue (env_of fr) \<noteq> [] \<and> he_command_credits (env_of fr) > 0 then event_command_ready cb classic ble fr
       else if he_packet_queue (env_of fr) \<noteq> [] then event_packet_ready cb classic ble fr
       else Some fr)"

section \<open>Answers\<close>

fun get_waiting :: "16 word \<Rightarrow> waiting_command_t list \<Rightarrow> waiting_command_t option \<times> waiting_command_t list" where
  "get_waiting opcode [] = (None, [])"
| "get_waiting opcode (x # xs) = (if wc_opcode x \<noteq> opcode then let (r, ys) = get_waiting opcode xs in (r, x # ys) else (Some x, xs))"

definition get_waiting_command :: "16 word \<Rightarrow> 'w host \<Rightarrow> waiting_command_t option \<times> 'w host" where
  "get_waiting_command opcode fr = (let (r, xs) = get_waiting opcode (he_pending (env_of fr)) in (r, set_env ((env_of fr)\<lparr>he_pending := xs\<rparr>) fr))"

definition future_ready :: "nat \<Rightarrow> ptr \<Rightarrow> 'w host \<Rightarrow> 'w host option" where
  "future_ready fut value fr = map_option (\<lambda>f. set_env ((env_of fr)\<lparr>he_futures :=
     (he_futures (env_of fr))(fut \<mapsto> \<lparr>fu_ready_can_be_called = False, fu_semaphore = osi_sem_give 1 (fu_semaphore f), fu_result = value\<rparr>)\<rparr>) fr) (he_futures (env_of fr) fut)"

text \<open>\<open>future_await\<close> of a future that has a semaphore: it waits (no result here) until that was given, frees the future and gives its result.\<close>

definition future_await :: "nat \<Rightarrow> 'w host \<Rightarrow> (ptr \<times> 'w host) option" where
  "future_await fut fr = do {
     f \<leftarrow> he_futures (env_of fr) fut;
     if fu_semaphore f = 0 then None else Some (fu_result f, set_env ((env_of fr)\<lparr>he_futures := (he_futures (env_of fr))(fut := None)\<rparr>) fr) }"

type_synonym 'w complete_cb = "nat \<Rightarrow> ptr \<Rightarrow> ptr \<Rightarrow> 'w host \<Rightarrow> 'w host option"
type_synonym 'w status_cb = "nat \<Rightarrow> byte \<Rightarrow> ptr \<Rightarrow> ptr \<Rightarrow> 'w host \<Rightarrow> 'w host option"

text \<open>What follows the label \<open>intercepted\<close>.\<close>

definition intercepted :: "byte \<Rightarrow> ptr \<Rightarrow> waiting_command_t option \<Rightarrow> 'w host \<Rightarrow> 'w host option" where
  "intercepted event_code p wait_entry fr = do {
     let fr = restart_command_waiting_response_timer fr;
     let fr = (if he_command_credits (env_of fr) \<noteq> 0 \<and> he_command_queue (env_of fr) \<noteq> [] then snd (hci_host_task_post fr) else fr);
     case wait_entry of None \<Rightarrow> call (free_packet p) fr
     | Some w \<Rightarrow> do {
         fr \<leftarrow> (if event_code = 0x0F \<or> wc_complete_callback w = None \<and> wc_complete_future w = None then call (free_packet p) fr else Some fr);
         if event_code = 0x0E \<or> wc_status_callback w = None then call (free_packet (wc_command w)) fr else Some fr } }"

definition command_complete :: "'w complete_cb \<Rightarrow> ptr \<Rightarrow> waiting_command_t option \<Rightarrow> 'w host \<Rightarrow> 'w host option" where
  "command_complete complete p wait_entry fr = (case wait_entry of None \<Rightarrow> Some fr
     | Some w \<Rightarrow> (case wc_complete_callback w of Some k \<Rightarrow> complete k p (wc_context w) fr
         | None \<Rightarrow> (case wc_complete_future w of Some fut \<Rightarrow> future_ready fut p fr | None \<Rightarrow> Some fr)))"

definition command_status :: "'w status_cb \<Rightarrow> byte \<Rightarrow> waiting_command_t option \<Rightarrow> 'w host \<Rightarrow> 'w host option" where
  "command_status status st wait_entry fr = (case wait_entry of None \<Rightarrow> Some fr
     | Some w \<Rightarrow> (case wc_status_callback w of Some k \<Rightarrow> status k st (wc_command w) (wc_context w) fr | None \<Rightarrow> Some fr))"

definition filter_incoming_event :: "'w complete_cb \<Rightarrow> 'w status_cb \<Rightarrow> ptr \<Rightarrow> 'w host \<Rightarrow> (bool \<times> 'w host) option" where
  "filter_incoming_event complete status p fr = do {
     packet \<leftarrow> packet_at (mem_of fr) p;
     let stream = unat (hd_offset packet);
     event_code \<leftarrow> rd (hd_data packet) stream;
     if event_code = 0x0E then do {
       credits \<leftarrow> rd (hd_data packet) (stream + 2);
       let fr = set_env ((env_of fr)\<lparr>he_command_credits := uint credits\<rparr>) fr;
       opcode \<leftarrow> STREAM_TO_UINT16 (hd_data packet) (stream + 3);
       let (wait_entry, fr) = get_waiting_command opcode fr;
       fr \<leftarrow> command_complete complete p wait_entry fr;
       fr \<leftarrow> intercepted event_code p wait_entry fr;
       Some (True, fr) }
     else if event_code = 0x0F then do {
       st \<leftarrow> rd (hd_data packet) (stream + 2);
       credits \<leftarrow> rd (hd_data packet) (stream + 3);
       let fr = set_env ((env_of fr)\<lparr>he_command_credits := uint credits\<rparr>) fr;
       opcode \<leftarrow> STREAM_TO_UINT16 (hd_data packet) (stream + 4);
       let (wait_entry, fr) = get_waiting_command opcode fr;
       fr \<leftarrow> command_status status st wait_entry fr;
       fr \<leftarrow> intercepted event_code p wait_entry fr;
       Some (True, fr) }
     else Some (False, fr) }"

section \<open>Access to the state\<close>

lemma env_simps [simp]:
  "env_of (set_env h fr) = h" "env_of (with_mem u fr) = hci_world u" "mem_of (set_env h fr) = (mem_of fr)\<lparr>hci_world := h\<rparr>" "set_env h (set_env h' fr) = set_env h fr"
  "fr_current_fragment_packet (set_env h fr) = fr_current_fragment_packet fr" "env_of (fr\<lparr>fr_current_fragment_packet := c\<rparr>) = env_of fr"
  by (simp_all add: env_of_def set_env_def)

lemma call_env: "call f fr = Some fr' \<Longrightarrow> \<exists>u. f (mem_of fr) = Some u \<and> env_of fr' = hci_world u \<and> mem_of fr' = u"
  by (auto simp: call_def)

section \<open>Flow control\<close>

text \<open>The commands as an abstract machine: they are submitted, sent when there is a credit, and answered.\<close>

record flow =
  fl_credits :: int
  fl_queue :: "waiting_command_t list"
  fl_pending :: "waiting_command_t list"
  fl_timer :: bool

definition flow_of :: "'w henv \<Rightarrow> flow" where
  "flow_of h = \<lparr>fl_credits = he_command_credits h, fl_queue = he_command_queue h, fl_pending = he_pending h, fl_timer = he_timer_is_set h\<rparr>"

text \<open>\<open>flow_run f sub sent f'\<close>: from \<open>f\<close> to \<open>f'\<close>, with the commands that were submitted and those that were sent, in order.\<close>

inductive flow_run :: "flow \<Rightarrow> waiting_command_t list \<Rightarrow> waiting_command_t list \<Rightarrow> flow \<Rightarrow> bool" where
  start: "flow_run f [] [] f"
| submit: "flow_run f sub sent g \<Longrightarrow> flow_run f (sub @ [w]) sent (g\<lparr>fl_queue := fl_queue g @ [w]\<rparr>)"
| send: "flow_run f sub sent g \<Longrightarrow> fl_queue g = w # q \<Longrightarrow> 0 < fl_credits g \<Longrightarrow>
    flow_run f sub (sent @ [w]) (g\<lparr>fl_queue := q, fl_credits := fl_credits g - 1, fl_pending := fl_pending g @ [w], fl_timer := True\<rparr>)"
| answer: "flow_run f sub sent g \<Longrightarrow> 0 \<le> c \<Longrightarrow> snd (get_waiting opcode (fl_pending g)) = ws \<Longrightarrow>
    flow_run f sub sent (g\<lparr>fl_credits := c, fl_pending := ws, fl_timer := ws \<noteq> []\<rparr>)"

lemma flow_run_trans:
  assumes "flow_run g sub' sent' h" "flow_run f sub sent g"
  shows "flow_run f (sub @ sub') (sent @ sent') h"
  using assms
proof induction
  case (submit g sub' sent' h w)
  then show ?case using flow_run.submit [OF submit.IH, of w] by simp
next
  case (send g sub' sent' h w q)
  then show ?case using flow_run.send [OF send.IH] by simp
qed (simp_all add: flow_run.answer)

lemma get_waiting_subseq: "subseq (snd (get_waiting opcode ws)) ws"
  by (induction ws) (auto split: prod.splits intro: subseq_Cons')

definition flow_ok :: "flow \<Rightarrow> bool" where
  "flow_ok f \<longleftrightarrow> 0 \<le> fl_credits f \<and> (fl_timer f \<longleftrightarrow> fl_pending f \<noteq> [])"

lemma flow_run_ok:
  assumes "flow_run f sub sent g" and "flow_ok f"
  shows "flow_ok g \<and> fl_queue f @ sub = sent @ fl_queue g \<and> subseq (fl_pending g) (fl_pending f @ sent)"
  using assms
proof induction
  case (answer f sub sent g c opcode ws)
  then show ?case using get_waiting_subseq [of opcode "fl_pending g"] by (auto simp: flow_ok_def intro: subseq_order.trans)
next
  case (send f sub sent g w q)
  then show ?case by (auto simp: flow_ok_def intro!: list_emb_append_mono simp flip: append_assoc)
qed (auto simp: flow_ok_def simp flip: append_assoc)

text \<open>What the layer sends goes on the wire; nothing else of the state changes.\<close>

definition wire :: "(byte list \<Rightarrow> 'w \<Rightarrow> 'w) \<Rightarrow> byte list \<Rightarrow> 'w henv \<Rightarrow> 'w henv" where
  "wire send xs h = h\<lparr>he_wire := send xs (he_wire h)\<rparr>"

definition hci_callbacks :: "(byte list \<Rightarrow> 'w \<Rightarrow> 'w) \<Rightarrow> (ptr \<Rightarrow> 'w henv hci_mem \<Rightarrow> bool \<times> 'w henv hci_mem) \<Rightarrow> 'w hci_callbacks" where
  "hci_callbacks send post = packet_fragmenter_callbacks (wire send) post"

definition flow :: "'w host \<Rightarrow> flow" where "flow fr = flow_of (env_of fr)"

definition mem_flow :: "'w henv hci_mem \<Rightarrow> flow" where "mem_flow u = flow_of (hci_world u)"

lemma flow_simps [simp]:
  "flow (with_mem u fr) = mem_flow u" "mem_flow (mem_of fr) = flow fr" "flow (fr\<lparr>fr_current_fragment_packet := c\<rparr>) = flow fr" "flow (set_env h fr) = flow_of h"
  by (simp_all add: flow_def mem_flow_def env_of_def [of fr])

lemma call_flow: "call f fr = Some fr' \<Longrightarrow> (\<And>u u'. f u = Some u' \<Longrightarrow> mem_flow u' = mem_flow u) \<Longrightarrow> flow fr' = flow fr"
  by (auto simp: call_def)

lemma mem_flow_packets [simp]: "mem_flow (put_packet p x u) = mem_flow u" "free_packet p u = Some u' \<Longrightarrow> mem_flow u' = mem_flow u"
  by (auto simp: mem_flow_def free_packet_def split: if_splits)

text \<open>The contract of the users of the layer: a callback may submit more commands but does not touch the others, and the task above is not concerned with them.\<close>

locale hci_users =
  fixes complete :: "'w complete_cb" and status :: "'w status_cb" and post :: "ptr \<Rightarrow> 'w henv hci_mem \<Rightarrow> bool \<times> 'w henv hci_mem"
  assumes complete_submits: "complete k p context fr = Some fr' \<Longrightarrow> \<exists>ws. flow fr' = (flow fr)\<lparr>fl_queue := fl_queue (flow fr) @ ws\<rparr>"
    and status_submits: "status k st p context fr = Some fr' \<Longrightarrow> \<exists>ws. flow fr' = (flow fr)\<lparr>fl_queue := fl_queue (flow fr) @ ws\<rparr>"
    and post_keeps: "mem_flow (snd (post p u)) = mem_flow u"
begin

lemma dispatch_flow: "dispatch_reassembled post p u = Some u' \<Longrightarrow> mem_flow u' = mem_flow u"
  using post_keeps [of p u] by (auto simp: dispatch_reassembled_def split: prod.splits if_splits)

lemma callbacks_flow:
  "cb_fragmented (hci_callbacks send post) p b u = Some u' \<Longrightarrow> mem_flow u' = mem_flow u"
  "cb_reassembled (hci_callbacks send post) p u = Some u' \<Longrightarrow> mem_flow u' = mem_flow u"
  "cb_transmit_finished (hci_callbacks send post) p b u = Some u' \<Longrightarrow> mem_flow u' = mem_flow u"
proof -
  show "mem_flow u' = mem_flow u" if "cb_reassembled (hci_callbacks send post) p u = Some u'"
    using that dispatch_flow by (simp add: hci_callbacks_def packet_fragmenter_callbacks_def)
  show "mem_flow u' = mem_flow u" if "cb_transmit_finished (hci_callbacks send post) p b u = Some u'"
    using that dispatch_flow by (auto simp: hci_callbacks_def packet_fragmenter_callbacks_def fragmenter_transmit_finished_def split: if_splits)
  have w: "mem_flow (u\<lparr>hci_world := transmit_data (wire send) type xs (hci_world u)\<rparr>) = mem_flow u" for type xs
    by (simp add: mem_flow_def transmit_data_def wire_def flow_of_def)
  show "mem_flow u' = mem_flow u" if "cb_fragmented (hci_callbacks send post) p b u = Some u'"
    using that by (auto simp: hci_callbacks_def packet_fragmenter_callbacks_def transmit_fragment_def Let_def w split: bind_splits if_splits dest: mem_flow_packets(2))
qed

lemma next_fragment_flow: "next_fragment (hci_callbacks send post) p m r h fr = Some fr' \<Longrightarrow> flow fr' = flow fr"
  by (auto simp: next_fragment_def Let_def split: bind_splits if_splits dest!: call_flow dest: callbacks_flow(3))

lemma fragment_flow:
  assumes "fragment_and_dispatch (hci_callbacks send post) classic ble p fr = Some fr'"
  shows "flow fr' = flow fr"
proof -
  have c: "flow fr2 = flow fr1" if "call (\<lambda>u. cb_fragmented (hci_callbacks send post) p b (put_packet p x u)) fr1 = Some fr2" for b x fr1 fr2
    by (rule call_flow [OF that]) (auto dest: callbacks_flow(1))
  have d: "flow fr2 = flow fr1" if "call (cb_fragmented (hci_callbacks send post) p True) fr1 = Some fr2" for fr1 fr2
    by (rule call_flow [OF that]) (rule callbacks_flow(1))
  show ?thesis using assms by (auto simp: fragment_and_dispatch_def Let_def split: bind_splits if_splits dest!: c d next_fragment_flow)
qed

end

lemma flow_run_submits: "flow_run f ws [] (f\<lparr>fl_queue := fl_queue f @ ws\<rparr>)"
proof (induction ws rule: rev_induct)
  case Nil
  then show ?case using flow_run.start [of f] by simp
next
  case (snoc w ws)
  then show ?case using flow_run.submit [OF snoc, of w] by simp
qed

lemma post_flow [simp]: "flow (snd (hci_host_task_post fr)) = flow fr"
  by (simp add: hci_host_task_post_def flow_def flow_of_def)

lemma enqueue_flow [simp]: "flow (enqueue_command w fr) = (flow fr)\<lparr>fl_queue := fl_queue (flow fr) @ [w]\<rparr>"
  by (simp add: enqueue_command_def flow_of_def) (simp add: flow_def flow_of_def)

lemma restart_flow [simp]: "flow (restart_command_waiting_response_timer fr) = (flow fr)\<lparr>fl_timer := fl_pending (flow fr) \<noteq> []\<rparr>"
  by (auto simp: restart_command_waiting_response_timer_def Let_def flow_of_def) (auto simp: flow_def flow_of_def)

lemma transmit_command_flow:
  assumes "transmit_command memory p cc sc context fr = Some fr'" and memory
  shows "\<exists>w. flow fr' = (flow fr)\<lparr>fl_queue := fl_queue (flow fr) @ [w]\<rparr> \<and> wc_command w = p"
  using assms by (auto simp: transmit_command_def call_def split: bind_splits)

lemma transmit_command_futured_flow:
  assumes "transmit_command_futured fut p fr = Some (f, fr')"
  shows "\<exists>w. flow fr' = (flow fr)\<lparr>fl_queue := fl_queue (flow fr) @ [w]\<rparr> \<and> wc_command w = p"
proof -
  have "flow (future_new fut fr) = flow fr" by (simp add: future_new_def flow_of_def) (simp add: flow_def flow_of_def)
  then show ?thesis using assms by (auto simp: transmit_command_futured_def Let_def call_def split: bind_splits)
qed

lemma future_ready_flow: "future_ready fut v fr = Some fr' \<Longrightarrow> flow fr' = flow fr"
  by (auto simp: future_ready_def flow_of_def) (simp add: flow_def flow_of_def)

lemma intercepted_flow:
  assumes "intercepted event_code p w fr = Some fr'"
  shows "flow fr' = (flow fr)\<lparr>fl_timer := fl_pending (flow fr) \<noteq> []\<rparr>"
proof -
  have c: "flow fr2 = flow fr1" if "call (free_packet q) fr1 = Some fr2" for q fr1 fr2 by (rule call_flow [OF that]) simp
  show ?thesis using assms by (auto simp: intercepted_def Let_def split: option.splits bind_splits if_splits dest!: c)
qed

lemma get_waiting_command_flow:
  "get_waiting_command opcode (set_env ((env_of fr)\<lparr>he_command_credits := c\<rparr>) fr) = (w, fr') \<Longrightarrow>
    flow fr' = (flow fr)\<lparr>fl_credits := c, fl_pending := snd (get_waiting opcode (fl_pending (flow fr)))\<rparr>"
  by (auto simp: get_waiting_command_def Let_def flow_of_def split: prod.splits) (auto simp: flow_def flow_of_def)

text \<open>What the tasks of the host do: the users submit commands and packets, the sending task runs, an event arrives.\<close>

datatype hci_op = Command bool ptr "nat option" "nat option" ptr | Futured nat ptr | Downward bool "16 word" ptr | Task bool | Event ptr

fun hci_exec :: "'w complete_cb \<Rightarrow> 'w status_cb \<Rightarrow> 'w hci_callbacks \<Rightarrow> 16 word \<Rightarrow> 16 word \<Rightarrow> hci_op \<Rightarrow> 'w host \<Rightarrow> 'w host option" where
  "hci_exec complete status cb classic ble (Command memory p cc sc context) fr = transmit_command memory p cc sc context fr"
| "hci_exec complete status cb classic ble (Futured fut p) fr = map_option snd (transmit_command_futured fut p fr)"
| "hci_exec complete status cb classic ble (Downward memory type p) fr = transmit_downward memory type p fr"
| "hci_exec complete status cb classic ble (Task available) fr = hci_host_thread_handler cb classic ble available fr"
| "hci_exec complete status cb classic ble (Event p) fr = map_option snd (filter_incoming_event complete status p fr)"

fun hci_run :: "'w complete_cb \<Rightarrow> 'w status_cb \<Rightarrow> 'w hci_callbacks \<Rightarrow> 16 word \<Rightarrow> 16 word \<Rightarrow> hci_op list \<Rightarrow> 'w host \<Rightarrow> 'w host option" where
  "hci_run complete status cb classic ble [] fr = Some fr"
| "hci_run complete status cb classic ble (op # ops) fr = do { fr \<leftarrow> hci_exec complete status cb classic ble op fr; hci_run complete status cb classic ble ops fr }"

fun commands_of :: "hci_op list \<Rightarrow> ptr list" where
  "commands_of [] = []"
| "commands_of (Command memory p cc sc context # ops) = (if memory then p # commands_of ops else commands_of ops)"
| "commands_of (Futured fut p # ops) = p # commands_of ops"
| "commands_of (Downward memory type p # ops) = (if memory \<and> type = 0x2000 then p # commands_of ops else commands_of ops)"
| "commands_of (Task available # ops) = commands_of ops"
| "commands_of (Event p # ops) = commands_of ops"

context hci_users
begin

lemma filter_flow:
  assumes "filter_incoming_event complete status p fr = Some (b, fr')"
  shows "\<exists>ws. flow_run (flow fr) ws [] (flow fr')"
proof -
  have submits: "\<exists>ws. flow_run (flow fr) ws [] (flow fr2)"
    if g: "get_waiting_command opcode (set_env ((env_of fr)\<lparr>he_command_credits := uint c\<rparr>) fr) = (w, fr0)"
      and cb: "\<exists>ws. flow fr1 = (flow fr0)\<lparr>fl_queue := fl_queue (flow fr0) @ ws\<rparr>" and i: "intercepted e p w fr1 = Some fr2" for opcode e w fr0 fr1 fr2 and c :: byte
  proof -
    let ?ws = "snd (get_waiting opcode (fl_pending (flow fr)))"
    let ?f = "(flow fr)\<lparr>fl_credits := uint c, fl_pending := ?ws, fl_timer := ?ws \<noteq> []\<rparr>"
    have a: "flow_run (flow fr) [] [] ?f" by (rule flow_run.answer [OF flow_run.start]) simp_all
    obtain ws where ws: "flow fr1 = (flow fr0)\<lparr>fl_queue := fl_queue (flow fr0) @ ws\<rparr>" using cb by blast
    have "flow fr2 = ?f\<lparr>fl_queue := fl_queue ?f @ ws\<rparr>" using intercepted_flow [OF i] ws get_waiting_command_flow [OF g] by simp
    then have "flow_run (flow fr) ws [] (flow fr2)" using flow_run_trans [OF flow_run_submits [of ?f ws] a] by simp
    then show ?thesis by blast
  qed
  have cc: "\<exists>ws. flow fr2 = (flow fr1)\<lparr>fl_queue := fl_queue (flow fr1) @ ws\<rparr>" if "command_complete complete q w fr1 = Some fr2" for q w fr1 fr2
    using that complete_submits future_ready_flow by (fastforce simp: command_complete_def intro: exI [of _ "[]"] split: option.splits)
  have cs: "\<exists>ws. flow fr2 = (flow fr1)\<lparr>fl_queue := fl_queue (flow fr1) @ ws\<rparr>" if "command_status status st w fr1 = Some fr2" for st w fr1 fr2
    using that status_submits by (fastforce simp: command_status_def intro: exI [of _ "[]"] split: option.splits)
  show ?thesis using assms flow_run.start [of "flow fr"]
    by (auto simp: filter_incoming_event_def Let_def split: bind_splits if_splits prod.splits dest!: cc cs intro: submits)
qed

end

context hci_users
begin

lemma command_ready_flow:
  assumes "event_command_ready (hci_callbacks send post) classic ble fr = Some fr'" and "0 < fl_credits (flow fr)"
  shows "\<exists>w. flow_run (flow fr) [] [w] (flow fr')"
proof -
  obtain w q where q: "he_command_queue (env_of fr) = w # q" using assms(1) by (auto simp: event_command_ready_def split: list.splits)
  let ?fr = "set_env ((env_of fr)\<lparr>he_command_queue := q, he_command_credits := he_command_credits (env_of fr) - 1, he_pending := he_pending (env_of fr) @ [w]\<rparr>) fr"
  obtain fr1 where d: "fragment_and_dispatch (hci_callbacks send post) classic ble (wc_command w) ?fr = Some fr1" "fr' = restart_command_waiting_response_timer fr1"
    using assms(1) q by (auto simp: event_command_ready_def Let_def split: bind_splits)
  have "flow fr' = (flow fr)\<lparr>fl_queue := q, fl_credits := fl_credits (flow fr) - 1, fl_pending := fl_pending (flow fr) @ [w], fl_timer := True\<rparr>"
    using fragment_flow [OF d(1)] d(2) by (simp add: flow_of_def) (simp add: flow_def flow_of_def)
  moreover have "fl_queue (flow fr) = w # q" using q by (simp add: flow_def flow_of_def)
  ultimately show ?thesis using flow_run.send [OF flow_run.start, of "flow fr" w q] assms(2) by auto
qed

lemma thread_flow:
  assumes "hci_host_thread_handler (hci_callbacks send post) classic ble available fr = Some fr'"
  shows "\<exists>sent. flow_run (flow fr) [] sent (flow fr')"
proof -
  let ?fr = "set_env ((env_of fr)\<lparr>he_posts := he_posts (env_of fr) - 1\<rparr>) fr"
  have f: "flow ?fr = flow fr" by (simp add: flow_of_def) (simp add: flow_def flow_of_def)
  have e: "flow fr2 = flow fr1" if "event_packet_ready (hci_callbacks send post) classic ble fr1 = Some fr2" for fr1 fr2
    using that by (auto simp: event_packet_ready_def split: list.splits dest!: fragment_flow) (simp add: flow_def flow_of_def)+
  have c: "\<exists>sent. flow_run (flow fr) [] sent (flow fr')" if "event_command_ready (hci_callbacks send post) classic ble ?fr = Some fr'" "0 < he_command_credits (env_of fr)"
    using command_ready_flow [OF that(1)] that(2) f by (auto simp: flow_def flow_of_def)
  have s: "\<exists>sent. flow_run (flow fr) [] sent (flow fr')" if "flow fr' = flow fr" using that flow_run.start [of "flow fr"] by auto
  show ?thesis using assms c s f e [of ?fr fr'] fragment_flow [of send classic ble "fr_current_fragment_packet fr" ?fr fr']
    by (auto simp: hci_host_thread_handler_def Let_def split: if_splits)
qed

lemma hci_exec_flow:
  assumes "hci_exec complete status (hci_callbacks send post) classic ble op fr = Some fr'"
  shows "\<exists>sub sent. flow_run (flow fr) sub sent (flow fr') \<and> subseq (commands_of [op]) (map wc_command sub)"
proof -
  have one: "\<exists>sub sent. flow_run (flow fr) sub sent (flow fr1) \<and> subseq [p] (map wc_command sub)"
    if ex: "\<exists>w. flow fr1 = (flow fr)\<lparr>fl_queue := fl_queue (flow fr) @ [w]\<rparr> \<and> wc_command w = p" for fr1 p
  proof -
    obtain w where "flow fr1 = (flow fr)\<lparr>fl_queue := fl_queue (flow fr) @ [w]\<rparr>" "wc_command w = p" using ex by blast
    then show ?thesis using flow_run_submits [of "flow fr" "[w]"] by (intro exI [of _ "[w]"] exI [of _ "[]"]) simp
  qed
  have none: "\<exists>sub sent. flow_run (flow fr) sub sent (flow fr1) \<and> subseq [] (map wc_command sub)" if "\<exists>sub sent. flow_run (flow fr) sub sent (flow fr1)" for fr1 using that by simp
  have same: "\<exists>sub sent. flow_run (flow fr) sub sent (flow fr1)" if "flow fr1 = flow fr" for fr1 using that flow_run.start [of "flow fr"] by auto
  show ?thesis
  proof (cases op)
    case (Command memory p cc sc ctx)
    show ?thesis
    proof (cases memory)
      case True
      then show ?thesis using one [OF transmit_command_flow] assms Command by auto
    next
      case False
      then have "flow fr' = flow fr" using assms Command by (simp add: transmit_command_def)
      then show ?thesis using none [OF same [of fr']] Command False by simp
    qed
  next
    case (Futured fut p)
    then show ?thesis using one [OF transmit_command_futured_flow] assms by auto
  next
    case (Downward memory type p)
    show ?thesis
    proof (cases "type = 0x2000")
      case True
      then obtain fr1 where t: "transmit_command memory p None None 0 fr = Some fr1" "flow fr' = flow fr1" using assms Downward by (auto simp: transmit_downward_def split: bind_splits)
      show ?thesis
      proof (cases memory)
        assume m: memory
        show ?thesis using one [OF transmit_command_flow [OF t(1) m]] t(2) Downward True m by simp
      next
        assume m: "\<not> memory"
        then have "flow fr' = flow fr" using t by (simp add: transmit_command_def)
        then show ?thesis using none [OF same [of fr']] Downward m by simp
      qed
    next
      case False
      then have "flow fr' = flow fr" using assms Downward by (auto simp: transmit_downward_def flow_of_def) (simp add: flow_def flow_of_def)
      then show ?thesis using none [OF same [of fr']] Downward False by simp
    qed
  next
    case (Task available)
    then show ?thesis using none [of fr'] thread_flow [of send classic ble available fr fr'] assms by auto
  next
    case (Event p)
    then obtain b where "filter_incoming_event complete status p fr = Some (b, fr')" using assms by auto
    then have "\<exists>sub sent. flow_run (flow fr) sub sent (flow fr')" using filter_flow by blast
    then show ?thesis using Event by simp
  qed
qed

lemma commands_of_Cons: "commands_of (op # ops) = commands_of [op] @ commands_of ops"
  by (cases op) simp_all

lemma hci_run_flow:
  assumes "hci_run complete status (hci_callbacks send post) classic ble ops fr = Some fr'"
  shows "\<exists>sub sent. flow_run (flow fr) sub sent (flow fr') \<and> subseq (commands_of ops) (map wc_command sub)"
  using assms
proof (induction ops arbitrary: fr)
  case Nil
  then show ?case using flow_run.start [of "flow fr"] by auto
next
  case (Cons op ops)
  obtain fr1 where s: "hci_exec complete status (hci_callbacks send post) classic ble op fr = Some fr1" "hci_run complete status (hci_callbacks send post) classic ble ops fr1 = Some fr'"
    using Cons.prems by (auto split: bind_splits)
  obtain sub1 sent1 where a: "flow_run (flow fr) sub1 sent1 (flow fr1)" "subseq (commands_of [op]) (map wc_command sub1)" using hci_exec_flow [OF s(1)] by blast
  obtain sub2 sent2 where b: "flow_run (flow fr1) sub2 sent2 (flow fr')" "subseq (commands_of ops) (map wc_command sub2)" using Cons.IH [OF s(2)] by blast
  have "subseq (commands_of (op # ops)) (map wc_command (sub1 @ sub2))" unfolding commands_of_Cons [of op ops] map_append by (rule list_emb_append_mono [OF a(2) b(2)])
  then show ?case using flow_run_trans [OF b(1) a(1)] by blast
qed

end

text \<open>Callbacks that free the answer or the command they are given, and a task above that takes every packet.\<close>

definition free_answer :: "'w complete_cb" where "free_answer k p c fr = call (free_packet p) fr"

definition free_command :: "'w status_cb" where "free_command k st p c fr = call (free_packet p) fr"

definition take_packet :: "ptr \<Rightarrow> 'w henv hci_mem \<Rightarrow> bool \<times> 'w henv hci_mem" where "take_packet p u = (True, u)"

interpretation quiet: hci_users free_answer free_command take_packet
proof
  have c: "\<exists>ws. flow fr' = (flow fr)\<lparr>fl_queue := fl_queue (flow fr) @ ws\<rparr>" if "call (free_packet p) fr = Some fr'" for p and fr fr' :: "'a host"
    using call_flow [OF that] by (intro exI [of _ "[]"]) simp
  fix k p ctx st and fr fr' :: "'a host"
  show "free_answer k p ctx fr = Some fr' \<Longrightarrow> \<exists>ws. flow fr' = (flow fr)\<lparr>fl_queue := fl_queue (flow fr) @ ws\<rparr>" unfolding free_answer_def by (rule c)
  show "free_command k st p ctx fr = Some fr' \<Longrightarrow> \<exists>ws. flow fr' = (flow fr)\<lparr>fl_queue := fl_queue (flow fr) @ ws\<rparr>" unfolding free_command_def by (rule c)
qed (simp add: take_packet_def)


section \<open>A command and its answer\<close>

lemma with_mem_set_env [simp]: "with_mem u (set_env h fr) = with_mem u fr"
  by (simp add: set_env_def)

lemma set_env_with_mem [simp]: "set_env h (with_mem u fr) = with_mem (u\<lparr>hci_world := h\<rparr>) fr"
  by (simp add: set_env_def)

definition future_command :: "nat \<Rightarrow> 16 word \<Rightarrow> ptr \<Rightarrow> waiting_command_t" where
  "future_command fut opcode p = \<lparr>wc_opcode = opcode, wc_complete_future = Some fut, wc_complete_callback = None, wc_status_callback = None, wc_context = 0, wc_command = p\<rparr>"

text \<open>The memory after the submission and after the command was sent, with the state \<open>h\<close> of the layer.\<close>

definition command_memory :: "ptr \<Rightarrow> BT_HDR \<Rightarrow> 'w henv \<Rightarrow> 'w henv hci_mem \<Rightarrow> 'w henv hci_mem" where
  "command_memory p packet h u = u\<lparr>packets := (packets u)(p \<mapsto> packet\<lparr>hd_event := 0x2000\<rparr>), hci_world := h\<rparr>"

definition submitted_env :: "nat \<Rightarrow> waiting_command_t \<Rightarrow> 'w henv \<Rightarrow> 'w henv" where
  "submitted_env fut w h = h\<lparr>he_futures := (he_futures h)(fut \<mapsto> \<lparr>fu_ready_can_be_called = True, fu_semaphore = 0, fu_result = 0\<rparr>), he_command_queue := he_command_queue h @ [w], he_posts := he_posts h + 1\<rparr>"

lemma slice_read: "slice b o' l = Some (le16 x @ ys) \<Longrightarrow> STREAM_TO_UINT16 b o' = Some x"
proof -
  assume "slice b o' l = Some (le16 x @ ys)"
  then have "take l (drop o' b) = le16 x @ ys" by (auto simp: slice_def split: if_splits)
  then have "drop o' b = le16 x @ ys @ drop l (drop o' b)" by (metis append.assoc append_take_drop_id)
  then show ?thesis by (rule stream_read)
qed

lemma command_submitted:
  assumes p: "p \<noteq> 0" "packets (mem_of fr) p = Some packet" "slice (hd_data packet) (unat (hd_offset packet)) (unat (hd_len packet)) = Some (le16 opcode @ ys)" and s: "he_started (env_of fr)"
  shows "transmit_command_futured fut p fr = Some (fut, with_mem (command_memory p packet (submitted_env fut (future_command fut opcode p) (env_of fr)) (mem_of fr)) fr)"
  using p(1,2) s slice_read [OF p(3)]
  by (simp add: transmit_command_futured_def future_new_def packet_at_def call_def put_packet_def enqueue_command_def hci_host_task_post_def command_memory_def submitted_env_def future_command_def)

text \<open>The state after the task sent the command.\<close>

definition sent_env :: "(byte list \<Rightarrow> 'w \<Rightarrow> 'w) \<Rightarrow> byte list \<Rightarrow> waiting_command_t \<Rightarrow> 'w henv \<Rightarrow> 'w henv" where
  "sent_env send xs w h = h\<lparr>he_posts := he_posts h - 1, he_command_queue := [], he_command_credits := he_command_credits h - 1, he_pending := he_pending h @ [w],
     he_wire := send (1 # xs) (he_wire h), he_alarm := True, he_timer_is_set := True\<rparr>"

lemma command_sent:
  assumes p: "p \<noteq> 0" "packets (mem_of fr) p = Some packet" "hd_event packet = 0x2000" "slice (hd_data packet) (unat (hd_offset packet)) (unat (hd_len packet)) = Some xs"
    and h: "he_command_queue (env_of fr) = [w]" "wc_command w = p" "0 < he_command_credits (env_of fr)" "he_posts (env_of fr) \<noteq> 0" "fr_current_fragment_packet fr = 0"
  shows "hci_host_thread_handler (hci_callbacks send post) classic ble True fr = Some (set_env (sent_env send xs w (env_of fr)) fr)"
  using p h
  by (simp add: hci_host_thread_handler_def Let_def event_command_ready_def fragment_and_dispatch_def packet_at_def call_def hci_callbacks_def packet_fragmenter_callbacks_def transmit_fragment_def
      MSG_EVT_MASK_def MSG_STACK_TO_HC_HCI_ACL_def event_to_data_type_def transmit_data_def wire_def restart_command_waiting_response_timer_def sent_env_def) (simp add: set_env_def)

definition arrived_event :: "BT_HDR \<Rightarrow> byte list \<Rightarrow> BT_HDR" where
  "arrived_event x es = x\<lparr>hd_layer_specific := 0, hd_data := 4 # es, hd_offset := 1, hd_len := word_of_nat (length es), hd_event := 0x1000\<rparr>"

lemma receive_event:
  assumes al: "balloc (3 + length params) (mem_of fr) = Some (q, x)" and q: "q \<noteq> 0" and len: "length params < 256" and es: "es = e # word_of_nat (length params) # params"
  shows "receive cb alloc balloc filter_event (4 # es) fr = do {
    (kept, fr) \<leftarrow> filter_event q (with_mem (put_packet q (arrived_event x es) (mem_of fr)) fr);
    if kept then Some fr else call (cb_reassembled cb q) fr }"
proof -
  have le: "length (4 # es) = 3 + length params" "length es = 2 + length params" by (simp_all add: es)
  let ?x = "x\<lparr>hd_offset := 0, hd_len := word_of_nat (3 + length params), hd_layer_specific := 0, hd_data := 4 # es\<rparr>"
  have recv: "host_recv_pkt_cb balloc (4 # es) (mem_of fr) = (q, put_packet q ?x (mem_of fr))" by (simp only: host_recv_pkt_cb_def le(1) al option.case prod.case)
  have ul1: "unat (word_of_nat (2 + length params) :: 16 word) = 2 + length params" using len by (intro unat_of_nat16) simp
  have ul2: "unat (word_of_nat (length params) :: byte) = length params" using len by (simp add: unat_of_nat take_bit_nat_eq_self)
  note ul = ul1 ul2
  have l3: "word_of_nat (3 + length params) - 1 = (word_of_nat (2 + length params) :: 16 word)" by simp
  let ?fr = "with_mem (put_packet q ?x (mem_of fr)) fr"
  have "hci_hal_h4_hdl_rx_packet (hal_says_packet_ready cb alloc balloc filter_event) q ?fr =
      hal_says_packet_ready cb alloc balloc filter_event q (with_mem (put_packet q (arrived_event x es) (mem_of fr)) fr)"
    using q ul l3 le(2) by (simp add: hci_hal_h4_hdl_rx_packet_def packet_at_def rd_def preamble_sizes_def outbound_event_types_def arrived_event_def call_def Let_def es del: of_nat_add)
  moreover have "\<dots> = do { (kept, fr) \<leftarrow> filter_event q (with_mem (put_packet q (arrived_event x es) (mem_of fr)) fr); if kept then Some fr else call (cb_reassembled cb q) fr }"
    using q by (simp add: hal_says_packet_ready_def packet_at_def arrived_event_def)
  ultimately show ?thesis using recv q by (simp add: receive_def Let_def)
qed

lemma get_waiting_new: "(\<And>x. x \<in> set ws \<Longrightarrow> wc_opcode x \<noteq> opcode) \<Longrightarrow> wc_opcode w = opcode \<Longrightarrow> get_waiting opcode (ws @ [w]) = (Some w, ws)"
  by (induction ws) auto

text \<open>The state after the answer arrived: the command is no longer pending, the future has the answer.\<close>

definition answered_env :: "nat \<Rightarrow> ptr \<Rightarrow> byte \<Rightarrow> waiting_command_t list \<Rightarrow> 'w henv \<Rightarrow> 'w henv" where
  "answered_env fut q c ws h = h\<lparr>he_command_credits := uint c, he_pending := ws, he_futures := (he_futures h)(fut \<mapsto> \<lparr>fu_ready_can_be_called = False, fu_semaphore = 1, fu_result = q\<rparr>),
     he_alarm := ws \<noteq> [], he_timer_is_set := ws \<noteq> []\<rparr>"

lemma event_filtered:
  assumes q: "q \<noteq> 0" "q \<noteq> p" "packets (mem_of fr) q = Some (arrived_event x (0x0E # l # c # le16 opcode @ zs))" and p: "p \<noteq> 0" "packets (mem_of fr) p \<noteq> None"
    and h: "he_command_queue (env_of fr) = []" "he_pending (env_of fr) = ws @ [future_command fut opcode p]" "he_timer_is_set (env_of fr)" "he_futures (env_of fr) fut = Some f" "fu_semaphore f = 0"
    and new: "\<And>x. x \<in> set ws \<Longrightarrow> wc_opcode x \<noteq> opcode"
  shows "filter_incoming_event complete status q fr = Some (True, with_mem ((mem_of fr)\<lparr>hci_world := answered_env fut q c ws (env_of fr), packets := (packets (mem_of fr))(p := None)\<rparr>) fr)"
proof -
  let ?b = "4 # 0x0E # l # c # le16 opcode @ zs"
  have op: "STREAM_TO_UINT16 ?b 4 = Some opcode" using stream_read_at [of "[4, 0x0E, l, c]" 4 opcode zs] by simp
  have gw: "get_waiting opcode (ws @ [future_command fut opcode p]) = (Some (future_command fut opcode p), ws)" by (rule get_waiting_new) (use new in \<open>auto simp: future_command_def\<close>)
  show ?thesis
    using q p(1) h op gw p(2)
    by (cases "ws = []") (auto simp: filter_incoming_event_def packet_at_def arrived_event_def rd_def get_waiting_command_def command_complete_def future_command_def future_ready_def intercepted_def
        restart_command_waiting_response_timer_def Let_def call_def free_packet_def osi_sem_give_def answered_env_def)
qed

text \<open>C19: a command with a future gets its answer.  When the layer is started, has a credit and nothing else to send, and no other command with the same opcode is pending: submitting a command, a run of the task and
  the event \<open>Command Complete\<close> for its opcode put exactly the command on the wire, let \<open>future_await\<close> wait until the event arrived and then return a packet with exactly the bytes of the event, free the
  command and nothing else, take the credits from the event and leave the other pending commands and the timer as they have to be.\<close>

theorem command_future_answered:
  assumes "hci_memory alloc K N balloc" and "card (dom (packets (mem_of fr))) < N"
    and "p \<noteq> 0" "packets (mem_of fr) p = Some packet" "slice (hd_data packet) (unat (hd_offset packet)) (unat (hd_len packet)) = Some (le16 opcode @ ys)"
    and "he_started (env_of fr)" "0 < he_command_credits (env_of fr)" "he_command_queue (env_of fr) = []" "fr_current_fragment_packet fr = 0"
    and "\<And>x. x \<in> set (he_pending (env_of fr)) \<Longrightarrow> wc_opcode x \<noteq> opcode"
    and "event = 0x0E # word_of_nat (3 + length zs) # c # le16 opcode @ zs" "length zs < 253"
  shows "\<exists>fr1 fr2 fr3 fr4 q answer. transmit_command_futured fut p fr = Some (fut, fr1) \<and> hci_host_thread_handler (hci_callbacks send post) classic ble True fr1 = Some fr2 \<and>
    he_wire (env_of fr2) = send (1 # le16 opcode @ ys) (he_wire (env_of fr)) \<and> future_await fut fr2 = None \<and>
    receive (hci_callbacks send post) alloc balloc (filter_incoming_event complete status) (4 # event) fr2 = Some fr3 \<and> future_await fut fr3 = Some (q, fr4) \<and>
    packets (mem_of fr4) = (packets (mem_of fr))(p := None, q \<mapsto> answer) \<and> packets (mem_of fr) q = None \<and>
    slice (hd_data answer) (unat (hd_offset answer)) (unat (hd_len answer)) = Some event \<and>
    he_pending (env_of fr4) = he_pending (env_of fr) \<and> he_command_credits (env_of fr4) = uint c \<and> (he_timer_is_set (env_of fr4) \<longleftrightarrow> he_pending (env_of fr) \<noteq> [])"
proof -
  let ?h = "env_of fr" and ?u = "mem_of fr" and ?w = "future_command fut opcode p" and ?params = "c # le16 opcode @ zs"
  define h1 where "h1 = submitted_env fut ?w ?h"
  define h2 where "h2 = sent_env send (le16 opcode @ ys) ?w h1"
  define fr1 where "fr1 = with_mem (command_memory p packet h1 ?u) fr"
  define fr2 where "fr2 = with_mem (command_memory p packet h2 ?u) fr"
  have s1: "transmit_command_futured fut p fr = Some (fut, fr1)" unfolding fr1_def h1_def by (rule command_submitted [OF assms(3-6)])
  have e1: "env_of fr1 = h1" "packets (mem_of fr1) p = Some (packet\<lparr>hd_event := 0x2000\<rparr>)" "fr_current_fragment_packet fr1 = 0" by (simp_all add: fr1_def command_memory_def assms(9))
  have "hci_host_thread_handler (hci_callbacks send post) classic ble True fr1 = Some (set_env (sent_env send (le16 opcode @ ys) ?w (env_of fr1)) fr1)"
    by (rule command_sent [OF assms(3) e1(2)]) (use assms e1 in \<open>simp_all add: h1_def submitted_env_def future_command_def\<close>)
  then have s2: "hci_host_thread_handler (hci_callbacks send post) classic ble True fr1 = Some fr2" by (simp add: e1(1) h2_def [symmetric]) (simp add: fr1_def fr2_def command_memory_def)
  have e2: "env_of fr2 = h2" "mem_of fr2 = command_memory p packet h2 ?u" by (simp_all add: fr2_def command_memory_def)
  have dom: "dom (packets (mem_of fr2)) = dom (packets ?u)" using assms(4) by (auto simp: e2(2) command_memory_def)
  obtain q x where al: "balloc (3 + length ?params) (mem_of fr2) = Some (q, x)"
    using hci_memory.packet_room [OF assms(1), of "mem_of fr2" "3 + length ?params"] assms(2) dom by auto
  have q: "q \<noteq> 0" "packets (mem_of fr2) q = None" using hci_memory.packet_fresh [OF assms(1) al] by auto
  have qp: "q \<noteq> p" "packets ?u q = None" using q(2) by (auto simp: e2(2) command_memory_def split: if_splits)
  let ?fr = "with_mem (put_packet q (arrived_event x event) (mem_of fr2)) fr2"
  have ev: "event = 0x0E # word_of_nat (length ?params) # ?params" using assms(11) by simp
  have recv: "receive (hci_callbacks send post) alloc balloc (filter_incoming_event complete status) (4 # event) fr2 = do {
      (kept, fr) \<leftarrow> filter_incoming_event complete status q ?fr; if kept then Some fr else call (cb_reassembled (hci_callbacks send post) q) fr }"
    by (rule receive_event [where params = ?params and fr = fr2 and balloc = balloc, OF al q(1) _ ev]) (use assms(12) in simp)
  define fr3 where "fr3 = with_mem ((mem_of ?fr)\<lparr>hci_world := answered_env fut q c (he_pending ?h) h2, packets := (packets (mem_of ?fr))(p := None)\<rparr>) ?fr"
  have "env_of ?fr = h2" by (simp add: e2(2) command_memory_def)
  then have "filter_incoming_event complete status q ?fr = Some (True, fr3)"
    using event_filtered [of q p ?fr x "word_of_nat (length ?params)" c opcode zs "he_pending ?h" fut "\<lparr>fu_ready_can_be_called = True, fu_semaphore = 0, fu_result = 0\<rparr>" complete status] q(1) qp assms(3,10) ev
    by (simp add: fr3_def e2(2) command_memory_def h2_def sent_env_def h1_def submitted_env_def)
  then have s3: "receive (hci_callbacks send post) alloc balloc (filter_incoming_event complete status) (4 # event) fr2 = Some fr3" using recv by simp
  define fr4 where "fr4 = set_env ((env_of fr3)\<lparr>he_futures := (he_futures (env_of fr3))(fut := None)\<rparr>) fr3"
  have s4: "future_await fut fr3 = Some (q, fr4)" by (simp add: future_await_def fr4_def) (simp add: fr3_def answered_env_def)
  have w2: "he_wire (env_of fr2) = send (1 # le16 opcode @ ys) (he_wire ?h)" "future_await fut fr2 = None"
    by (simp_all add: e2(1) h2_def sent_env_def h1_def submitted_env_def future_await_def)
  have e4: "he_pending (env_of fr4) = he_pending ?h" "he_command_credits (env_of fr4) = uint c" "he_timer_is_set (env_of fr4) \<longleftrightarrow> he_pending ?h \<noteq> []"
      "packets (mem_of fr4) = (packets ?u)(p := None, q \<mapsto> arrived_event x event)"
    using qp by (auto simp: fr4_def fr3_def answered_env_def e2(2) command_memory_def fun_eq_iff)
  have "slice (hd_data (arrived_event x event)) (unat (hd_offset (arrived_event x event))) (unat (hd_len (arrived_event x event))) = Some event"
  proof -
    have "unat (word_of_nat (length event) :: 16 word) = length event" using assms(11,12) by (intro unat_of_nat16) simp
    then show ?thesis by (simp add: arrived_event_def slice_def)
  qed
  then show ?thesis using s1 s2 s3 s4 w2 e4 qp(2) by blast
qed

text \<open>A started host with one command packet, the opcode of \<open>HCI_Reset\<close> and no parameters.\<close>

definition reset_command :: BT_HDR where
  "reset_command = \<lparr>hd_event = 0, hd_len = 3, hd_offset = 0, hd_layer_specific = 0, hd_data = le16 0x0C03 @ [0]\<rparr>"

definition henv0 :: "byte list list henv" where
  "henv0 = hci_layer_init_env \<lparr>he_command_credits = 0, he_command_queue = [], he_packet_queue = [], he_timer_is_set = False, he_alarm = False, he_pending = [], he_started = True, he_posts = 0,
     he_futures = Map.empty, he_wire = []\<rparr>"

definition reset_host :: "byte list list host" where
  "reset_host = with_mem (put_packet 4 reset_command (mem_of (hci_host0 henv0))) (hci_host0 henv0)"

lemma reset_host_state: "env_of reset_host = henv0" "packets (mem_of reset_host) = [4 \<mapsto> reset_command]" "fr_current_fragment_packet reset_host = 0"
  by (simp_all add: reset_host_def hci_host0_ok) (simp add: hci_host0_def fragmenter_init_def hash_map_new_internal_def first_entry_def hci_store0_def)


theorem command_future_answered_witness:
  "\<exists>fr1 fr2 fr3 fr4 q answer. transmit_command_futured 1 4 reset_host = Some (1, fr1) \<and> hci_host_thread_handler (hci_callbacks (\<lambda>f w. w @ [f]) take_packet) 27 27 True fr1 = Some fr2 \<and>
     he_wire (env_of fr2) = [1 # le16 0x0C03 @ [0]] \<and>
     receive (hci_callbacks (\<lambda>f w. w @ [f]) take_packet) (first_entry [4, 8]) (first_packet [4, 8]) (filter_incoming_event free_answer free_command) [4, 0x0E, 4, 1, 0x03, 0x0C, 0] fr2 = Some fr3 \<and>
     future_await 1 fr3 = Some (q, fr4) \<and> packets (mem_of fr4) = [q \<mapsto> answer] \<and> he_pending (env_of fr4) = [] \<and> he_command_credits (env_of fr4) = 1"
proof -
  have "card (set [4, 8 :: ptr] - {0}) = 2" by simp
  then have mem: "hci_memory (first_entry [4, 8]) 2 2 (first_packet [4, 8])" using hci_arena.hci_memory_axioms [of "[4, 8]" "[4, 8]"] by (simp only:)
  let ?cb = "hci_callbacks (\<lambda>f w. w @ [f]) take_packet :: byte list list hci_callbacks" and ?ev = "0x0E # word_of_nat (3 + length [0 :: byte]) # 1 # le16 0x0C03 @ [0] :: byte list"
  have ev: "4 # ?ev = [4, 0x0E, 4, 1, 0x03, 0x0C, 0]" by (simp add: le16_def)
  have r: "\<exists>fr1 fr2 fr3 fr4 q answer. transmit_command_futured 1 4 reset_host = Some (1, fr1) \<and> hci_host_thread_handler ?cb 27 27 True fr1 = Some fr2 \<and>
      he_wire (env_of fr2) = he_wire (env_of reset_host) @ [1 # le16 0x0C03 @ [0]] \<and> future_await 1 fr2 = None \<and>
      receive ?cb (first_entry [4, 8]) (first_packet [4, 8]) (filter_incoming_event free_answer free_command) (4 # ?ev) fr2 = Some fr3 \<and> future_await 1 fr3 = Some (q, fr4) \<and>
      packets (mem_of fr4) = (packets (mem_of reset_host))(4 := None, q \<mapsto> answer) \<and> packets (mem_of reset_host) q = None \<and>
      slice (hd_data answer) (unat (hd_offset answer)) (unat (hd_len answer)) = Some ?ev \<and>
      he_pending (env_of fr4) = he_pending (env_of reset_host) \<and> he_command_credits (env_of fr4) = uint (1 :: byte) \<and> (he_timer_is_set (env_of fr4) \<longleftrightarrow> he_pending (env_of reset_host) \<noteq> [])"
    by (rule command_future_answered [OF mem, where packet = reset_command and zs = "[0]"]) (simp_all add: reset_host_state reset_command_def henv0_def hci_layer_init_env_def slice_def)
  have h: "he_wire (env_of reset_host) = []" "he_pending (env_of reset_host) = []" "(packets (mem_of reset_host))(4 := None) = Map.empty" by (simp_all add: reset_host_state henv0_def hci_layer_init_env_def)
  show ?thesis using r unfolding ev h append_Nil by fastforce
qed

end
