(* ===== verification/Spec2Isabelle.thy ===== *)
theory Spec2Isabelle
  imports HttpServer ClientInvariant HciCommands
begin

text \<open>
  \<^bold>\<open>The firmware of the ESP32 smart home system\<close>

  The firmware (\<^verbatim>\<open>src/main\<close>) reads a Bluetooth sensor tag, publishes its measurements over MQTT to the Cayenne cloud, joins a WiFi network or
  opens an access point, and has a web server where the network and the cloud account are set.  \<^verbatim>\<open>app_main\<close> initialises the flash, counts the restart, starts
  the WiFi and the web server; the WiFi event handler saves the network, connects the Cayenne client, starts Bluetooth and publishes for ever; the Bluetooth callbacks
  fill the global record of measurements; the forms of the web server change the settings.

  \<^bold>\<open>Theories and the code they model\<close>

  \<^item> \<open>CPrelude\<close>, \<open>CString\<close>: C memory as lists of bytes with accesses that may fail, integers of 32 bits, strings and decimal printing.  \<open>CDouble\<close>:
    IEEE double arithmetic on rational numbers, rounded to 53 bits.  \<open>Esp\<close>: error codes, \<open>ESP_ERROR_CHECK\<close> and the outcomes of a function.
  \<^item> \<open>Timer\<close>, \<open>Network\<close>: \<^verbatim>\<open>Platform/esp32/Timer.c\<close> and \<^verbatim>\<open>Network.c\<close>.
  \<^item> \<open>MQTTPacket\<close>, \<open>MQTTPublish\<close>, \<open>MQTTConnect\<close>, \<open>MQTTSubscribe\<close>: \<^verbatim>\<open>MQTTCommon\<close>, the serializers and deserializers.
  \<^item> \<open>MQTTClient\<close>: \<^verbatim>\<open>CayenneMQTTClient/MQTTClient.c\<close>.
  \<^item> \<open>CayenneUtils\<close>, \<open>CayenneDataArray\<close>: \<^verbatim>\<open>CayenneUtils\<close>, topics, payloads and value arrays.
  \<^item> \<open>CayenneClient\<close>: \<^verbatim>\<open>CayenneMQTTClient/CayenneMQTTClient.c\<close> and \<^verbatim>\<open>Cayenne/esp32iot_cayenne.c\<close>, with the loop of \<open>cayenne_task_handler\<close> from \<^verbatim>\<open>WiFi/esp32iot_wifi.c\<close>.
  \<^item> \<open>ClientInvariant\<close>: the sizes of the MQTT client and the Cayenne client, and the steps between the states they reach; it models no further code.
  \<^item> \<open>Bluetooth\<close>: \<^verbatim>\<open>Bluetooth/esp32iot_bluetooth.c\<close>.
  \<^item> \<open>Storage\<close>: \<^verbatim>\<open>Storage/esp32iot_storage.c\<close>.
  \<^item> \<open>WiFi\<close>: \<^verbatim>\<open>WiFi/esp32iot_wifi.c\<close>.
  \<^item> \<open>HttpServer\<close>: \<^verbatim>\<open>HttpServer/esp32iot_http_server.c\<close> and \<^verbatim>\<open>main.c\<close>.

  Below the Bluetooth callbacks lies the host of \<^verbatim>\<open>components/bt/bluedroid\<close>, of which the support library and the layer next to the controller are modelled:

  \<^item> \<open>OsiList\<close>, \<open>HashMap\<close>: \<^verbatim>\<open>osi/list.c\<close>, \<^verbatim>\<open>osi/hash_map.c\<close> and \<^verbatim>\<open>osi/hash_functions.c\<close>, on a heap of nodes and entries.
  \<^item> \<open>FixedQueue\<close>: \<^verbatim>\<open>osi/fixed_queue.c\<close>, operations as sequences of atomic parts that a step relation interleaves.
  \<^item> \<open>HciFragmenter\<close>: \<^verbatim>\<open>hci/packet_fragmenter.c\<close>, its callbacks in \<^verbatim>\<open>hci/hci_layer.c\<close>, and the sending and receiving of \<^verbatim>\<open>hci/hci_hal_h4.c\<close>.
  \<^item> \<open>HciCommands\<close>: the commands, events and tasks of \<^verbatim>\<open>hci/hci_layer.c\<close>, and \<^verbatim>\<open>osi/future.c\<close>.

  Functions keep their C names; a definition with another name is a block of the function that its comment names.  Structs are records, the globals of a component are
  a record threaded through its functions, and every call of code outside of the repository is a field of a record of functions on an abstract world \<open>'w\<close>:
  \<open>os\<close> (clock and sockets), \<open>bt\<close> and \<open>bt_start\<close> (Bluetooth library), \<open>nvs\<close> (settings library), \<open>wifi\<close> (driver), \<open>http\<close> (connections) and
  \<open>app\<close> (the message handlers of the application).

  \<^bold>\<open>How a function can end\<close>

  In the MQTT and Cayenne code \<open>None\<close> is undefined behaviour, such as an access outside of an object, or a loop that does not return.  In the ESP code the result is an \<open>outcome\<close>: a
  return, an abort by \<open>ESP_ERROR_CHECK\<close>, a restart, an endless loop, or undefined behaviour.  Loops that may run for ever are \<open>partial_function (option)\<close>, and that they return is part of the
  statements about them (\<open>connect_retry_terminates_iff\<close>, \<open>esp32_read_lost_connection_hangs\<close>, the properties over a working link).

  \<^bold>\<open>Contracts\<close>

  \<^item> \<open>byte_source\<close> and \<open>packet_source\<close> (\<open>MQTTPacket\<close>): a reader that delivers bytes in order; \<open>lwip_stream\<close> (\<open>Network\<close>): a socket that
    delivers, which gives such a reader through \<open>esp32_read\<close>.
  \<^item> \<open>mqtt_link\<close> (\<open>MQTTClient\<close>): a clock and a socket that deliver; interpreted on a simulated link.  On it rest the properties of connecting, publishing and reading.
  \<^item> \<open>client_handlers\<close> (\<open>ClientInvariant\<close>): message handlers that keep the sizes of the client; interpreted on \<open>MQTTMessageArrived\<close>.
  \<^item> \<open>nvs_store\<close> (\<open>Storage\<close>): the documented behaviour of the settings library; interpreted on a store in memory.
  \<^item> \<open>wifi_device\<close> (\<open>WiFi\<close>) extends it by a driver whose calls succeed and are recorded; \<open>web_device\<close> (\<open>HttpServer\<close>) extends that by connections.
  \<^item> \<open>ble_stable\<close> (\<open>Bluetooth\<close>): a predicate that every step of the callbacks keeps; interpreted on the invariant and on the blocked state.
  \<^item> \<open>fresh_alloc\<close> (\<open>OsiList\<close>): an allocator that gives unused addresses; \<open>entry_alloc\<close> (\<open>HashMap\<close>) and \<open>hci_memory\<close> (\<open>HciFragmenter\<close>) extend it by entries and packets; interpreted
    on allocators that take the first free address of an arena.
  \<^item> \<open>hci_users\<close> (\<open>HciCommands\<close>): callbacks that may submit commands and do not touch the others; interpreted on callbacks that free what they are given.

  \<^bold>\<open>What is shown\<close>

  \<^item> Wire formats: the serializers write the packets of the protocol and stay in their buffers, deserializers read them back, and which malformed input they accept.
  \<^item> The client: handshake, acknowledged publication, packet reading, keep-alive, topic matching, and the effect of short writes and failed reads.  In every state
    that any sequence of Cayenne operations reaches, buffers, tables and packet numbers have the sizes the code relies on.
  \<^item> Topics and payloads: round trip of topics, the text of payloads, the sizes at which the checks of the code are too weak; adding to a value array refines appending to a list.
  \<^item> Settings: the storage functions refine operations on a table and a counter, and saved credentials are read back.
  \<^item> Bluetooth: the invariant of the callbacks, exactness of the sensor formulas, and the state from which no connection is made again.
  \<^item> WiFi, web server and start: which mode is selected, what a posted form does, and what a restart finds (below and in \<open>HttpServer\<close>).
  \<^item> The whole stack: the rounds of the publishing task send exactly the packets of the measurements (below).
  \<^item> The Bluetooth host: list and hash map refine sequences and maps without touching memory of others; the queue is first in first out and free of deadlock under every interleaving of tasks; a
    packet that is sent in fragments is put together again by a receiver; commands are sent in order and with credits, and the answer to a command reaches its future.

  \<^bold>\<open>Bounds and parameters\<close>

  Integers are mathematical integers with the wrap-around or the overflow of their C type written out.  \<open>slack\<close> in \<open>HttpServer\<close> is the room behind a variable-length array into which the parsers
  write; \<open>junk\<close> in \<open>WiFi\<close> is what three uninitialised arrays hold.  \<open>connect_tries\<close> counts attempts and is only used to say when the loop returns.  The printing of floating-point values is the
  parameter \<open>fmt\<close>.  Addresses of the Bluetooth host and its 16-bit lengths are words and wrap around.  \<open>K\<close> and \<open>N\<close> in the statements on its memory are numbers of cells and packets below which the
  allocators do not fail; each statement says how many it needs.

  \<^bold>\<open>Not modelled\<close>

  Logging and \<open>print_properities\<close>, which only print; the texts of the web pages, which are constants; the task variant of the MQTT client and the C++ classes, which are not compiled;
  the interleaving of the tasks of the firmware (that of the Bluetooth host is modelled in \<open>FixedQueue\<close>, and in \<open>HciCommands\<close> handler by handler) and the lifetime of local arrays whose address is kept.
  Of the Bluetooth host \<open>fixed_queue_try_dequeue\<close> and \<open>fixed_queue_try_remove_from_queue\<close>, which pass a semaphore in place of its address and have no defined effect, starting and stopping of its tasks, and
  the layers above HCI, a copy of a third-party stack: the firmware's use of their interface is the parameters \<open>bt\<close> and \<open>bt_start\<close>.  \<^verbatim>\<open>environment\<close> is a tool chain.
\<close>

section \<open>The publishing task over the whole stack\<close>

lemma cayenne_task_sent:
  assumes "mqtt_link os inbox outbox T"
    and "\<And>ms w. inbox (delay ms w) = inbox w \<and> outbox (delay ms w) = outbox w"
    and "cy_username client = Some u" and "cy_clientID client = Some cid" and "ready (cy_mqttClient client)"
    and "text_ok u" and "text_ok cid" and "length u + length cid \<le> 90" and "data_ok d"
  shows "\<exists>c' w'. cayenne_task os delay app d client w = Some (client\<lparr>cy_mqttClient := c'\<rparr>, w') \<and> ready c' \<and> inbox w' = inbox w \<and>
     outbox w' = outbox w @ concat (map (measurement_packet u cid) (task_publications d))"
proof -
  have "list_all measurement_ok (task_publications d)" using assms(9)
    by (simp add: task_publications_def measurement_ok_def cs_def data_ok_def)
  then show ?thesis
    using mqtt_link.publish_all_sent [OF assms(1,3-8), of "task_publications d" app "delay 1000 w"] assms(2)
    by (simp add: cayenne_task_def)
qed


definition example_client :: "unit CayenneMQTTClient" where
  "example_client = \<lparr>cy_mqttClient = client0\<lparr>isconnected := True, command_timeout_ms := 30000, buf := replicate 135 0, buf_size := 134\<rparr>,
     cy_username = Some [117], cy_password = None, cy_clientID = Some [99], cy_sendbuf = [], cy_readbuf = [],
     cy_messageHandlers = [], cy_defaultMessageHandler = None\<rparr>"


section \<open>Setting up the network\<close>


definition example_request :: "byte list" where
  "example_request = cs ''POST /wifi-setup HTTP/1.1 ssid=home&password=pw''"

lemma example_request_form:
  "0 \<notin> set example_request" "contains example_request ''POST ''" "contains example_request '' HTTP/1.1''" "\<not> contains example_request ''GET ''"
  "contains example_request ''/wifi-setup''" "form_field example_request (cs ''ssid'') (cs ''home'')" "form_field example_request (cs ''password'') (cs ''pw'')"
proof -
  show "form_field example_request (cs ''ssid'') (cs ''home'')"
    by (rule form_fieldI [of _ "cs ''POST /wifi-setup HTTP/1.1 ''" _ 61 _ "cs ''&password=pw''"]) (simp_all add: cs_def example_request_def)
  show "form_field example_request (cs ''password'') (cs ''pw'')"
    by (rule form_fieldI [of _ "cs ''POST /wifi-setup HTTP/1.1 ssid=home&''" _ 61 _ "[]"]) (simp_all add: cs_def example_request_def)
qed (simp_all add: cs_def example_request_def contains_def)

definition example_server :: "(unit, web) server" where
  "example_server = \<lparr>srv_device = web_device0 None, srv_username = [], srv_password = [], srv_clientID = []\<rparr>"


end
